(* ===== verification/Prelude.thy ===== *)
theory Prelude
  imports Complex_Main "HOL-Library.Sublist" "HOL-Library.List_Lexorder" "HOL-Library.Multiset" "HOL-Library.Product_Lexorder"
begin

text \<open>
  Shared vocabulary of the development: Python strings as lists of code
  points, results of code that may raise, decimal rendering of integers,
  UTF-8, and the facts about them that the component theories use.

  A Python \<open>str\<close> is a \<open>nat list\<close> of code points, surrogates included, and
  \<open>lit\<close> turns an ASCII literal into one.  A function that may raise returns a
  sum whose left side is the error and whose right side is the result, and
  \<open>bindE\<close> sequences two such computations.
\<close>

named_theorems err_simps
named_theorems lit_simps
named_theorems ts_simps
named_theorems schema_simps

type_synonym ustr = "nat list"
type_synonym bytes = "nat list"
type_synonym code = string

section \<open>Results\<close>

definition bindE :: "'e + 'a \<Rightarrow> ('a \<Rightarrow> 'e + 'b) \<Rightarrow> 'e + 'b" where
  "bindE r f = (case r of Inl e \<Rightarrow> Inl e | Inr x \<Rightarrow> f x)"

definition guardE :: "bool \<Rightarrow> 'e \<Rightarrow> 'e + unit" where
  "guardE b e = (if b then Inr () else Inl e)"

definition mapErr :: "('e \<Rightarrow> 'f) \<Rightarrow> 'e + 'a \<Rightarrow> 'f + 'a" where
  "mapErr h r = (case r of Inl e \<Rightarrow> Inl (h e) | Inr x \<Rightarrow> Inr x)"

primrec mapE :: "('a \<Rightarrow> 'e + 'b) \<Rightarrow> 'a list \<Rightarrow> 'e + 'b list" where
  "mapE f [] = Inr []"
| "mapE f (x # xs) = bindE (f x) (\<lambda>y. bindE (mapE f xs) (\<lambda>ys. Inr (y # ys)))"

definition isOk :: "'e + 'a \<Rightarrow> bool" where
  "isOk r = (case r of Inl _ \<Rightarrow> False | Inr _ \<Rightarrow> True)"

lemma bindE_simps [simp, err_simps]:
  "bindE (Inl e) f = Inl e" "bindE (Inr x) f = f x"
  by (simp_all add: bindE_def)

lemma bindE_Inr_iff [err_simps]: "bindE r f = Inr y \<longleftrightarrow> (\<exists>x. r = Inr x \<and> f x = Inr y)"
  by (cases r) auto

lemma bindE_InrE:
  assumes "bindE r f = Inr y"
  obtains x where "r = Inr x" "f x = Inr y"
  using assms by (cases r) auto

lemma bindE_Inl_iff: "bindE r f = Inl e \<longleftrightarrow> r = Inl e \<or> (\<exists>x. r = Inr x \<and> f x = Inl e)"
  by (cases r) auto

lemma bindE_cong [fundef_cong]:
  "r = r' \<Longrightarrow> (\<And>x. r' = Inr x \<Longrightarrow> f x = g x) \<Longrightarrow> bindE r f = bindE r' g"
  by (cases r') auto

lemma guardE_iff [simp, err_simps]:
  "guardE b e = Inr u \<longleftrightarrow> b" "guardE b e = Inl e' \<longleftrightarrow> \<not> b \<and> e' = e"
  by (auto simp: guardE_def)

lemma guardE_True [simp]: "guardE True e = Inr ()" and guardE_False [simp]: "guardE False e = Inl e"
  by (simp_all add: guardE_def)

lemma bindE_guardE: "bindE (guardE b e) f = (if b then f () else Inl e)"
  by (simp add: guardE_def)

lemma mapErr_iff [simp, err_simps]:
  "mapErr h r = Inr x \<longleftrightarrow> r = Inr x" "mapErr h r = Inl e \<longleftrightarrow> (\<exists>d. r = Inl d \<and> e = h d)"
  by (auto simp: mapErr_def split: sum.splits)

lemma mapErr_simps [simp]: "mapErr h (Inr x) = Inr x" "mapErr h (Inl e) = Inl (h e)"
  by (simp_all add: mapErr_def)

lemma isOk_iff: "isOk r \<longleftrightarrow> (\<exists>x. r = Inr x)"
  by (auto simp: isOk_def split: sum.splits)

lemma isOk_simps [simp]: "isOk (Inr x)" "\<not> isOk (Inl e)"
  by (simp_all add: isOk_def)

lemma not_Inr_iff: "(\<forall>x. r \<noteq> Inr x) \<longleftrightarrow> (\<exists>e. r = Inl e)"
  by (cases r) auto

lemma mapE_Inr_iff: "mapE f xs = Inr ys \<longleftrightarrow> list_all2 (\<lambda>x y. f x = Inr y) xs ys"
  by (induction xs arbitrary: ys) (auto simp: bindE_Inr_iff list_all2_Cons1)

lemma mapE_length: "mapE f xs = Inr ys \<Longrightarrow> length ys = length xs"
  by (simp add: mapE_Inr_iff list_all2_lengthD)

lemma isOk_bindE: "isOk (bindE r f) \<longleftrightarrow> (\<exists>x. r = Inr x \<and> isOk (f x))"
  by (cases r) auto

lemma list_all2_in_set2: "list_all2 P xs ys \<Longrightarrow> y \<in> set ys \<Longrightarrow> \<exists>x \<in> set xs. P x y"
  by (induction rule: list_all2_induct) auto

section \<open>Strings\<close>

definition lit :: "string \<Rightarrow> ustr" where
  "lit s = map of_char s"

lemma lit_inject [simp, lit_simps]: "lit s = lit t \<longleftrightarrow> s = t"
proof -
  have "inj (of_char :: char \<Rightarrow> nat)"
    by (auto intro!: injI)
  then show ?thesis
    by (simp add: lit_def)
qed

lemma lit_Nil [simp]: "lit [] = []"
  by (simp add: lit_def)

lemma lit_Cons: "lit (c # cs) = of_char c # lit cs"
  by (simp add: lit_def)

lemma lit_append: "lit (s @ t) = lit s @ lit t"
  by (simp add: lit_def)

lemma lit_eq_Nil [simp]: "lit s = [] \<longleftrightarrow> s = []" "[] = lit s \<longleftrightarrow> s = []"
  by (auto simp: lit_def)

lemma length_lit [simp]: "length (lit s) = length s"
  by (simp add: lit_def)

definition is_surrogate :: "nat \<Rightarrow> bool" where
  "is_surrogate c \<longleftrightarrow> 55296 \<le> c \<and> c \<le> 57343"

text \<open>\<open>str.encode("utf-8")\<close> of a string without surrogates.\<close>

definition utf8_char :: "nat \<Rightarrow> bytes" where
  "utf8_char c =
    (if c < 128 then [c]
     else if c < 2048 then [192 + c div 64, 128 + c mod 64]
     else if c < 65536 then [224 + c div 4096, 128 + (c div 64) mod 64, 128 + c mod 64]
     else [240 + c div 262144, 128 + (c div 4096) mod 64, 128 + (c div 64) mod 64, 128 + c mod 64])"

definition utf8 :: "ustr \<Rightarrow> bytes" where
  "utf8 s = concat (map utf8_char s)"

definition utf8_len :: "ustr \<Rightarrow> nat" where
  "utf8_len s = length (utf8 s)"

definition scalars :: "ustr \<Rightarrow> bool" where
  "scalars s \<longleftrightarrow> list_all (\<lambda>c. c < 1114112 \<and> \<not> is_surrogate c) s"

lemma utf8_simps [simp]:
  "utf8 [] = []" "utf8 (c # s) = utf8_char c @ utf8 s" "utf8 (s @ t) = utf8 s @ utf8 t"
  by (simp_all add: utf8_def)

lemma utf8_len_simps [simp]:
  "utf8_len [] = 0" "utf8_len (c # s) = length (utf8_char c) + utf8_len s"
  "utf8_len (s @ t) = utf8_len s + utf8_len t"
  by (simp_all add: utf8_len_def)

lemma utf8_char_length: "1 \<le> length (utf8_char c)" "length (utf8_char c) \<le> 4"
  by (simp_all add: utf8_char_def)

lemma scalars_simps [simp]:
  "scalars []" "scalars (c # s) \<longleftrightarrow> (c < 1114112 \<and> \<not> is_surrogate c) \<and> scalars s"
  "scalars (s @ t) \<longleftrightarrow> scalars s \<and> scalars t"
  by (auto simp: scalars_def)

lemma div_mod_64_eq: "a div 64 = b div 64 \<Longrightarrow> a mod 64 = b mod 64 \<Longrightarrow> a = (b::nat)"
  by (metis div_mod_decomp)

lemma utf8_char_inject:
  assumes "utf8_char c @ xs = utf8_char d @ ys"
    and "c < 1114112" and "d < 1114112"
  shows "c = d \<and> xs = ys"
proof -
  have eq4: "c = d" if "c div 4096 = d div 4096" "(c div 64) mod 64 = (d div 64) mod 64" "c mod 64 = d mod 64" for c d :: nat
  proof -
    have "c div 64 div 64 = d div 64 div 64"
      using that(1) by (simp add: div_mult2_eq [symmetric])
    with that(2) have "c div 64 = d div 64" by (metis div_mod_64_eq)
    with that(3) show ?thesis by (metis div_mod_64_eq)
  qed
  have eq5: "c = d" if "c div 262144 = d div 262144" "(c div 4096) mod 64 = (d div 4096) mod 64" "(c div 64) mod 64 = (d div 64) mod 64" "c mod 64 = d mod 64" for c d :: nat
  proof -
    have "c div 4096 div 64 = d div 4096 div 64"
      using that(1) by (simp add: div_mult2_eq [symmetric])
    with that(2) have "c div 4096 = d div 4096" by (metis div_mod_64_eq)
    with that(3,4) show ?thesis by (metis eq4)
  qed
  from assms show ?thesis
    unfolding utf8_char_def
    by (auto split: if_splits dest: div_mod_64_eq eq4 eq5)
qed

lemma utf8_inject: "utf8 s = utf8 t \<Longrightarrow> scalars s \<Longrightarrow> scalars t \<Longrightarrow> s = t"
proof (induction s arbitrary: t)
  case Nil
  then show ?case
    using utf8_char_length(1) by (cases t) (auto simp: utf8_char_def split: if_splits)
next
  case (Cons c s)
  then obtain d u where t: "t = d # u"
    by (cases t) (auto simp: utf8_char_def split: if_splits)
  then have "utf8_char c @ utf8 s = utf8_char d @ utf8 u"
    using Cons.prems by simp
  then have "c = d \<and> utf8 s = utf8 u"
    by (rule utf8_char_inject) (use Cons.prems t in auto)
  then show ?case
    using Cons t by simp
qed

section \<open>Decimal digits\<close>

definition is_digit :: "nat \<Rightarrow> bool" where
  "is_digit c \<longleftrightarrow> 48 \<le> c \<and> c \<le> 57"

fun digits10 :: "nat \<Rightarrow> ustr" where
  "digits10 n = (if n < 10 then [48 + n] else digits10 (n div 10) @ [48 + n mod 10])"

declare digits10.simps [simp del]

definition val10 :: "ustr \<Rightarrow> nat" where
  "val10 s = foldl (\<lambda>a c. 10 * a + (c - 48)) 0 s"

primrec pad10 :: "nat \<Rightarrow> nat \<Rightarrow> ustr" where
  "pad10 0 n = []"
| "pad10 (Suc k) n = pad10 k (n div 10) @ [48 + n mod 10]"

lemma val10_snoc [simp]: "val10 (s @ [c]) = 10 * val10 s + (c - 48)"
  by (simp add: val10_def)

lemma val10_Nil [simp]: "val10 [] = 0"
  by (simp add: val10_def)

lemma val10_digits10 [simp]: "val10 (digits10 n) = n"
proof (induction n rule: digits10.induct)
  case (1 n)
  show ?case
  proof (cases "n < 10")
    case True
    then show ?thesis using val10_snoc [of "[]" "48 + n"]
      by (subst digits10.simps) simp
  next
    case False
    then show ?thesis using 1
      by (subst digits10.simps) simp
  qed
qed

lemma digits10_inject [simp]: "digits10 m = digits10 n \<longleftrightarrow> m = n"
  by (metis val10_digits10)

lemma digits10_digits: "list_all is_digit (digits10 n)"
proof (induction n rule: digits10.induct)
  case (1 n)
  have "is_digit (48 + n mod 10)" "n < 10 \<Longrightarrow> is_digit (48 + n)"
    by (auto simp: is_digit_def)
  with 1 show ?case
    by (subst digits10.simps) auto
qed

lemma digits10_nonempty [simp]: "digits10 n \<noteq> []"
  by (subst digits10.simps) simp

lemma pad10_length [simp]: "length (pad10 k n) = k"
  by (induction k arbitrary: n) auto

lemma pad10_digits: "list_all is_digit (pad10 k n)"
  by (induction k arbitrary: n) (auto simp: is_digit_def)

lemma val10_pad10: "val10 (pad10 k n) = n mod 10 ^ k"
proof (induction k arbitrary: n)
  case (Suc k)
  have "n mod (10 * 10 ^ k) = 10 * (n div 10 mod 10 ^ k) + n mod 10"
    using mod_mult2_eq [of n 10 "10 ^ k"] by simp
  then show ?case
    by (simp add: Suc)
qed simp

lemma val10_pad10_small [simp]: "n < 10 ^ k \<Longrightarrow> val10 (pad10 k n) = n"
  by (simp add: val10_pad10)

lemma val10_append: "list_all is_digit t \<Longrightarrow> val10 (s @ t) = val10 s * 10 ^ length t + val10 t"
  by (induction t rule: rev_induct) (auto simp: algebra_simps simp flip: append_assoc)

lemma val10_bound: "list_all is_digit s \<Longrightarrow> val10 s < 10 ^ length s"
  by (induction s rule: rev_induct) (auto simp: is_digit_def)

lemma val10_snoc_digit:
  assumes "is_digit c"
  shows "val10 (s @ [c]) div 10 = val10 s" "val10 (s @ [c]) mod 10 = c - 48"
proof -
  have "c - 48 < 10" using assms unfolding is_digit_def by linarith
  then show "val10 (s @ [c]) div 10 = val10 s" "val10 (s @ [c]) mod 10 = c - 48"
    unfolding val10_snoc by (simp_all only: div_mult_self4 mod_mult_self4) simp_all
qed

lemma pad10_val10: "list_all is_digit s \<Longrightarrow> pad10 (length s) (val10 s) = s"
proof (induction s rule: rev_induct)
  case (snoc c s)
  then have "is_digit c" "48 \<le> c" by (simp_all add: is_digit_def)
  then show ?case
    using snoc by (simp del: val10_snoc add: val10_snoc_digit)
qed simp

section \<open>Splitting and joining\<close>

fun split_on :: "nat \<Rightarrow> ustr \<Rightarrow> ustr list" where
  "split_on sep [] = [[]]"
| "split_on sep (c # s) =
    (if c = sep then [] # split_on sep s
     else case split_on sep s of [] \<Rightarrow> [[c]] | p # ps \<Rightarrow> (c # p) # ps)"

fun join_parts :: "nat \<Rightarrow> ustr list \<Rightarrow> ustr" where
  "join_parts sep [] = []"
| "join_parts sep [p] = p"
| "join_parts sep (p # q # ps) = p @ [sep] @ join_parts sep (q # ps)"

lemma split_on_nonempty [simp]: "split_on sep s \<noteq> []"
  by (induction s) (auto split: list.splits)

lemma split_on_no_sep: "p \<in> set (split_on sep s) \<Longrightarrow> sep \<notin> set p"
proof (induction s arbitrary: p)
  case (Cons c s)
  then show ?case
    by (cases "split_on sep s") (auto split: if_splits)
qed simp

lemma split_on_append: "split_on sep (s @ sep # t) = split_on sep s @ split_on sep t"
proof (induction s)
  case (Cons c s)
  then show ?case
    using split_on_nonempty [of sep s] by (cases "split_on sep s") auto
qed simp

lemma split_on_atom: "sep \<notin> set p \<Longrightarrow> split_on sep p = [p]"
  by (induction p) auto

lemma split_join: "list_all (\<lambda>p. sep \<notin> set p) ps \<Longrightarrow> ps \<noteq> [] \<Longrightarrow> split_on sep (join_parts sep ps) = ps"
proof (induction sep ps rule: join_parts.induct)
  case (3 sep p q ps)
  then show ?case
    using split_on_append [of sep p] by (simp add: split_on_atom)
qed (simp_all add: split_on_atom)

lemma join_parts_chars: "x \<in> set (join_parts sep ps) \<Longrightarrow> x = sep \<or> (\<exists>p \<in> set ps. x \<in> set p)"
  by (induction sep ps rule: join_parts.induct) auto

lemma split_on_chars: "p \<in> set (split_on sep s) \<Longrightarrow> x \<in> set p \<Longrightarrow> x \<in> set s"
proof (induction s arbitrary: p)
  case (Cons c s)
  show ?case
  proof (cases "c = sep")
    case True
    then show ?thesis using Cons by auto
  next
    case False
    obtain q qs where q: "split_on sep s = q # qs" using split_on_nonempty [of sep s] by (cases "split_on sep s") auto
    then have "p = c # q \<or> p \<in> set qs" using Cons.prems(1) False by auto
    then show ?thesis using Cons.IH [of q] Cons.IH [of p] Cons.prems(2) q by auto
  qed
qed simp

section \<open>White space\<close>

text \<open>The characters of \<open>str.strip\<close>.\<close>

definition py_space :: "nat \<Rightarrow> bool" where
  "py_space c \<longleftrightarrow> (9 \<le> c \<and> c \<le> 13) \<or> (28 \<le> c \<and> c \<le> 32) \<or> c = 133 \<or> c = 160 \<or> c = 5760 \<or>
    (8192 \<le> c \<and> c \<le> 8202) \<or> c = 8232 \<or> c = 8233 \<or> c = 8239 \<or> c = 8287 \<or> c = 12288"

definition py_strip :: "ustr \<Rightarrow> ustr" where
  "py_strip s = rev (dropWhile py_space (rev (dropWhile py_space s)))"

end
