(* ===== verification/Timestamps.thy ===== *)
theory Timestamps
  imports Prelude
begin

text \<open>
  RFC 3339 timestamps as \<open>protocol/reference/validate.py\<close> parses and orders
  them (\<open>_parse_rfc3339\<close>, \<open>_timestamp_order\<close>) and as
  \<open>protocol/reference/reconciliation.py\<close> shifts them (\<open>_add_seconds\<close>).

  A parsed timestamp is the pair the code returns: whole seconds since the
  epoch and the text of the fraction, of any length.  The calendar is
  \<open>datetime.toordinal\<close> and its inverse, with the proleptic Gregorian rules of
  the standard library.  The specification is the rational instant that the
  pair stands for: the order is the order of instants, and shifting by whole
  seconds adds exactly that many seconds to it.
\<close>

section \<open>The calendar\<close>

definition is_leap :: "int \<Rightarrow> bool" where
  "is_leap y \<longleftrightarrow> y mod 4 = 0 \<and> (y mod 100 \<noteq> 0 \<or> y mod 400 = 0)"

definition days_before_year :: "int \<Rightarrow> int" where
  "days_before_year y = (y - 1) * 365 + (y - 1) div 4 - (y - 1) div 100 + (y - 1) div 400"

definition month_lengths :: "bool \<Rightarrow> int list" where
  "month_lengths leap = [31, if leap then 29 else 28, 31, 30, 31, 30, 31, 31, 30, 31, 30, 31]"

definition days_in_month :: "bool \<Rightarrow> int \<Rightarrow> int" where
  "days_in_month leap m = month_lengths leap ! nat (m - 1)"

definition days_before_month :: "bool \<Rightarrow> int \<Rightarrow> int" where
  "days_before_month leap m = sum_list (take (nat (m - 1)) (month_lengths leap))"

definition valid_date :: "int \<Rightarrow> int \<Rightarrow> int \<Rightarrow> bool" where
  "valid_date y m d \<longleftrightarrow>
    1 \<le> y \<and> y \<le> 9999 \<and> 1 \<le> m \<and> m \<le> 12 \<and> 1 \<le> d \<and> d \<le> days_in_month (is_leap y) m"

definition valid_time :: "int \<Rightarrow> int \<Rightarrow> int \<Rightarrow> bool" where
  "valid_time hh mi ss \<longleftrightarrow> 0 \<le> hh \<and> hh \<le> 23 \<and> 0 \<le> mi \<and> mi \<le> 59 \<and> 0 \<le> ss \<and> ss \<le> 59"

definition toordinal :: "int \<Rightarrow> int \<Rightarrow> int \<Rightarrow> int" where
  "toordinal y m d = days_before_year y + days_before_month (is_leap y) m + d"

text \<open>The month and day of the \<open>k\<close>-th day (from 0) of a year.\<close>

primrec month_of :: "int \<Rightarrow> int list \<Rightarrow> int \<Rightarrow> int \<times> int" where
  "month_of m [] k = (m, k + 1)"
| "month_of m (l # ls) k = (if k < l then (m, k + 1) else month_of (m + 1) ls (k - l))"

text \<open>\<open>datetime.fromordinal\<close>: cycles of 400, 100, 4 and 1 years.\<close>

definition fromordinal :: "int \<Rightarrow> int \<times> int \<times> int" where
  "fromordinal n =
    (let n0 = n - 1;
         n400 = n0 div 146097; r400 = n0 mod 146097;
         n100 = r400 div 36524; r100 = r400 mod 36524;
         n4 = r100 div 1461; r4 = r100 mod 1461;
         n1 = r4 div 365; r1 = r4 mod 365;
         y = 400 * n400 + 100 * n100 + 4 * n4 + n1 + 1
     in if n1 = 4 \<or> n100 = 4 then (y - 1, 12, 31)
        else (let (m, d) = month_of 1 (month_lengths (is_leap y)) r1 in (y, m, d)))"

definition UNIX_EPOCH_ORDINAL :: int where
  "UNIX_EPOCH_ORDINAL = toordinal 1970 1 1"

section \<open>Parsing\<close>

type_synonym timestamp = "int \<times> ustr"

text \<open>
  The shape \<open>[0-9]{4}-[0-9]{2}-[0-9]{2}T[0-9]{2}:[0-9]{2}:[0-9]{2}\<close> of the first
  group of \<open>_RFC3339\<close>, with 0 for a digit.
\<close>

definition base_template :: ustr where
  "base_template = [0,0,0,0,45,0,0,45,0,0,84,0,0,58,0,0,58,0,0]"

definition matches :: "nat \<Rightarrow> nat \<Rightarrow> bool" where
  "matches k c \<longleftrightarrow> (if k = 0 then is_digit c else c = k)"

definition num_at :: "ustr \<Rightarrow> nat \<Rightarrow> nat \<Rightarrow> int" where
  "num_at v i k = int (val10 (take k (drop i v)))"

text \<open>The third and fourth group: the digits of the fraction and the zone.\<close>

definition split_fraction :: "ustr \<Rightarrow> (ustr \<times> ustr) option" where
  "split_fraction r =
    (case r of
       [] \<Rightarrow> Some ([], [])
     | c # cs \<Rightarrow>
         if c = 46 then
           (let f = takeWhile is_digit cs in if f = [] then None else Some (f, dropWhile is_digit cs))
         else Some ([], r))"

definition zone_template :: ustr where
  "zone_template = [0,0,58,0,0]"

definition zone_shape :: "ustr \<Rightarrow> bool" where
  "zone_shape z \<longleftrightarrow>
    z = [90] \<or> (z \<noteq> [] \<and> (hd z = 43 \<or> hd z = 45) \<and> list_all2 matches zone_template (tl z))"

definition offset_of :: "ustr \<Rightarrow> code + int" where
  "offset_of z =
    (if z = [90] then Inr 0
     else (let hh = num_at z 1 2; mm = num_at z 4 2 in
       if hh > 23 \<or> mm > 59 then Inl ''timestamp_invalid''
       else Inr (if hd z = 45 then - ((hh * 60 + mm) * 60) else (hh * 60 + mm) * 60)))"

definition parse_rfc3339 :: "ustr \<Rightarrow> code + timestamp" where
  "parse_rfc3339 v =
    (if \<not> list_all2 matches base_template (take 19 v) then Inl ''timestamp_invalid''
     else case split_fraction (drop 19 v) of
       None \<Rightarrow> Inl ''timestamp_invalid''
     | Some (f, z) \<Rightarrow>
         if \<not> zone_shape z then Inl ''timestamp_invalid''
         else (let y = num_at v 0 4; m = num_at v 5 2; d = num_at v 8 2;
                   hh = num_at v 11 2; mi = num_at v 14 2; ss = num_at v 17 2 in
           if \<not> (valid_date y m d \<and> valid_time hh mi ss) then Inl ''timestamp_invalid''
           else bindE (offset_of z) (\<lambda>off.
             Inr ((toordinal y m d - UNIX_EPOCH_ORDINAL) * 86400 + hh * 3600 + mi * 60 + ss - off, f))))"

section \<open>Order\<close>

fun digits_order :: "ustr \<Rightarrow> ustr \<Rightarrow> int" where
  "digits_order [] [] = 0"
| "digits_order (a # as) [] = (if a \<noteq> 48 then (if a < 48 then -1 else 1) else digits_order as [])"
| "digits_order [] (b # bs) = (if 48 \<noteq> b then (if 48 < b then -1 else 1) else digits_order [] bs)"
| "digits_order (a # as) (b # bs) = (if a \<noteq> b then (if a < b then -1 else 1) else digits_order as bs)"

definition timestamp_order :: "timestamp \<Rightarrow> timestamp \<Rightarrow> int" where
  "timestamp_order l r =
    (if fst l \<noteq> fst r then (if fst l < fst r then -1 else 1) else digits_order (snd l) (snd r))"

definition same_instant :: "ustr \<Rightarrow> ustr \<Rightarrow> code + bool" where
  "same_instant l r =
    bindE (parse_rfc3339 l) (\<lambda>a. bindE (parse_rfc3339 r) (\<lambda>b. Inr (timestamp_order a b = 0)))"

section \<open>Shifting by whole seconds\<close>

text \<open>
  \<open>datetime.fromtimestamp(seconds, tz=UTC)\<close> with the range check of the
  standard library, rendered by \<open>strftime("%Y-%m-%dT%H:%M:%S")\<close> with the
  zero-padded year of its documentation.
\<close>

definition render_datetime :: "int \<Rightarrow> int \<Rightarrow> int \<Rightarrow> int \<Rightarrow> int \<Rightarrow> int \<Rightarrow> ustr" where
  "render_datetime y m d hh mi ss =
    pad10 4 (nat y) @ [45] @ pad10 2 (nat m) @ [45] @ pad10 2 (nat d) @ [84] @
    pad10 2 (nat hh) @ [58] @ pad10 2 (nat mi) @ [58] @ pad10 2 (nat ss)"

definition fromtimestamp_text :: "int \<Rightarrow> code + ustr" where
  "fromtimestamp_text t =
    (let n = t div 86400 + UNIX_EPOCH_ORDINAL; s = t mod 86400 in
     if n < 1 \<or> n > 3652059 then Inl ''timestamp_range_invalid''
     else (let (y, m, d) = fromordinal n in
       Inr (render_datetime y m d (s div 3600) (s mod 3600 div 60) (s mod 60))))"

definition add_seconds :: "ustr \<Rightarrow> int \<Rightarrow> code + ustr" where
  "add_seconds v secs =
    bindE (parse_rfc3339 v) (\<lambda>(e, f).
    bindE (fromtimestamp_text (e + secs)) (\<lambda>r.
      Inr ((if f = [] then r else r @ [46] @ f) @ [90])))"

section \<open>The instant a timestamp stands for\<close>

primrec frac_value :: "ustr \<Rightarrow> rat" where
  "frac_value [] = 0"
| "frac_value (c # cs) = (of_nat c - 48 + frac_value cs) / 10"

definition instant :: "timestamp \<Rightarrow> rat" where
  "instant t = of_int (fst t) + frac_value (snd t)"

definition wf_timestamp :: "timestamp \<Rightarrow> bool" where
  "wf_timestamp t \<longleftrightarrow> list_all is_digit (snd t)"

section \<open>Calendar facts\<close>

lemma days_before_year_cycles:
  assumes "0 \<le> b" "b \<le> 3" "0 \<le> c" "c \<le> 24" "0 \<le> d" "d \<le> 3"
  shows "days_before_year (400 * a + 100 * b + 4 * c + d + 1) = 146097 * a + 36524 * b + 1461 * c + 365 * d"
proof -
  have "(400 * a + 100 * b + 4 * c + d) div 4 = 100 * a + 25 * b + c"
    by (rule int_div_pos_eq [where r = d]) (use assms in auto)
  moreover have "(400 * a + 100 * b + 4 * c + d) div 100 = 4 * a + b"
    by (rule int_div_pos_eq [where r = "4 * c + d"]) (use assms in auto)
  moreover have "(400 * a + 100 * b + 4 * c + d) div 400 = a"
    by (rule int_div_pos_eq [where r = "100 * b + 4 * c + d"]) (use assms in auto)
  ultimately show ?thesis
    by (simp add: days_before_year_def)
qed

lemma month_of_position:
  "0 \<le> k \<Longrightarrow> k < sum_list ls \<Longrightarrow> month_of m ls k = (m', d) \<Longrightarrow>
   \<exists>i < length ls. m' = m + int i \<and> k + 1 = sum_list (take i ls) + d \<and> 1 \<le> d \<and> d \<le> ls ! i"
proof (induction ls arbitrary: m k)
  case (Cons l ls)
  show ?case
  proof (cases "k < l")
    case True
    then show ?thesis using Cons.prems by (intro exI [of _ 0]) auto
  next
    case False
    then obtain i where "i < length ls" "m' = m + 1 + int i"
        "k - l + 1 = sum_list (take i ls) + d" "1 \<le> d" "d \<le> ls ! i"
      using Cons.IH [of "k - l" "m + 1"] Cons.prems by auto
    then show ?thesis by (intro exI [of _ "Suc i"]) auto
  qed
qed simp

lemma month_of_correct:
  assumes "0 \<le> k" "k < (if leap then 366 else 365)" "month_of 1 (month_lengths leap) k = (m, d)"
  shows "1 \<le> m \<and> m \<le> 12 \<and> 1 \<le> d \<and> d \<le> days_in_month leap m \<and> days_before_month leap m + d = k + 1"
proof -
  have "sum_list (month_lengths leap) = (if leap then 366 else 365)" "length (month_lengths leap) = 12"
    by (simp_all add: month_lengths_def)
  then obtain i where "i < 12" "m = 1 + int i" "k + 1 = sum_list (take i (month_lengths leap)) + d"
      "1 \<le> d" "d \<le> month_lengths leap ! i"
    using month_of_position [OF assms(1) _ assms(3)] assms(2) by auto
  then show ?thesis
    by (simp add: days_in_month_def days_before_month_def)
qed

lemma fromordinal_correct:
  assumes "1 \<le> n" "n \<le> 3652059" "fromordinal n = (y, m, d)"
  shows "valid_date y m d \<and> toordinal y m d = n"
proof -
  define a where "a = (n - 1) div 146097"
  define r where "r = (n - 1) mod 146097"
  define b where "b = r div 36524"
  define rb where "rb = r mod 36524"
  define c where "c = rb div 1461"
  define rc where "rc = rb mod 1461"
  define e where "e = rc div 365"
  define k where "k = rc mod 365"
  note defs = a_def r_def b_def rb_def c_def rc_def e_def k_def
  have eqs: "n = 146097 * a + r + 1" "r = 36524 * b + rb" "rb = 1461 * c + rc" "rc = 365 * e + k"
    by (simp_all add: defs)
  have bnd: "0 \<le> a" "0 \<le> r" "r < 146097" "0 \<le> b" "0 \<le> rb" "rb < 36524" "0 \<le> c" "0 \<le> rc" "rc < 1461"
      "0 \<le> e" "0 \<le> k" "k < 365"
    using assms(1) by (simp_all add: defs pos_imp_zdiv_nonneg_iff)
  have rng: "b \<le> 4" "c \<le> 24" "e \<le> 4"
    using eqs bnd by linarith+
  have b4: "b = 4 \<Longrightarrow> c = 0 \<and> e = 0 \<and> k = 0"
    using eqs bnd by linarith
  have e4: "e = 4 \<Longrightarrow> k = 0 \<and> c < 24"
    using eqs bnd by linarith
  let ?y = "400 * a + 100 * b + 4 * c + e + 1"
  have f: "fromordinal n = (if e = 4 \<or> b = 4 then (?y - 1, 12, 31)
      else (let (m, d) = month_of 1 (month_lengths (is_leap ?y)) k in (?y, m, d)))"
    by (simp add: fromordinal_def defs Let_def)
  have a24: "a \<le> 24" using eqs bnd assms(2) by linarith
  show ?thesis
  proof (cases "e = 4 \<or> b = 4")
    case True
    then have y: "y = ?y - 1" "m = 12" "d = 31"
      using assms(3) f by simp_all
    have "is_leap y \<and> days_before_year y = n - 366 \<and> 1 \<le> y \<and> y \<le> 9999"
    proof (cases "b = 4")
      case True
      then have yy: "y = 400 * (a + 1)" "y = 400 * a + 100 * 3 + 4 * 24 + 3 + 1"
        using b4 y by simp_all
      then have "is_leap y" by (simp add: is_leap_def)
      moreover have "a \<le> 23" using eqs bnd assms(2) True by linarith
      ultimately show ?thesis
        using days_before_year_cycles [of 3 24 3 a] eqs b4 True bnd yy(2) by (simp add: add.commute)
    next
      case False
      with True have yy: "y = 400 * a + 100 * b + 4 * c + 3 + 1" "e = 4"
        using y by simp_all
      then have "y = 4 * (100 * a + 25 * b + c + 1)" "y = 100 * (4 * a + b) + (4 * c + 4)" "4 * c + 4 < 100"
        using e4 by simp_all
      then have "y mod 4 = 0" and "y mod 100 = 4 * c + 4"
        using bnd(7) by (metis mod_mult_self1_is_0, metis mod_mult_self4 mod_pos_pos_trivial add_nonneg_nonneg zero_le_mult_iff zero_le_numeral)
      then have "is_leap y" using bnd by (simp add: is_leap_def)
      moreover have "y \<le> 9999" using eqs bnd rng assms(2) yy a24 False e4 by linarith
      ultimately show ?thesis
        using days_before_year_cycles [of b c 3 a] eqs e4 rng bnd False yy by simp
    qed
    then show ?thesis
      unfolding toordinal_def valid_date_def y(2,3)
      by (simp add: days_before_month_def days_in_month_def month_lengths_def)
  next
    case False
    obtain m' d' where md: "month_of 1 (month_lengths (is_leap ?y)) k = (m', d')"
      by (metis surj_pair)
    then have y: "y = ?y" "m = m'" "d = d'"
      using assms(3) f False by simp_all
    have "k < (if is_leap ?y then 366 else 365)" using bnd by simp
    note mo = month_of_correct [OF bnd(11) this md]
    have "days_before_year ?y = n - k - 1"
      using days_before_year_cycles [of b c e a] eqs rng bnd False by simp
    moreover have "?y \<le> 9999"
    proof (cases "a = 24 \<and> b = 3 \<and> c = 24")
      case True
      then have "365 * e \<le> 1094" using eqs assms(2) bnd by linarith
      then show ?thesis using True by linarith
    next
      case nf: False
      then consider "a \<le> 23" | "b \<le> 2" | "c \<le> 23" using a24 rng False by linarith
      then show ?thesis
        using rng a24 False bnd by cases linarith+
    qed
    ultimately show ?thesis
      using mo bnd unfolding valid_date_def toordinal_def y by simp
  qed
qed

section \<open>Order of instants\<close>

lemma frac_value_range: "list_all is_digit f \<Longrightarrow> 0 \<le> frac_value f \<and> frac_value f < 1"
proof (induction f)
  case (Cons c cs)
  then have "48 \<le> c" "c \<le> 57" by (simp_all add: is_digit_def)
  then have "(48::rat) \<le> of_nat c" "of_nat c \<le> (57::rat)"
    by (metis of_nat_le_iff of_nat_numeral)+
  with Cons show ?case by simp
qed simp

lemma frac_value_Cons_zero:
  assumes "list_all is_digit (c # cs)"
  shows "frac_value (c # cs) = 0 \<longleftrightarrow> c = 48 \<and> frac_value cs = 0" "0 \<le> frac_value (c # cs)" "48 \<le> c"
proof -
  show c: "48 \<le> c" using assms by (simp add: is_digit_def)
  then have c': "(48::rat) \<le> of_nat c" by (metis of_nat_le_iff of_nat_numeral)
  have r: "0 \<le> frac_value cs" using assms frac_value_range by simp
  have "frac_value (c # cs) = 0 \<longleftrightarrow> of_nat c = (48::rat) \<and> frac_value cs = 0"
    using r c' by auto
  moreover have "of_nat c = (48::rat) \<longleftrightarrow> c = 48"
    by (metis of_nat_eq_iff of_nat_numeral)
  ultimately show "frac_value (c # cs) = 0 \<longleftrightarrow> c = 48 \<and> frac_value cs = 0" by simp
  show "0 \<le> frac_value (c # cs)" using r c' by simp
qed

lemma digits_order_Nil:
  "list_all is_digit f \<Longrightarrow> digits_order f [] = (if frac_value f = 0 then 0 else 1)"
  "list_all is_digit f \<Longrightarrow> digits_order [] f = (if frac_value f = 0 then 0 else -1)"
proof (induction f)
  case (Cons c cs)
  { case 1
    show ?case using Cons.IH(1) frac_value_Cons_zero [OF 1] 1 by (simp del: frac_value.simps(2)) }
  { case 2
    show ?case using Cons.IH(2) frac_value_Cons_zero [OF 2] 2 by (simp del: frac_value.simps(2)) }
qed simp_all

lemma digits_order_frac:
  "list_all is_digit f \<Longrightarrow> list_all is_digit g \<Longrightarrow>
   digits_order f g = (if frac_value f < frac_value g then -1 else if frac_value f > frac_value g then 1 else 0)"
proof (induction f g rule: digits_order.induct)
  case (4 a as b bs)
  have fa: "0 \<le> frac_value as" "frac_value as < 1" "0 \<le> frac_value bs" "frac_value bs < 1"
    using 4 frac_value_range by simp_all
  show ?case
  proof (cases "a = b")
    case True
    with 4 show ?thesis by (simp add: divide_strict_right_mono)
  next
    case False
    then consider "a + 1 \<le> b" | "b + 1 \<le> a" by linarith
    then show ?thesis
    proof cases
      case 1
      then have "of_nat a + 1 \<le> (of_nat b :: rat)" by (metis of_nat_1 of_nat_add of_nat_le_iff)
      then have "frac_value (a # as) < frac_value (b # bs)" using fa by simp
      then show ?thesis using 1 by simp
    next
      case 2
      then have "of_nat b + 1 \<le> (of_nat a :: rat)" by (metis of_nat_1 of_nat_add of_nat_le_iff)
      then have "frac_value (b # bs) < frac_value (a # as)" using fa by simp
      then show ?thesis using 2 by simp
    qed
  qed
next
  case (2 a as)
  then show ?case
    using digits_order_Nil(1) [of "a # as"] frac_value_Cons_zero(2) [of a as]
    by (simp del: digits_order.simps frac_value.simps(2))
next
  case (3 b bs)
  then show ?case
    using digits_order_Nil(2) [of "b # bs"] frac_value_Cons_zero(2) [of b bs]
    by (simp del: digits_order.simps frac_value.simps(2))
qed simp

lemma timestamp_order_instant:
  assumes "wf_timestamp l" "wf_timestamp r"
  shows "timestamp_order l r = (if instant l < instant r then -1 else if instant r < instant l then 1 else 0)"
proof -
  have f: "0 \<le> frac_value (snd l)" "frac_value (snd l) < 1" "0 \<le> frac_value (snd r)" "frac_value (snd r) < 1"
    using assms frac_value_range by (simp_all add: wf_timestamp_def)
  have lt: "instant a < instant b" if "fst a < fst b" "0 \<le> frac_value (snd b)" "frac_value (snd a) < 1" for a b
  proof -
    have "of_int (fst a) + 1 \<le> (of_int (fst b) :: rat)" using that(1) by linarith
    then show ?thesis using that by (simp add: instant_def)
  qed
  consider "fst l < fst r" | "fst r < fst l" | "fst l = fst r" by linarith
  then show ?thesis
  proof cases
    case 1 then show ?thesis using lt [of l r] f by (simp add: timestamp_order_def)
  next
    case 2 then show ?thesis using lt [of r l] f by (simp add: timestamp_order_def)
  next
    case 3 then show ?thesis using assms
      by (simp add: timestamp_order_def instant_def digits_order_frac wf_timestamp_def)
  qed
qed

lemma split_fraction_digits: "split_fraction r = Some (f, z) \<Longrightarrow> list_all is_digit f"
  by (auto simp: split_fraction_def Let_def list_all_iff dest: set_takeWhileD split: list.splits if_splits)

lemma parse_rfc3339_wf: "parse_rfc3339 v = Inr t \<Longrightarrow> wf_timestamp t"
  unfolding parse_rfc3339_def Let_def
  by (auto simp: wf_timestamp_def bindE_Inr_iff split: if_splits option.splits)
    (metis split_fraction_digits)

section \<open>Rendering and parsing\<close>

lemma pad10_numerals:
  "pad10 2 n = [48 + n div 10 mod 10, 48 + n mod 10]"
  "pad10 4 n = [48 + n div 1000 mod 10, 48 + n div 100 mod 10, 48 + n div 10 mod 10, 48 + n mod 10]"
proof -
  have "(2::nat) = Suc (Suc 0)" "(4::nat) = Suc (Suc (Suc (Suc 0)))" by simp_all
  then show "pad10 2 n = [48 + n div 10 mod 10, 48 + n mod 10]"
    "pad10 4 n = [48 + n div 1000 mod 10, 48 + n div 100 mod 10, 48 + n div 10 mod 10, 48 + n mod 10]"
    by (simp_all only: pad10.simps) (simp_all add: div_mult2_eq [symmetric])
qed

lemma split_fraction_render:
  "list_all is_digit f \<Longrightarrow> split_fraction ((if f = [] then [] else [46] @ f) @ [90]) = Some (f, [90])"
proof -
  have "takeWhile is_digit (f @ [90]) = f" "dropWhile is_digit (f @ [90]) = [90]" if "list_all is_digit f"
    using that by (simp_all add: list_all_iff is_digit_def)
  moreover assume "list_all is_digit f"
  ultimately show ?thesis by (simp add: split_fraction_def Let_def)
qed

lemma is_digit_pad: "is_digit (48 + n mod 10)"
proof -
  have "n mod 10 < 10" by simp
  then show ?thesis unfolding is_digit_def by linarith
qed

lemma render_datetime_base:
  "list_all2 matches base_template (render_datetime y m d hh mi ss)" "length (render_datetime y m d hh mi ss) = 19"
  by (simp_all add: render_datetime_def pad10_numerals base_template_def matches_def is_digit_pad)

lemma render_datetime_num:
  assumes "valid_date y m d" "valid_time hh mi ss" and v_def: "v = render_datetime y m d hh mi ss @ w"
  shows "num_at v 0 4 = y" "num_at v 5 2 = m" "num_at v 8 2 = d"
    "num_at v 11 2 = hh" "num_at v 14 2 = mi" "num_at v 17 2 = ss"
proof -
  have md: "d \<le> 31"
  proof -
    have "nat (m - 1) < 12" using assms(1) by (auto simp: valid_date_def)
    then have "days_in_month (is_leap y) m \<in> set (month_lengths (is_leap y))"
      unfolding days_in_month_def by (intro nth_mem) (simp add: month_lengths_def)
    then have "days_in_month (is_leap y) m \<le> 31"
      by (auto simp: month_lengths_def split: if_splits)
    then show ?thesis using assms(1) by (auto simp: valid_date_def)
  qed
  have v: "v = pad10 4 (nat y) @ 45 # pad10 2 (nat m) @ 45 # pad10 2 (nat d) @ 84 #
     pad10 2 (nat hh) @ 58 # pad10 2 (nat mi) @ 58 # pad10 2 (nat ss) @ w"
    by (simp add: v_def render_datetime_def)
  have b: "nat y < 10 ^ 4" "nat m < 10 ^ 2" "nat d < 10 ^ 2" "nat hh < 10 ^ 2" "nat mi < 10 ^ 2" "nat ss < 10 ^ 2"
    "0 \<le> y" "0 \<le> m" "0 \<le> d" "0 \<le> hh" "0 \<le> mi" "0 \<le> ss"
    using assms(1,2) md by (auto simp: valid_date_def valid_time_def nat_less_iff)
  have "take 4 (drop 0 v) = pad10 4 (nat y)" "take 2 (drop 5 v) = pad10 2 (nat m)" "take 2 (drop 8 v) = pad10 2 (nat d)"
    "take 2 (drop 11 v) = pad10 2 (nat hh)" "take 2 (drop 14 v) = pad10 2 (nat mi)" "take 2 (drop 17 v) = pad10 2 (nat ss)"
    unfolding v by (simp_all add: drop_Cons')
  then show "num_at v 0 4 = y" "num_at v 5 2 = m" "num_at v 8 2 = d"
    "num_at v 11 2 = hh" "num_at v 14 2 = mi" "num_at v 17 2 = ss"
    using b by (simp_all only: num_at_def val10_pad10_small int_nat_eq if_True)
qed

lemma parse_rendered:
  assumes "fromtimestamp_text t = Inr r" "list_all is_digit f"
  shows "parse_rfc3339 (r @ (if f = [] then [] else [46] @ f) @ [90]) = Inr (t, f)"
proof -
  define n where "n = t div 86400 + UNIX_EPOCH_ORDINAL"
  define s where "s = t mod 86400"
  obtain y m d where f: "fromordinal n = (y, m, d)" by (cases "fromordinal n") auto
  have n: "1 \<le> n" "n \<le> 3652059"
    and r: "r = render_datetime y m d (s div 3600) (s mod 3600 div 60) (s mod 60)"
    using assms(1) f by (auto simp: fromtimestamp_text_def n_def s_def Let_def split: if_splits)
  note vd = fromordinal_correct [OF n f]
  have s: "0 \<le> s" "s < 86400" by (simp_all add: s_def)
  have hh: "0 \<le> s div 3600" "s div 3600 \<le> 23" using s zdiv_mono1 [of s 86399 3600] by (simp_all add: pos_imp_zdiv_nonneg_iff)
  have vt: "valid_time (s div 3600) (s mod 3600 div 60) (s mod 60)"
  proof -
    have "0 \<le> s mod 3600" "s mod 3600 < 3600" "0 \<le> s mod 60" "s mod 60 < 60" by simp_all
    moreover from this have "0 \<le> s mod 3600 div 60" "s mod 3600 div 60 < 60"
      by (simp_all add: pos_imp_zdiv_nonneg_iff div_less_iff_less_mult)
    ultimately show ?thesis using hh by (simp add: valid_time_def)
  qed
  have sum: "s div 3600 * 3600 + s mod 3600 div 60 * 60 + s mod 60 = s"
  proof -
    have "s mod 3600 mod 60 = s mod 60" by (simp add: mod_mod_cancel)
    then show ?thesis using div_mult_mod_eq [of s 3600] div_mult_mod_eq [of "s mod 3600" 60] by linarith
  qed
  have zulu: "zone_shape [90]" "offset_of [90] = Inr 0"
    by (simp_all add: zone_shape_def offset_of_def)
  let ?v = "r @ (if f = [] then [] else [46] @ f) @ [90]"
  have len: "length r = 19" using r render_datetime_base(2) by simp
  have "take 19 ?v = r" "drop 19 ?v = (if f = [] then [] else [46] @ f) @ [90]"
    using len by simp_all
  moreover have "list_all2 matches base_template r" using r render_datetime_base(1) by simp
  moreover have "num_at ?v 0 4 = y" "num_at ?v 5 2 = m" "num_at ?v 8 2 = d"
    "num_at ?v 11 2 = s div 3600" "num_at ?v 14 2 = s mod 3600 div 60" "num_at ?v 17 2 = s mod 60"
    unfolding r by (rule render_datetime_num [OF conjunct1 [OF vd] vt refl])+
  ultimately have "parse_rfc3339 ?v = Inr ((toordinal y m d - UNIX_EPOCH_ORDINAL) * 86400 + s div 3600 * 3600 + s mod 3600 div 60 * 60 + s mod 60 - 0, f)"
    using vd vt assms(2)
    by (simp only: parse_rfc3339_def Let_def split_fraction_render option.case prod.case zulu
        if_False conj_assoc bindE_simps simp_thms)
  moreover have "(toordinal y m d - UNIX_EPOCH_ORDINAL) * 86400 + s = t"
    using vd by (simp add: n_def s_def)
  ultimately show ?thesis using sum by (simp add: algebra_simps)
qed

lemma add_seconds_parse:
  assumes "add_seconds v k = Inr w"
  obtains e f where "parse_rfc3339 v = Inr (e, f)" "parse_rfc3339 w = Inr (e + k, f)"
proof -
  from assms obtain e f r where p: "parse_rfc3339 v = Inr (e, f)" "fromtimestamp_text (e + k) = Inr r"
    and w: "w = r @ (if f = [] then [] else [46] @ f) @ [90]"
    by (auto simp: add_seconds_def bindE_Inr_iff split: prod.splits if_splits)
  then show thesis
    using that parse_rendered [OF p(2), of f] parse_rfc3339_wf [OF p(1)] by (simp add: wf_timestamp_def)
qed


lemma parsed_order:
  assumes "parse_rfc3339 a = Inr l" "parse_rfc3339 b = Inr r"
  shows "timestamp_order l r < 0 \<longleftrightarrow> instant l < instant r"
    and "timestamp_order l r \<le> 0 \<longleftrightarrow> instant l \<le> instant r"
    and "timestamp_order l r > 0 \<longleftrightarrow> instant r < instant l"
    and "timestamp_order l r = 0 \<longleftrightarrow> instant l = instant r"
  using timestamp_order_instant [OF parse_rfc3339_wf parse_rfc3339_wf, OF assms] by auto

lemma add_seconds_succeeds_iff:
  "isOk (add_seconds v k) \<longleftrightarrow>
   (\<exists>e f. parse_rfc3339 v = Inr (e, f) \<and> 1 \<le> (e + k) div 86400 + UNIX_EPOCH_ORDINAL \<and>
     (e + k) div 86400 + UNIX_EPOCH_ORDINAL \<le> 3652059)"
proof -
  have ok: "isOk (fromtimestamp_text t) \<longleftrightarrow>
      1 \<le> t div 86400 + UNIX_EPOCH_ORDINAL \<and> t div 86400 + UNIX_EPOCH_ORDINAL \<le> 3652059" for t
    by (auto simp: fromtimestamp_text_def Let_def isOk_def split: sum.splits prod.splits)
  have "isOk (add_seconds v k) \<longleftrightarrow> (\<exists>e f. parse_rfc3339 v = Inr (e, f) \<and> isOk (fromtimestamp_text (e + k)))"
    by (cases "parse_rfc3339 v") (auto simp: add_seconds_def isOk_iff bindE_Inr_iff)
  then show ?thesis
    by (simp only: ok)
qed

section \<open>Properties\<close>

text \<open>
  C14: Comparing two timestamps that the code parses compares the rational
  instants they stand for, whatever their offsets, fraction lengths and
  trailing zeros: \<open>_timestamp_order\<close> gives the sign of the difference.
\<close>

theorem timestamp_order_is_instant_order:
  assumes "parse_rfc3339 a = Inr l" "parse_rfc3339 b = Inr r"
  shows "timestamp_order l r = (if instant l < instant r then -1 else if instant r < instant l then 1 else 0)"
  using timestamp_order_instant [OF parse_rfc3339_wf parse_rfc3339_wf, OF assms] .

definition ts_offset_example :: ustr where
  "ts_offset_example = lit ''2026-07-18T12:30:00.50+02:00''"

definition ts_zulu_example :: ustr where
  "ts_zulu_example = lit ''2026-07-18T10:30:00.5Z''"

lemma ts_examples_parse:
  "parse_rfc3339 ts_offset_example = Inr (1784370600, [53, 48])"
  "parse_rfc3339 ts_zulu_example = Inr (1784370600, [53])"
  by code_simp+

theorem timestamp_order_is_instant_order_witness:
  "parse_rfc3339 ts_offset_example = Inr (1784370600, [53, 48]) \<and>
   parse_rfc3339 ts_zulu_example = Inr (1784370600, [53]) \<and>
   timestamp_order (1784370600, [53, 48]) (1784370600, [53]) = 0"
  using timestamp_order_is_instant_order [OF ts_examples_parse] ts_examples_parse
  by (simp add: instant_def)

text \<open>
  C15: Shifting a timestamp by whole seconds is exact: the text that
  \<open>_add_seconds\<close> renders parses back to an instant exactly that many seconds
  later, with the fraction of the original kept digit for digit.  A shift
  succeeds exactly when the shifted day lies in the years 1 to 9999.
\<close>

theorem add_seconds_exact:
  "case add_seconds v k of
     Inr w \<Rightarrow> (\<exists>e f. parse_rfc3339 v = Inr (e, f) \<and> parse_rfc3339 w = Inr (e + k, f) \<and>
                 instant (e + k, f) = instant (e, f) + of_int k)
   | Inl _ \<Rightarrow> \<not> (\<exists>e f. parse_rfc3339 v = Inr (e, f) \<and> 1 \<le> (e + k) div 86400 + UNIX_EPOCH_ORDINAL \<and>
                 (e + k) div 86400 + UNIX_EPOCH_ORDINAL \<le> 3652059)"
proof (cases "add_seconds v k")
  case (Inl c)
  then have "\<not> isOk (add_seconds v k)" by simp
  then show ?thesis
    unfolding add_seconds_succeeds_iff by (simp only: Inl sum.case not_False_eq_True)
next
  case (Inr w)
  then obtain e f where "parse_rfc3339 v = Inr (e, f)" "parse_rfc3339 w = Inr (e + k, f)"
    by (rule add_seconds_parse)
  moreover have "instant (e + k, f) = instant (e, f) + of_int k"
    by (simp add: instant_def)
  ultimately show ?thesis
    unfolding Inr sum.case by blast
qed

end
