(* ===== verification/Canonical_Numbers.thy ===== *)
theory Canonical_Numbers
  imports Prelude
begin

text \<open>
  The leaves of canonical JSON in \<open>protocol/reference/canonicalize.py\<close>: the
  portable limits, string normalisation (\<open>_nfc\<close>) with the Unicode database
  as a parameter, and decimal rendering (\<open>_decimal_text\<close>).  The lemmas give
  the shape of a rendered number and show that two numbers have the same text
  exactly when they have the same value.
\<close>

section \<open>Limits\<close>

definition MAX_INPUT_BYTES :: nat where "MAX_INPUT_BYTES = 65536"
definition MAX_NESTING_DEPTH :: nat where "MAX_NESTING_DEPTH = 32"
definition MAX_OBJECT_KEYS :: nat where "MAX_OBJECT_KEYS = 256"
definition MAX_ARRAY_ITEMS :: nat where "MAX_ARRAY_ITEMS = 1024"
definition MAX_STRING_BYTES :: nat where "MAX_STRING_BYTES = 8192"
definition MAX_SIGNIFICANT_DIGITS :: nat where "MAX_SIGNIFICANT_DIGITS = 128"
definition MIN_NORMALIZED_EXPONENT :: int where "MIN_NORMALIZED_EXPONENT = -435"
definition MAX_NORMALIZED_EXPONENT :: int where "MAX_NORMALIZED_EXPONENT = 308"

section \<open>Unicode normalisation\<close>

record unicode =
  nfc_form :: "ustr \<Rightarrow> ustr"
  unassigned :: "nat \<Rightarrow> bool"

text \<open>
  What the code relies on of Unicode NFC: normalising twice is normalising
  once, and ASCII text is assigned and already normalised.
\<close>

definition ascii :: "ustr \<Rightarrow> bool" where
  "ascii s \<longleftrightarrow> list_all (\<lambda>c. c < 128) s"

definition unicode_laws :: "unicode \<Rightarrow> bool" where
  "unicode_laws U \<longleftrightarrow>
    (\<forall>s. nfc_form U (nfc_form U s) = nfc_form U s) \<and>
    (\<forall>s. ascii s \<longrightarrow> nfc_form U s = s) \<and> (\<forall>c < 128. \<not> unassigned U c)"

definition nfc :: "unicode \<Rightarrow> code \<Rightarrow> ustr \<Rightarrow> code + ustr" where
  "nfc U code value =
    (if \<not> scalars value then Inl code
     else if utf8_len value > MAX_STRING_BYTES then Inl ''string_too_large''
     else if list_ex (unassigned U) value then Inl ''unassigned_unicode''
     else let normalized = nfc_form U value in
       if \<not> scalars normalized then Inl code
       else if utf8_len normalized > MAX_STRING_BYTES then Inl ''string_too_large''
       else if list_ex (unassigned U) normalized then Inl ''unassigned_unicode''
       else Inr normalized)"

text \<open>A database in which every string is normalised; it instantiates the parameter in examples.\<close>

definition plain_unicode :: unicode where
  "plain_unicode = \<lparr>nfc_form = (\<lambda>s. s), unassigned = (\<lambda>_. False)\<rparr>"

lemma plain_unicode_laws: "unicode_laws plain_unicode"
  by (simp add: unicode_laws_def plain_unicode_def)

section \<open>Decimal numbers\<close>

text \<open>
  A finite \<open>Decimal\<close> is its sign, its coefficient and its exponent; \<open>DSpecial\<close>
  stands for the infinities and the NaNs.
\<close>

datatype decimal = Dec bool nat int | DSpecial

function strip_zeros :: "nat \<Rightarrow> int \<Rightarrow> nat \<times> int" where
  "strip_zeros c e = (if c \<ge> 10 \<and> c mod 10 = 0 then strip_zeros (c div 10) (e + 1) else (c, e))"
  by pat_completeness auto
termination by (relation "measure fst") auto

declare strip_zeros.simps [simp del]

text \<open>
  \<open>abs(value)\<close> rounds to the 28 digits of the default decimal context, half
  to even.
\<close>

definition abs_context :: "nat \<Rightarrow> int \<Rightarrow> nat \<times> int" where
  "abs_context c e =
    (let n = length (digits10 c) in
     if n \<le> 28 then (c, e)
     else let k = 10 ^ (n - 28); q = c div k; r = c mod k in
       (if 2 * r > k \<or> (2 * r = k \<and> odd q) then q + 1 else q, e + int (n - 28)))"

definition dec_le :: "nat \<times> int \<Rightarrow> nat \<times> int \<Rightarrow> bool" where
  "dec_le a b =
    (if snd b \<le> snd a then fst a * 10 ^ nat (snd a - snd b) \<le> fst b
     else fst a \<le> fst b * 10 ^ nat (snd b - snd a))"

text \<open>\<open>format(value, "f")\<close>: positional notation with every stored digit.\<close>

definition format_f :: "bool \<Rightarrow> nat \<Rightarrow> int \<Rightarrow> ustr" where
  "format_f neg c e =
    (if neg then [45] else []) @
    (if 0 \<le> e then digits10 (c * 10 ^ nat e)
     else digits10 (c div 10 ^ nat (- e)) @ [46] @ pad10 (nat (- e)) (c mod 10 ^ nat (- e)))"

definition rstrip :: "nat \<Rightarrow> ustr \<Rightarrow> ustr" where
  "rstrip ch s = rev (dropWhile (\<lambda>c. c = ch) (rev s))"

definition decimal_text :: "decimal \<Rightarrow> code + ustr" where
  "decimal_text v =
    (case v of
       DSpecial \<Rightarrow> Inl ''non_finite_number''
     | Dec neg c e \<Rightarrow>
         if c = 0 then Inr (lit ''0'')
         else let (digits, exponent) = strip_zeros c e in
           if length (digits10 digits) > MAX_SIGNIFICANT_DIGITS then Inl ''number_too_precise''
           else if exponent < MIN_NORMALIZED_EXPONENT \<or> exponent > MAX_NORMALIZED_EXPONENT
             then Inl ''number_out_of_range''
           else if \<not> dec_le (abs_context c e) (1, 308) \<or> \<not> dec_le (1, -308) (abs_context c e)
             then Inl ''number_out_of_range''
           else let rendered = format_f neg c e in
             Inr (if 46 \<in> set rendered then rstrip 46 (rstrip 48 rendered) else rendered))"

definition int_decimal :: "int \<Rightarrow> decimal" where
  "int_decimal i = Dec (i < 0) (nat \<bar>i\<bar>) 0"

section \<open>The value of a number and its canonical digits\<close>

definition dec_value :: "decimal \<Rightarrow> rat" where
  "dec_value v = (case v of Dec neg c e \<Rightarrow> (if neg then - 1 else 1) * of_nat c * 10 powi e | DSpecial \<Rightarrow> 0)"

definition canonical_digits :: "nat \<Rightarrow> ustr \<Rightarrow> ustr" where
  "canonical_digits n f = digits10 n @ (if f = [] then [] else 46 # f)"

definition canonical_fraction :: "ustr \<Rightarrow> bool" where
  "canonical_fraction f \<longleftrightarrow> list_all is_digit f \<and> (f \<noteq> [] \<longrightarrow> last f \<noteq> 48)"

lemma rstrip_split: "\<exists>k. s = rstrip ch s @ replicate k ch" "rstrip ch s \<noteq> [] \<Longrightarrow> last (rstrip ch s) \<noteq> ch"
proof -
  have "rev s = takeWhile (\<lambda>c. c = ch) (rev s) @ dropWhile (\<lambda>c. c = ch) (rev s)" by simp
  then have "s = rstrip ch s @ rev (takeWhile (\<lambda>c. c = ch) (rev s))"
    unfolding rstrip_def by (metis rev_append rev_rev_ident)
  moreover have "rev (takeWhile (\<lambda>c. c = ch) (rev s)) = replicate (length (takeWhile (\<lambda>c. c = ch) (rev s))) ch"
    by (metis (mono_tags, lifting) length_rev replicate_length_same set_rev set_takeWhileD)
  ultimately show "\<exists>k. s = rstrip ch s @ replicate k ch" by metis
  show "rstrip ch s \<noteq> [] \<Longrightarrow> last (rstrip ch s) \<noteq> ch"
    unfolding rstrip_def
    by (metis (full_types) hd_dropWhile last_rev rev_is_Nil_conv)
qed

lemma rstrip_id: "s = [] \<or> last s \<noteq> ch \<Longrightarrow> rstrip ch s = s"
proof -
  assume s: "s = [] \<or> last s \<noteq> ch"
  show ?thesis
  proof (cases s rule: rev_cases)
    case (snoc t c)
    then show ?thesis using s by (simp add: rstrip_def)
  qed (simp add: rstrip_def)
qed

lemma rstrip_append: "rstrip ch (a @ b) = (if rstrip ch b = [] then rstrip ch a else a @ rstrip ch b)"
  unfolding rstrip_def by (auto simp: dropWhile_append)

lemma val10_zeros: "val10 (f @ replicate k 48) = val10 f * 10 ^ k"
proof -
  have "val10 (replicate k 48) = 0" by (induction k) (simp_all flip: replicate_append_same)
  then show ?thesis using val10_append [of "replicate k 48" f] by (simp add: list_all_iff is_digit_def)
qed

lemma digits_last: "list_all is_digit s \<Longrightarrow> s \<noteq> [] \<Longrightarrow> is_digit (last s)"
  by (simp add: list_all_iff)

lemma strip_fraction:
  assumes "list_all is_digit f"
  obtains g where "rstrip 46 (rstrip 48 (a @ digits10 n @ [46] @ f)) = a @ canonical_digits n g"
    "canonical_fraction g" "(of_nat (val10 f) :: rat) / 10 ^ length f = of_nat (val10 g) / 10 ^ length g"
proof -
  define g where "g = rstrip 48 f"
  obtain k where k: "f = g @ replicate k 48" using rstrip_split(1) g_def by metis
  have gd: "list_all is_digit g" using assms k by (metis list_all_append)
  have canon: "canonical_fraction g"
    using gd rstrip_split(2) [of 48 f] by (auto simp: canonical_fraction_def g_def)
  have "(of_nat (val10 f) :: rat) / 10 ^ length f = of_nat (val10 g) / 10 ^ length g"
    unfolding k by (simp add: val10_zeros power_add)
  moreover have "rstrip 46 (rstrip 48 (a @ digits10 n @ [46] @ f)) = a @ canonical_digits n g"
  proof -
    have 1: "rstrip 48 ([46] @ f) = [46] @ g"
      using rstrip_append [of 48 "[46]" f] by (auto simp: g_def rstrip_def)
    have 2: "rstrip 48 ((a @ digits10 n) @ [46] @ f) = (a @ digits10 n) @ [46] @ g"
      using rstrip_append [of 48 "a @ digits10 n" "[46] @ f"] 1 by simp
    have e: "last (digits10 n) \<noteq> 46" using digits_last [OF digits10_digits, of n] by (auto simp: is_digit_def)
    show ?thesis
    proof (cases "g = []")
      case True
      have "rstrip 46 ((a @ digits10 n) @ [46]) = rstrip 46 (a @ digits10 n)"
        using rstrip_append [of 46 "a @ digits10 n" "[46]"] by (simp add: rstrip_def)
      also have "\<dots> = a @ digits10 n" by (rule rstrip_id) (use e in auto)
      finally show ?thesis using 2 True by (simp add: canonical_digits_def)
    next
      case False
      then have "last g \<noteq> 46" using digits_last [OF gd] by (auto simp: is_digit_def)
      then have "rstrip 46 ((a @ digits10 n) @ [46] @ g) = (a @ digits10 n) @ [46] @ g"
        by (intro rstrip_id) (use False in auto)
      then show ?thesis using 2 False by (simp add: canonical_digits_def)
    qed
  qed
  ultimately show thesis using that canon by blast
qed

lemma no_dot: "list_all is_digit s \<Longrightarrow> 46 \<notin> set s"
  by (auto simp: list_all_iff is_digit_def)

lemma decimal_text_shape:
  assumes "decimal_text (Dec neg c e) = Inr t" "c \<noteq> 0"
  obtains n f where "t = (if neg then [45] else []) @ canonical_digits n f" "canonical_fraction f"
    "of_nat n + of_nat (val10 f) / 10 ^ length f = (of_nat c :: rat) * 10 powi e"
proof -
  define a where "a = (if neg then [45] else [] :: ustr)"
  have t: "t = (if 46 \<in> set (format_f neg c e) then rstrip 46 (rstrip 48 (format_f neg c e)) else format_f neg c e)"
    using assms unfolding decimal_text_def
    by (simp only: decimal.case Let_def case_prod_beta split: if_split_asm) simp_all
  show thesis
  proof (cases "0 \<le> e")
    case True
    then have f: "format_f neg c e = a @ digits10 (c * 10 ^ nat e)"
      by (simp add: format_f_def a_def)
    have "46 \<notin> set (format_f neg c e)"
      unfolding f using no_dot [OF digits10_digits] by (simp add: a_def)
    moreover have "(of_nat (c * 10 ^ nat e) :: rat) = of_nat c * 10 powi e"
      using True by (simp add: power_int_def)
    ultimately show thesis
      using that [of "c * 10 ^ nat e" "[]"] t f a_def by (simp add: canonical_digits_def canonical_fraction_def)
  next
    case False
    define k where "k = nat (- e)"
    have f: "format_f neg c e = a @ digits10 (c div 10 ^ k) @ [46] @ pad10 k (c mod 10 ^ k)"
      using False by (simp add: format_f_def a_def k_def)
    obtain g where g: "rstrip 46 (rstrip 48 (a @ digits10 (c div 10 ^ k) @ [46] @ pad10 k (c mod 10 ^ k))) = a @ canonical_digits (c div 10 ^ k) g"
      "canonical_fraction g" "(of_nat (val10 (pad10 k (c mod 10 ^ k))) :: rat) / 10 ^ length (pad10 k (c mod 10 ^ k)) = of_nat (val10 g) / 10 ^ length g"
      by (rule strip_fraction [OF pad10_digits])
    have "(of_nat c :: rat) = of_nat (c div 10 ^ k * 10 ^ k + c mod 10 ^ k)"
      by (simp only: div_mult_mod_eq)
    then have "(of_nat c :: rat) = of_nat (c div 10 ^ k) * 10 ^ k + of_nat (c mod 10 ^ k)"
      by (simp only: of_nat_add of_nat_mult of_nat_power of_nat_numeral)
    then have "of_nat (c div 10 ^ k) + of_nat (c mod 10 ^ k) / 10 ^ k = (of_nat c :: rat) / 10 ^ k"
      by (simp only: add_divide_distrib) simp
    moreover have "(of_nat c :: rat) * 10 powi e = of_nat c / 10 ^ k"
      using False by (simp add: power_int_def k_def field_simps)
    moreover have "t = a @ canonical_digits (c div 10 ^ k) g"
      using t f g(1) by simp
    ultimately show thesis
      using that [of "c div 10 ^ k" g] g(2,3) by (simp add: a_def val10_pad10)
  qed
qed

lemma canonical_fraction_inject:
  assumes "canonical_fraction f" "canonical_fraction g"
    "(of_nat (val10 f) :: rat) / 10 ^ length f = of_nat (val10 g) / 10 ^ length g"
  shows "f = g"
proof -
  have eq: "val10 f * 10 ^ length g = val10 g * 10 ^ length f"
  proof -
    have "(of_nat (val10 f) :: rat) * 10 ^ length g = of_nat (val10 g) * 10 ^ length f"
      using assms(3) by (simp add: field_simps)
    then have "(of_nat (val10 f * 10 ^ length g) :: rat) = of_nat (val10 g * 10 ^ length f)" by simp
    then show ?thesis by (simp only: of_nat_eq_iff)
  qed
  have longer: False if h: "canonical_fraction u" "val10 u = val10 v * 10 ^ Suc k" "u \<noteq> []" for u v k
  proof -
    obtain w x where u: "u = w @ [x]" using h(3) by (metis rev_exhaust)
    then have x: "x \<noteq> 48" "is_digit x" "48 \<le> x" using h(1) by (auto simp: canonical_fraction_def is_digit_def)
    then have "val10 u mod 10 = x - 48" unfolding u by (simp only: val10_snoc_digit)
    moreover have "val10 u mod 10 = 0" using h(2) by simp
    ultimately show False using x by simp
  qed
  have len: "length f = length g"
  proof (rule ccontr)
    assume "length f \<noteq> length g"
    then consider k where "length g = length f + Suc k" | k where "length f = length g + Suc k"
      by (metis less_imp_Suc_add nat_neq_iff add_Suc_right)
    then show False
    proof cases
      case 1
      then have "val10 g = val10 f * 10 ^ Suc k" using eq by (simp add: power_add)
      moreover have "g \<noteq> []" using 1 by auto
      ultimately show False using longer assms(2) by blast
    next
      case 2
      then have "val10 f = val10 g * 10 ^ Suc k" using eq by (simp add: power_add)
      moreover have "f \<noteq> []" using 2 by auto
      ultimately show False using longer assms(1) by blast
    qed
  qed
  then have "val10 f = val10 g" using eq by simp
  then show ?thesis
    using len pad10_val10 assms(1,2) by (metis canonical_fraction_def)
qed

lemma fraction_range:
  assumes "canonical_fraction f"
  shows "0 \<le> (of_nat (val10 f) :: rat) / 10 ^ length f" "(of_nat (val10 f) :: rat) / 10 ^ length f < 1"
proof -
  have "val10 f < 10 ^ length f" using assms val10_bound by (simp add: canonical_fraction_def)
  then have "(of_nat (val10 f) :: rat) < of_nat (10 ^ length f)" by (simp only: of_nat_less_iff)
  then show "(of_nat (val10 f) :: rat) / 10 ^ length f < 1" by simp
qed simp

lemma canonical_digits_value:
  assumes "canonical_fraction f" "canonical_fraction g"
    "of_nat n + (of_nat (val10 f) :: rat) / 10 ^ length f = of_nat m + of_nat (val10 g) / 10 ^ length g"
  shows "n = m" "f = g"
proof -
  have "\<lfloor>of_nat n + (of_nat (val10 f) :: rat) / 10 ^ length f\<rfloor> = int n"
    using fraction_range [OF assms(1)] by (intro floor_unique) auto
  moreover have "\<lfloor>of_nat m + (of_nat (val10 g) :: rat) / 10 ^ length g\<rfloor> = int m"
    using fraction_range [OF assms(2)] by (intro floor_unique) auto
  ultimately show "n = m" using assms(3) by simp
  then show "f = g" using assms canonical_fraction_inject by simp
qed

lemma digits10_hd: "is_digit (hd (digits10 n))"
  using digits10_digits [of n] digits10_nonempty [of n] by (cases "digits10 n") auto

lemma split_at_dot:
  assumes "list_all is_digit u" "list_all is_digit v"
    "u @ (if f = [] then [] else 46 # f) = v @ (if g = [] then [] else 46 # g)"
  shows "u = v \<and> f = g"
proof -
  have t: "takeWhile is_digit (u @ (if f = [] then [] else 46 # f)) = u" if "list_all is_digit u" for u f
    using that by (auto simp: list_all_iff is_digit_def takeWhile_append)
  have "u = v" using t [OF assms(1), of f] t [OF assms(2), of g] assms(3) by simp
  then show ?thesis using assms(3) by (auto split: if_splits)
qed

lemma canonical_digits_inject:
  "canonical_digits n f = canonical_digits m g \<longleftrightarrow> n = m \<and> f = g"
  unfolding canonical_digits_def using split_at_dot [OF digits10_digits digits10_digits] digits10_inject by metis

lemma dec_value_zero: "dec_value (Dec neg c e) = 0 \<longleftrightarrow> c = 0"
  by (simp add: dec_value_def)

lemma decimal_text_zero: "decimal_text (Dec neg 0 e) = Inr [48]"
  by (simp add: decimal_text_def lit_def)

lemma decimal_text_iff_value:
  assumes "decimal_text a = Inr t" "decimal_text b = Inr u"
  shows "t = u \<longleftrightarrow> dec_value a = dec_value b"
proof -
  obtain n c e where a: "a = Dec n c e" using assms(1) by (cases a) (auto simp: decimal_text_def)
  obtain m d h where b: "b = Dec m d h" using assms(2) by (cases b) (auto simp: decimal_text_def)
  have nonzero: "t \<noteq> [48]" if h: "decimal_text (Dec n c e) = Inr t" "c \<noteq> 0" for n c e t
  proof
    assume t: "t = [48]"
    obtain k f where k: "t = (if n then [45] else []) @ canonical_digits k f" "canonical_fraction f"
      "of_nat k + of_nat (val10 f) / 10 ^ length f = (of_nat c :: rat) * 10 powi e"
      by (rule decimal_text_shape [OF h])
    have "\<not> n" using k(1) t by auto
    moreover have "[48] = canonical_digits 0 []" by (simp add: canonical_digits_def digits10.simps)
    ultimately have "k = 0 \<and> f = []" using k(1) t canonical_digits_inject by simp
    then show False using k(3) h(2) by simp
  qed
  show ?thesis
  proof (cases "c = 0 \<or> d = 0")
    case True
    have z: "dec_value (Dec n c e) = 0 \<longleftrightarrow> c = 0" "dec_value (Dec m d h) = 0 \<longleftrightarrow> d = 0"
      by (simp_all add: dec_value_zero)
    have "t = [48] \<longleftrightarrow> c = 0" "u = [48] \<longleftrightarrow> d = 0"
      using nonzero assms a b decimal_text_zero by auto
    then show ?thesis using True z a b by metis
  next
    case False
    then have cd: "c \<noteq> 0" "d \<noteq> 0" by simp_all
    obtain k f where k: "t = (if n then [45] else []) @ canonical_digits k f" "canonical_fraction f"
      "of_nat k + of_nat (val10 f) / 10 ^ length f = (of_nat c :: rat) * 10 powi e"
      by (rule decimal_text_shape [OF assms(1) [unfolded a] cd(1)])
    obtain l g where l: "u = (if m then [45] else []) @ canonical_digits l g" "canonical_fraction g"
      "of_nat l + of_nat (val10 g) / 10 ^ length g = (of_nat d :: rat) * 10 powi h"
      by (rule decimal_text_shape [OF assms(2) [unfolded b] cd(2)])
    have hd: "hd (canonical_digits k f) \<noteq> 45" for k f
      using digits10_hd [of k] by (auto simp: canonical_digits_def is_digit_def)
    have pos: "0 < (of_nat c :: rat) * 10 powi e" "0 < (of_nat d :: rat) * 10 powi h"
      using cd by simp_all
    have "t = u \<longleftrightarrow> n = m \<and> canonical_digits k f = canonical_digits l g"
      using k(1) l(1) hd [of k f] hd [of l g] by (auto split: if_splits dest: arg_cong [where f = hd])
    also have "\<dots> \<longleftrightarrow> n = m \<and> k = l \<and> f = g"
      by (simp only: canonical_digits_inject)
    also have "\<dots> \<longleftrightarrow> n = m \<and> (of_nat c :: rat) * 10 powi e = of_nat d * 10 powi h"
      using canonical_digits_value [OF k(2) l(2)] k(3) l(3) by metis
    also have "\<dots> \<longleftrightarrow> dec_value a = dec_value b"
      using pos unfolding a b dec_value_def by (auto split: if_splits)
    finally show ?thesis .
  qed
qed


section \<open>The accepted range\<close>

lemma digits10_length: "length (digits10 c) \<le> Suc k \<longleftrightarrow> c < 10 ^ Suc k"
proof (induction c arbitrary: k rule: digits10.induct)
  case (1 c)
  show ?case
  proof (cases "c < 10")
    case True
    have "(10::nat) \<le> 10 ^ Suc k" by simp
    then have "c < 10 ^ Suc k" using True by (rule order.strict_trans2 [rotated])
    moreover have "length (digits10 c) = 1" using True by (subst digits10.simps) simp
    ultimately show ?thesis by simp
  next
    case False
    have l: "length (digits10 c) = Suc (length (digits10 (c div 10)))"
      using False by (subst digits10.simps) simp
    have pos: "1 \<le> length (digits10 (c div 10))"
      using digits10_nonempty [of "c div 10"] by (cases "digits10 (c div 10)") auto
    show ?thesis
    proof (cases k)
      case 0
      then show ?thesis using l pos False by simp
    next
      case (Suc j)
      have "c < 10 ^ Suc (Suc j) \<longleftrightarrow> c div 10 < 10 ^ Suc j"
        by (simp add: div_less_iff_less_mult mult.commute)
      then show ?thesis using l Suc 1 [OF False, of j] by simp
    qed
  qed
qed

lemma powi_split: "e \<le> h \<Longrightarrow> (10::rat) powi h = 10 powi e * 10 ^ nat (h - e)"
proof -
  assume "e \<le> h"
  then have "h = e + int (nat (h - e))" by simp
  then have "(10::rat) powi h = 10 powi (e + int (nat (h - e)))" by simp
  also have "\<dots> = 10 powi e * 10 powi int (nat (h - e))"
    by (rule power_int_add) simp
  finally show ?thesis by (simp only: power_int_of_nat)
qed

lemma powi_le: "(10::rat) powi m \<le> 10 powi n \<Longrightarrow> m \<le> n"
  using power_int_strict_increasing [of n m "10::rat"] by (cases "m \<le> n") auto

lemma dec_le_value:
  "dec_le (c, e) (d, h) \<longleftrightarrow> of_nat c * 10 powi e \<le> (of_nat d * 10 powi h :: rat)"
proof (cases "h \<le> e")
  case True
  have p: "(0::rat) < 10 powi h" by simp
  have "of_nat c * 10 powi e \<le> (of_nat d * 10 powi h :: rat) \<longleftrightarrow>
      (of_nat c * 10 ^ nat (e - h)) * 10 powi h \<le> (of_nat d :: rat) * 10 powi h"
    unfolding powi_split [OF True] by (simp only: ac_simps)
  also have "\<dots> \<longleftrightarrow> (of_nat (c * 10 ^ nat (e - h)) :: rat) \<le> of_nat d"
    using p by (simp only: mult_le_cancel_right_pos of_nat_mult of_nat_power of_nat_numeral)
  finally show ?thesis using True by (simp only: dec_le_def of_nat_le_iff fst_conv snd_conv if_True)
next
  case False
  then have h: "e \<le> h" by simp
  have p: "(0::rat) < 10 powi e" by simp
  have "of_nat c * 10 powi e \<le> (of_nat d * 10 powi h :: rat) \<longleftrightarrow>
      (of_nat c :: rat) * 10 powi e \<le> (of_nat d * 10 ^ nat (h - e)) * 10 powi e"
    unfolding powi_split [OF h] by (simp only: ac_simps)
  also have "\<dots> \<longleftrightarrow> (of_nat c :: rat) \<le> of_nat (d * 10 ^ nat (h - e))"
    using p by (simp only: mult_le_cancel_right_pos of_nat_mult of_nat_power of_nat_numeral)
  finally show ?thesis using False by (simp only: dec_le_def of_nat_le_iff fst_conv snd_conv if_False)
qed

lemma strip_zeros_value:
  "strip_zeros c e = (d, h) \<Longrightarrow>
   of_nat c * 10 powi e = (of_nat d * 10 powi h :: rat) \<and> d \<le> c \<and> (c > 0 \<longrightarrow> d > 0)"
proof (induction c e rule: strip_zeros.induct)
  case (1 c e)
  show ?case
  proof (cases "c \<ge> 10 \<and> c mod 10 = 0")
    case True
    then have s: "strip_zeros (c div 10) (e + 1) = (d, h)"
      using 1(2) by (subst (asm) strip_zeros.simps) simp
    have c: "(of_nat c :: rat) = of_nat (c div 10) * 10"
    proof -
      have "c = c div 10 * 10" using True by (metis add_0_right div_mult_mod_eq)
      then have "(of_nat c :: rat) = of_nat (c div 10 * 10)" by simp
      then show ?thesis by (simp only: of_nat_mult of_nat_numeral)
    qed
    have p: "(10::rat) powi (e + 1) = 10 * 10 powi e"
      by (subst power_int_add) simp_all
    have "d \<le> c" "0 < c div 10" "0 < d"
      using 1(1) [OF True s] True by (auto intro: order_trans [OF _ div_le_dividend])
    then show ?thesis
      using 1(1) [OF True s] p unfolding c by (simp add: ac_simps)
  next
    case False
    then have "strip_zeros c e = (c, e)" by (subst strip_zeros.simps) (simp only: if_False)
    then show ?thesis using 1(2) by simp
  qed
qed

lemma decimal_text_isOk:
  assumes "c \<noteq> 0" "strip_zeros c e = (d, h)"
  shows "isOk (decimal_text (Dec neg c e)) \<longleftrightarrow>
    length (digits10 d) \<le> 128 \<and> -435 \<le> h \<and> h \<le> 308 \<and>
    dec_le (abs_context c e) (1, 308) \<and> dec_le (1, -308) (abs_context c e)"
  using assms unfolding decimal_text_def
  by (simp only: decimal.case Let_def prod.case if_False MAX_SIGNIFICANT_DIGITS_def
      MIN_NORMALIZED_EXPONENT_def MAX_NORMALIZED_EXPONENT_def)
    (auto simp: not_le not_less)

lemma decimal_range_28:
  assumes "c \<noteq> 0" "length (digits10 c) \<le> 28"
  shows "isOk (decimal_text (Dec neg c e)) \<longleftrightarrow>
    10 powi (-308) \<le> of_nat c * (10::rat) powi e \<and> of_nat c * (10::rat) powi e \<le> 10 powi 308"
proof -
  obtain d h where s: "strip_zeros c e = (d, h)" by (metis surj_pair)
  note sv = strip_zeros_value [OF s]
  have c: "c < 10 ^ 28" using assms(2) digits10_length [of c 27] by simp
  then have d: "d < 10 ^ 28" "0 < d" using sv assms(1) by auto
  have a: "abs_context c e = (c, e)" using assms(2) by (simp add: abs_context_def Let_def)
  have range: "-435 \<le> h \<and> h \<le> 308"
    if lo: "10 powi (-308) \<le> of_nat d * (10::rat) powi h" and hi: "of_nat d * (10::rat) powi h \<le> 10 powi 308"
  proof
    have "(1::rat) \<le> of_nat d" using d(2) by simp
    then have "10 powi h \<le> of_nat d * (10::rat) powi h" by simp
    then have "(10::rat) powi h \<le> 10 powi 308" using hi by (rule order_trans)
    then show "h \<le> 308" by (rule powi_le)
    have "(of_nat d :: rat) \<le> of_nat (10 ^ 28)" using d(1) by (simp only: of_nat_le_iff less_imp_le)
    then have dd: "(of_nat d :: rat) \<le> 10 powi 28" by (simp add: power_int_def)
    have "10 powi (-308) \<le> (10::rat) powi 28 * 10 powi h"
      using lo dd by (meson mult_right_mono order_trans zero_le_numeral zero_le_power_int)
    then have "(10::rat) powi (-308) \<le> 10 powi (28 + h)" by (subst power_int_add) simp_all
    then have "-308 \<le> 28 + h" by (rule powi_le)
    then show "-435 \<le> h" by simp
  qed
  have len: "length (digits10 d) \<le> 128"
    using digits10_length [of d 27] d(1) by simp
  show ?thesis
    unfolding decimal_text_isOk [OF assms(1) s] a dec_le_value of_nat_1 mult_1_left
    using range len sv by metis
qed

lemma strip_zeros_stop: "c mod 10 \<noteq> 0 \<Longrightarrow> strip_zeros c e = (c, e)"
  by (subst strip_zeros.simps) simp

definition over_range_example :: decimal where
  "over_range_example = Dec False 100000000000000000000000000001 279"

lemma over_range_accepted: "isOk (decimal_text over_range_example)"
proof -
  let ?c = "100000000000000000000000000001 :: nat"
  have len: "length (digits10 ?c) = 30"
    using digits10_length [of ?c 29] digits10_length [of ?c 28] by simp
  have ctx: "abs_context ?c 279 = (1000000000000000000000000000, 281)"
    unfolding abs_context_def len Let_def by simp
  show ?thesis
    unfolding over_range_example_def
    by (subst decimal_text_isOk [OF _ strip_zeros_stop]) (simp_all add: len ctx dec_le_def)
qed

section \<open>Properties\<close>

text \<open>
  C13: Canonical number text is a normal form: two accepted decimals are
  rendered to the same text exactly when they denote the same rational number,
  whatever trailing zeros, exponent or sign of zero they carry.
\<close>

theorem decimal_text_canonical:
  assumes "decimal_text a = Inr t" "decimal_text b = Inr u"
  shows "t = u \<longleftrightarrow> dec_value a = dec_value b"
  using assms by (rule decimal_text_iff_value)

lemma decimal_examples:
  "decimal_text (Dec False 1050 (-2)) = Inr (lit ''10.5'')" "decimal_text (Dec False 105 (-1)) = Inr (lit ''10.5'')"
  by (simp_all add: decimal_text_def strip_zeros.simps digits10.simps abs_context_def dec_le_def format_f_def
      rstrip_def lit_def MAX_SIGNIFICANT_DIGITS_def MIN_NORMALIZED_EXPONENT_def MAX_NORMALIZED_EXPONENT_def
      numeral_2_eq_2)

theorem decimal_text_canonical_witness:
  "decimal_text (Dec False 1050 (-2)) = Inr (lit ''10.5'') \<and> decimal_text (Dec False 105 (-1)) = Inr (lit ''10.5'') \<and>
   dec_value (Dec False 1050 (-2)) = dec_value (Dec False 105 (-1))"
  using decimal_text_canonical [OF decimal_examples] decimal_examples by simp

text \<open>
  For a nonzero number of at most 28 digits the range check is exact: it
  is accepted if and only if its magnitude lies between 1e-308 and 1e308.
\<close>

theorem decimal_range_exact:
  assumes "c \<noteq> 0" "length (digits10 c) \<le> 28"
  shows "isOk (decimal_text (Dec neg c e)) \<longleftrightarrow>
    10 powi (-308) \<le> \<bar>dec_value (Dec neg c e)\<bar> \<and> \<bar>dec_value (Dec neg c e)\<bar> \<le> 10 powi 308"
proof -
  have "\<bar>dec_value (Dec neg c e)\<bar> = of_nat c * (10::rat) powi e"
    by (simp add: dec_value_def abs_mult)
  then show ?thesis using decimal_range_28 [OF assms] by (simp only:)
qed

theorem decimal_range_exact_witness:
  "(1::nat) \<noteq> 0 \<and> length (digits10 1) \<le> 28 \<and>
   (isOk (decimal_text (Dec True 1 2)) \<longleftrightarrow>
     10 powi (-308) \<le> \<bar>dec_value (Dec True 1 2)\<bar> \<and> \<bar>dec_value (Dec True 1 2)\<bar> \<le> 10 powi 308)"
proof -
  have l: "length (digits10 1) \<le> 28" by (subst digits10.simps) simp
  show ?thesis
    using decimal_range_exact [OF one_neq_zero l, of True 2] l by (intro conjI) simp_all
qed


end
