(* ===== verification/Canonical_Json.thy ===== *)
theory Canonical_Json
  imports Canonical_Numbers
begin

text \<open>
  Canonical JSON of \<open>protocol/reference/canonicalize.py\<close>: the bounded
  snapshot of the caller's containers (\<open>_snapshot_value\<close>), the canonical
  encoder (\<open>_encode_canonical\<close>), \<open>canonical_json\<close> and \<open>canonical_hash\<close>.

  A caller's value is a \<open>pyval\<close> tree whose containers carry the identity that
  \<open>id()\<close> returns, so that the memo and the cycle check are those of the code:
  the same identity at two places is one shared object, and the same identity
  below itself is a cycle.  A snapshot is a \<open>json\<close> value.  The Unicode
  database (\<open>unicodedata2\<close>) and the SHA-256 digest are parameters.
\<close>

section \<open>Values and snapshots\<close>

type_synonym oid = "nat list"

datatype pykey = KStr ustr | KOther

datatype pyval =
    PAbsent
  | PNone
  | PBool bool
  | PStr ustr
  | PFloat
  | PInt int
  | PDec decimal
  | PMap oid "(pykey \<times> pyval) list"
  | PSeq oid "pyval list"
  | POther

datatype json =
    JAbsent
  | JNull
  | JBool bool
  | JStr ustr
  | JInt int
  | JDec decimal
  | JObj "(ustr \<times> json) list"
  | JArr "json list"

record snap =
  active :: "oid list"
  memo :: "(oid \<times> json \<times> nat) list"
  used :: nat

definition charge :: "nat \<Rightarrow> snap \<Rightarrow> code + snap" where
  "charge amount st =
    (let n = used st + amount in
     if n > MAX_INPUT_BYTES then Inl ''input_too_large'' else Inr (st\<lparr>used := n\<rparr>))"

text \<open>
  The code remembers a container when its traversal is complete: it leaves the
  active set and enters the memo with the charge it caused.
\<close>

definition finish :: "oid \<Rightarrow> json \<Rightarrow> nat \<Rightarrow> snap \<Rightarrow> snap" where
  "finish i j before st =
    st\<lparr>active := removeAll i (active st), memo := (i, j, used st - before) # memo st\<rparr>"

fun visit :: "unicode \<Rightarrow> nat \<Rightarrow> pyval \<Rightarrow> snap \<Rightarrow> code + (json \<times> snap)"
  and visit_items :: "unicode \<Rightarrow> nat \<Rightarrow> nat \<Rightarrow> (ustr \<times> json) list \<Rightarrow> (pykey \<times> pyval) list \<Rightarrow> snap
        \<Rightarrow> code + ((ustr \<times> json) list \<times> snap)"
  and visit_seq :: "unicode \<Rightarrow> nat \<Rightarrow> json list \<Rightarrow> pyval list \<Rightarrow> snap \<Rightarrow> code + (json list \<times> snap)"
where
  "visit U d PAbsent st = bindE (charge 5 st) (\<lambda>st. Inr (JAbsent, st))"
| "visit U d PNone st = bindE (charge 5 st) (\<lambda>st. Inr (JNull, st))"
| "visit U d (PBool b) st = bindE (charge 5 st) (\<lambda>st. Inr (JBool b, st))"
| "visit U d (PStr s) st =
    bindE (nfc U ''invalid_string'' s) (\<lambda>n. bindE (charge (utf8_len n + 2) st) (\<lambda>st. Inr (JStr n, st)))"
| "visit U d PFloat st = Inl ''binary_float''"
| "visit U d (PInt i) st =
    bindE (decimal_text (int_decimal i)) (\<lambda>t. bindE (charge (length t) st) (\<lambda>st. Inr (JInt i, st)))"
| "visit U d (PDec v) st =
    bindE (decimal_text v) (\<lambda>t. bindE (charge (length t) st) (\<lambda>st. Inr (JDec v, st)))"
| "visit U d POther st = Inl ''unsupported_value''"
| "visit U d (PMap i kvs) st =
    (if d \<ge> MAX_NESTING_DEPTH then Inl ''nesting_too_deep''
     else if i \<in> set (active st) then Inl ''cyclic_value''
     else case map_of (memo st) i of
       Some (j, n) \<Rightarrow> bindE (charge n st) (\<lambda>st. Inr (j, st))
     | None \<Rightarrow>
         bindE (charge 2 (st\<lparr>active := i # active st\<rparr>)) (\<lambda>st1.
         bindE (visit_items U d 0 [] kvs st1) (\<lambda>(captured, st2).
           Inr (JObj captured, finish i (JObj captured) (used st) st2))))"
| "visit U d (PSeq i xs) st =
    (if d \<ge> MAX_NESTING_DEPTH then Inl ''nesting_too_deep''
     else if i \<in> set (active st) then Inl ''cyclic_value''
     else case map_of (memo st) i of
       Some (j, n) \<Rightarrow> bindE (charge n st) (\<lambda>st. Inr (j, st))
     | None \<Rightarrow>
         bindE (charge 2 (st\<lparr>active := i # active st\<rparr>)) (\<lambda>st1.
         bindE (visit_seq U d [] xs st1) (\<lambda>(values, st2).
           Inr (JArr values, finish i (JArr values) (used st) st2))))"
| "visit_items U d nkeys captured [] st = Inr (captured, st)"
| "visit_items U d nkeys captured ((rk, child) # kvs) st =
    (if nkeys + 1 > MAX_OBJECT_KEYS then Inl ''too_many_object_keys''
     else case rk of
       KOther \<Rightarrow> Inl ''invalid_object_key''
     | KStr raw \<Rightarrow>
         bindE (nfc U ''invalid_string'' raw) (\<lambda>key.
           if key \<in> set (map fst captured) then Inl ''duplicate_key''
           else bindE (charge (utf8_len key + 4) st) (\<lambda>st1.
                bindE (visit U (d + 1) child st1) (\<lambda>(v, st2).
                  visit_items U d (nkeys + 1) (captured @ [(key, v)]) kvs st2))))"
| "visit_seq U d vs [] st = Inr (vs, st)"
| "visit_seq U d vs (x # xs) st =
    (if length vs \<ge> MAX_ARRAY_ITEMS then Inl ''too_many_array_items''
     else bindE (charge 1 st) (\<lambda>st1.
          bindE (visit U (d + 1) x st1) (\<lambda>(v, st2). visit_seq U d (vs @ [v]) xs st2)))"

definition snapshot_value :: "unicode \<Rightarrow> pyval \<Rightarrow> code + json" where
  "snapshot_value U v =
    bindE (visit U 0 v \<lparr>active = [], memo = [], used = 0\<rparr>) (\<lambda>(j, _). Inr j)"

section \<open>The encoder\<close>

definition hex_digit :: "nat \<Rightarrow> nat" where
  "hex_digit n = (if n < 10 then 48 + n else 87 + n)"

text \<open>\<open>json.dumps\<close> of a string with \<open>ensure_ascii=False\<close>.\<close>

definition escape_char :: "nat \<Rightarrow> ustr" where
  "escape_char c =
    (if c = 34 then [92, 34] else if c = 92 then [92, 92]
     else if c = 8 then [92, 98] else if c = 12 then [92, 102] else if c = 10 then [92, 110]
     else if c = 13 then [92, 114] else if c = 9 then [92, 116]
     else if c < 32 then [92, 117, 48, 48, hex_digit (c div 16), hex_digit (c mod 16)]
     else [c])"

definition quote :: "ustr \<Rightarrow> ustr" where
  "quote s = [34] @ concat (map escape_char s) @ [34]"

definition json_string :: "unicode \<Rightarrow> ustr \<Rightarrow> code + ustr" where
  "json_string U s = bindE (nfc U ''invalid_string'' s) (\<lambda>n. Inr (quote n))"

fun join_with :: "nat \<Rightarrow> ustr list \<Rightarrow> ustr" where
  "join_with sep [] = []"
| "join_with sep [x] = x"
| "join_with sep (x # y # ys) = x @ [sep] @ join_with sep (y # ys)"

text \<open>The loop that builds \<open>normalized\<close>; an \<open>ABSENT\<close> item is left out.\<close>

fun normalized_fields :: "unicode \<Rightarrow> (ustr \<times> json) list \<Rightarrow> (ustr \<times> json) list \<Rightarrow> code + (ustr \<times> json) list" where
  "normalized_fields U acc [] = Inr acc"
| "normalized_fields U acc ((raw, item) # kvs) =
    bindE (nfc U ''invalid_string'' raw) (\<lambda>key.
      if key \<in> set (map fst acc) then Inl ''duplicate_key''
      else if item = JAbsent then normalized_fields U acc kvs
      else normalized_fields U (acc @ [(key, item)]) kvs)"

lemma normalized_fields_set:
  "normalized_fields U acc kvs = Inr fs \<Longrightarrow> snd ` set fs \<subseteq> snd ` set acc \<union> snd ` set kvs"
proof (induction U acc kvs rule: normalized_fields.induct)
  case (2 U acc raw item kvs)
  then obtain key where "nfc U ''invalid_string'' raw = Inr key" "key \<notin> set (map fst acc)"
    by (auto simp: bindE_Inr_iff split: if_splits)
  then show ?case
    using 2 by (cases "item = JAbsent") auto
qed simp

lemma mapE_cong [fundef_cong]: "xs = ys \<Longrightarrow> (\<And>x. x \<in> set ys \<Longrightarrow> f x = g x) \<Longrightarrow> mapE f xs = mapE g ys"
  by (induction xs arbitrary: ys) auto

lemma field_size:
  assumes "normalized_fields U [] kvs = Inr fs" "p \<in> set (sort_key fst fs)"
  shows "size (snd p) < Suc (size_list (size_prod (\<lambda>x. 0) size) kvs)"
proof -
  have "snd p \<in> snd ` set kvs"
    using normalized_fields_set [OF assms(1)] assms(2) by auto
  then obtain k where "(k, snd p) \<in> set kvs" by auto
  then have "size_prod (\<lambda>x. 0) size (k, snd p) \<le> size_list (size_prod (\<lambda>x. 0) size) kvs"
    by (rule size_list_estimation') simp
  then show ?thesis by simp
qed

lemma item_size: "x \<in> set xs \<Longrightarrow> size x < Suc (size_list size xs)"
  by (induction xs) auto

function encode_canonical :: "unicode \<Rightarrow> json \<Rightarrow> code + ustr" where
  "encode_canonical U JAbsent = Inl ''absent_value''"
| "encode_canonical U JNull = Inr (lit ''null'')"
| "encode_canonical U (JBool b) = Inr (if b then lit ''true'' else lit ''false'')"
| "encode_canonical U (JStr s) = json_string U s"
| "encode_canonical U (JInt i) = decimal_text (int_decimal i)"
| "encode_canonical U (JDec v) = decimal_text v"
| "encode_canonical U (JObj kvs) =
    bindE (normalized_fields U [] kvs) (\<lambda>fs.
    bindE (mapE (\<lambda>p. bindE (json_string U (fst p)) (\<lambda>k.
                      bindE (encode_canonical U (snd p)) (\<lambda>t. Inr (k @ [58] @ t)))) (sort_key fst fs))
      (\<lambda>ts. Inr ([123] @ join_with 44 ts @ [125])))"
| "encode_canonical U (JArr xs) =
    (if JAbsent \<in> set xs then Inl ''absent_array_value''
     else bindE (mapE (encode_canonical U) xs) (\<lambda>ts. Inr ([91] @ join_with 44 ts @ [93])))"
  by pat_completeness auto
termination
  by (relation "measure (\<lambda>(U, j). size j)")
    (simp, simp only: in_measure case_prod_conv json.size add_Suc_right add_0_right field_size,
     simp only: in_measure case_prod_conv json.size add_Suc_right add_0_right item_size)

definition canonical_json :: "unicode \<Rightarrow> pyval \<Rightarrow> code + bytes" where
  "canonical_json U v =
    bindE (snapshot_value U v) (\<lambda>snapshot.
    bindE (encode_canonical U snapshot) (\<lambda>text.
      if \<not> scalars text then Inl ''invalid_string''
      else if length (utf8 text) > MAX_INPUT_BYTES then Inl ''input_too_large''
      else Inr (utf8 text)))"

text \<open>\<open>H\<close> is the hexadecimal SHA-256 digest of the bytes.\<close>

definition canonical_hash :: "unicode \<Rightarrow> (bytes \<Rightarrow> ustr) \<Rightarrow> pyval \<Rightarrow> code + ustr" where
  "canonical_hash U H v = bindE (canonical_json U v) (\<lambda>payload. Inr (lit ''sha256:'' @ H payload))"

end
