(* ===== verification/Canonical_Form.thy ===== *)
theory Canonical_Form
  imports Canonical_Json
begin

text \<open>
  What canonical JSON means.  A snapshot denotes an abstract value \<open>cjson\<close>
  (\<open>denote\<close>): absent members dropped, keys normalised and sorted, numbers kept
  as numbers.  The encoder of \<open>protocol/reference/canonicalize.py\<close> is shown to
  print that value, the printer to be a prefix code, and hence two accepted
  inputs to have the same canonical bytes exactly when they have the same
  meaning.  The locale \<open>canonical_encoding\<close> is the contract that the hash
  clients use; it is interpreted for \<open>canonical_json\<close>.
\<close>

section \<open>The abstract value of a snapshot\<close>

datatype 'n cjson =
    CNull
  | CBool bool
  | CNum 'n
  | CStr ustr
  | CObj "(ustr \<times> 'n cjson) list"
  | CArr "'n cjson list"

function denote :: "unicode \<Rightarrow> json \<Rightarrow> code + decimal cjson" where
  "denote U JAbsent = Inl ''absent_value''"
| "denote U JNull = Inr CNull"
| "denote U (JBool b) = Inr (CBool b)"
| "denote U (JStr s) = bindE (nfc U ''invalid_string'' s) (\<lambda>n. Inr (CStr n))"
| "denote U (JInt i) = bindE (decimal_text (int_decimal i)) (\<lambda>_. Inr (CNum (int_decimal i)))"
| "denote U (JDec v) = bindE (decimal_text v) (\<lambda>_. Inr (CNum v))"
| "denote U (JObj kvs) =
    bindE (normalized_fields U [] kvs) (\<lambda>fs.
    bindE (mapE (\<lambda>p. bindE (nfc U ''invalid_string'' (fst p)) (\<lambda>k.
                      bindE (denote U (snd p)) (\<lambda>c. Inr (k, c)))) (sort_key fst fs))
      (\<lambda>cs. Inr (CObj cs)))"
| "denote U (JArr xs) =
    (if JAbsent \<in> set xs then Inl ''absent_array_value''
     else bindE (mapE (denote U) xs) (\<lambda>cs. Inr (CArr cs)))"
  by pat_completeness auto
termination
  by (relation "measure (\<lambda>(U, j). size j)")
    (simp, simp only: in_measure case_prod_conv json.size add_Suc_right add_0_right field_size,
     simp only: in_measure case_prod_conv json.size add_Suc_right add_0_right item_size)

definition number_text :: "decimal \<Rightarrow> ustr" where
  "number_text v = (case decimal_text v of Inr t \<Rightarrow> t | Inl _ \<Rightarrow> [])"

primrec print_text :: "ustr cjson \<Rightarrow> ustr" where
  "print_text CNull = lit ''null''"
| "print_text (CBool b) = (if b then lit ''true'' else lit ''false'')"
| "print_text (CNum t) = t"
| "print_text (CStr s) = quote s"
| "print_text (CObj kvs) =
    [123] @ join_with 44 (map (\<lambda>(k, t). quote k @ [58] @ t) (map (map_prod id print_text) kvs)) @ [125]"
| "print_text (CArr cs) = [91] @ join_with 44 (map print_text cs) @ [93]"

definition print_json :: "decimal cjson \<Rightarrow> ustr" where
  "print_json c = print_text (map_cjson number_text c)"

text \<open>What a snapshot means: numbers by value, strings normalised, objects by sorted key.\<close>

definition meaning :: "unicode \<Rightarrow> json \<Rightarrow> code + rat cjson" where
  "meaning U j = bindE (denote U j) (\<lambda>c. Inr (map_cjson dec_value c))"

section \<open>The encoder prints the abstract value\<close>

lemma mapE_print:
  "(\<And>x. x \<in> set xs \<Longrightarrow> f x = bindE (g x) (\<lambda>c. Inr (h c))) \<Longrightarrow>
   mapE f xs = bindE (mapE g xs) (\<lambda>cs. Inr (map h cs))"
proof (induction xs)
  case (Cons x xs)
  then show ?case
    by (cases "g x"; cases "mapE g xs") auto
qed simp

lemma print_json_simps:
  "print_json CNull = lit ''null''" "print_json (CBool b) = (if b then lit ''true'' else lit ''false'')"
  "print_json (CNum v) = number_text v" "print_json (CStr s) = quote s"
  "print_json (CObj kvs) = [123] @ join_with 44 (map (\<lambda>(k, c). quote k @ [58] @ print_json c) kvs) @ [125]"
  "print_json (CArr cs) = [91] @ join_with 44 (map print_json cs) @ [93]"
  unfolding print_json_def [abs_def] by (simp_all add: comp_def case_prod_beta')

lemma encode_refines_print:
  "encode_canonical U j = bindE (denote U j) (\<lambda>c. Inr (print_json c))"
proof (induction U j rule: encode_canonical.induct)
  case (7 U kvs)
  show ?case
  proof (cases "normalized_fields U [] kvs")
    case (Inr fs)
    have "mapE (\<lambda>p. bindE (json_string U (fst p)) (\<lambda>k. bindE (encode_canonical U (snd p)) (\<lambda>t. Inr (k @ [58] @ t)))) (sort_key fst fs) =
      bindE (mapE (\<lambda>p. bindE (nfc U ''invalid_string'' (fst p)) (\<lambda>k. bindE (denote U (snd p)) (\<lambda>c. Inr (k, c)))) (sort_key fst fs))
        (\<lambda>cs. Inr (map (\<lambda>(k, c). quote k @ [58] @ print_json c) cs))"
    proof (rule mapE_print)
      fix p assume p: "p \<in> set (sort_key fst fs)"
      have ih: "encode_canonical U (snd p) = bindE (denote U (snd p)) (\<lambda>c. Inr (print_json c))"
        if "nfc U ''invalid_string'' (fst p) = Inr k" for k
        using 7 [OF Inr p, of "quote k"] that by (simp add: json_string_def)
      show "bindE (json_string U (fst p)) (\<lambda>k. bindE (encode_canonical U (snd p)) (\<lambda>t. Inr (k @ [58] @ t))) =
        bindE (bindE (nfc U ''invalid_string'' (fst p)) (\<lambda>k. bindE (denote U (snd p)) (\<lambda>c. Inr (k, c))))
          (\<lambda>c. Inr (case c of (k, c) \<Rightarrow> quote k @ [58] @ print_json c))"
        unfolding json_string_def
        by (cases "nfc U ''invalid_string'' (fst p)"; cases "denote U (snd p)") (simp_all add: ih)
    qed
    then show ?thesis
      using Inr by (cases "mapE (\<lambda>p. bindE (nfc U ''invalid_string'' (fst p)) (\<lambda>k. bindE (denote U (snd p)) (\<lambda>c. Inr (k, c)))) (sort_key fst fs)")
        (simp_all add: print_json_simps)
  qed simp
next
  case (8 U xs)
  show ?case
  proof (cases "JAbsent \<in> set xs")
    case False
    have "mapE (encode_canonical U) xs = bindE (mapE (denote U) xs) (\<lambda>cs. Inr (map print_json cs))"
      by (rule mapE_print) (use 8 False in auto)
    then show ?thesis
      using False by (cases "mapE (denote U) xs") (simp_all add: print_json_simps)
  qed simp
next
  case (5 U i)
  then show ?case
    by (cases "decimal_text (int_decimal i)") (simp_all add: print_json_simps number_text_def)
next
  case (6 U v)
  then show ?case
    by (cases "decimal_text v") (simp_all add: print_json_simps number_text_def)
next
  case (4 U s)
  then show ?case
    by (cases "nfc U ''invalid_string'' s") (simp_all add: print_json_simps json_string_def)
qed (simp_all add: print_json_simps)

section \<open>Printed values are a prefix code\<close>

definition delim :: "ustr \<Rightarrow> bool" where
  "delim r \<longleftrightarrow> r = [] \<or> hd r \<in> {44, 93, 125}"

definition number_char :: "nat \<Rightarrow> bool" where
  "number_char c \<longleftrightarrow> is_digit c \<or> c = 45 \<or> c = 46"

definition number_shape :: "ustr \<Rightarrow> bool" where
  "number_shape t \<longleftrightarrow> t \<noteq> [] \<and> list_all number_char t"

definition unhex :: "nat \<Rightarrow> nat" where
  "unhex h = (if h < 58 then h - 48 else h - 87)"

definition unescape :: "ustr \<Rightarrow> nat \<times> ustr" where
  "unescape xs =
    (if hd xs \<noteq> 92 then (hd xs, tl xs)
     else let d = hd (tl xs); r = tl (tl xs) in
       if d = 34 then (34, r) else if d = 92 then (92, r) else if d = 98 then (8, r) else if d = 102 then (12, r)
       else if d = 110 then (10, r) else if d = 114 then (13, r) else if d = 116 then (9, r)
       else (case r of (_ # _ # h # l # rest) \<Rightarrow> (16 * unhex h + unhex l, rest) | _ \<Rightarrow> (0, [])))"

lemma unhex_hex_digit: "n < 16 \<Longrightarrow> unhex (hex_digit n) = n"
  by (simp add: unhex_def hex_digit_def)

lemma unescape_escape: "unescape (escape_char c @ r) = (c, r)"
proof -
  consider "c \<in> {34, 92, 8, 12, 10, 13, 9}" | "c \<notin> {34, 92}" "32 \<le> c" | "c \<notin> {8, 12, 10, 13, 9}" "c < 32"
    by force
  then show ?thesis
  proof cases
    case 1
    then show ?thesis
      by (elim insertE emptyE) (simp_all add: escape_char_def unescape_def)
  next
    case 2
    then show ?thesis by (auto simp: escape_char_def unescape_def)
  next
    case 3
    then have e: "escape_char c = [92, 117, 48, 48, hex_digit (c div 16), hex_digit (c mod 16)]"
      by (simp add: escape_char_def)
    have "c div 16 < 16" using 3 by (simp add: div_less_iff_less_mult)
    then show ?thesis
      unfolding e by (simp add: unescape_def unhex_hex_digit)
  qed
qed

lemma escape_char_inject: "escape_char c @ r = escape_char d @ s \<Longrightarrow> c = d \<and> r = s"
  by (metis prod.inject unescape_escape)

lemma escape_char_hd: "escape_char c \<noteq> []" "hd (escape_char c) \<noteq> 34"
  by (auto simp: escape_char_def)

lemma quote_inject: "quote s @ r = quote t @ u \<Longrightarrow> s = t \<and> r = u"
proof -
  have "concat (map escape_char s) @ 34 # r = concat (map escape_char t) @ 34 # u \<Longrightarrow> s = t \<and> r = u"
  proof (induction s arbitrary: t)
    case Nil
    then show ?case
      using escape_char_hd by (cases t) (auto simp: Cons_eq_append_conv dest: arg_cong [where f = hd])
  next
    case (Cons c s)
    obtain d v where t: "t = d # v"
      using Cons.prems escape_char_hd [of c] by (cases t) (auto simp: append_eq_Cons_conv)
    then have "escape_char c @ (concat (map escape_char s) @ 34 # r) = escape_char d @ (concat (map escape_char v) @ 34 # u)"
      using Cons.prems by simp
    then have "c = d" "concat (map escape_char s) @ 34 # r = concat (map escape_char v) @ 34 # u"
      using escape_char_inject by blast+
    then show ?case using Cons.IH t by blast
  qed
  then show "quote s @ r = quote t @ u \<Longrightarrow> s = t \<and> r = u"
    by (simp add: quote_def)
qed

lemma join_with_inject:
  assumes "\<And>x y u v. x \<in> set xs \<Longrightarrow> y \<in> set ys \<Longrightarrow> delim u \<Longrightarrow> delim v \<Longrightarrow> f x @ u = f y @ v \<Longrightarrow> x = y \<and> u = v"
    and "\<And>x. x \<in> set xs \<union> set ys \<Longrightarrow> f x \<noteq> [] \<and> hd (f x) \<noteq> close"
    and "close \<in> {93, 125}"
    and "join_with 44 (map f xs) @ close # r = join_with 44 (map f ys) @ close # s"
  shows "xs = ys \<and> r = s"
  using assms
proof (induction xs arbitrary: ys)
  case Nil
  show ?case
  proof (cases ys)
    case (Cons y zs)
    then have "f y \<noteq> []" "hd (f y) \<noteq> close" using Nil.prems(2) by auto
    moreover have "hd (join_with 44 (map f ys) @ close # s) = hd (f y)"
      using Cons \<open>f y \<noteq> []\<close> by (cases zs) auto
    ultimately show ?thesis using Nil.prems(4) by (metis append_Nil join_with.simps(1) list.sel(1) list.simps(8))
  qed (use Nil in simp)
next
  case (Cons x xs)
  have fx: "f x \<noteq> []" "hd (f x) \<noteq> close" using Cons.prems(2) by auto
  obtain y zs where ys: "ys = y # zs"
  proof (cases ys)
    case Nil
    then have "hd (join_with 44 (map f (x # xs)) @ close # r) = close" using Cons.prems(4) by simp
    moreover have "hd (join_with 44 (map f (x # xs)) @ close # r) = hd (f x)"
      using fx by (cases xs) auto
    ultimately show ?thesis using fx by simp
  qed (use that in auto)
  define rest where "rest = (\<lambda>ws q. (if ws = [] then [] else 44 # join_with 44 (map f ws)) @ close # q)"
  have j: "join_with 44 (map f (w # ws)) @ close # q = f w @ rest ws q" for w ws q
    by (cases ws) (auto simp: rest_def)
  have dl: "delim (rest ws q)" for ws q
    using Cons.prems(3) by (auto simp: rest_def delim_def)
  have "f x @ rest xs r = f y @ rest zs s"
    using Cons.prems(4) unfolding ys j .
  then have eq: "x = y" "rest xs r = rest zs s"
    using Cons.prems(1) [of x y] dl ys by auto
  have "xs = zs \<and> r = s"
  proof (cases "xs = [] \<or> zs = []")
    case True
    then show ?thesis using eq(2) Cons.prems(3) by (auto simp: rest_def split: if_splits)
  next
    case False
    then have "join_with 44 (map f xs) @ close # r = join_with 44 (map f zs) @ close # s"
      using eq(2) by (simp add: rest_def)
    then show ?thesis
      using Cons.IH [of zs] Cons.prems(1,2,3) ys by auto
  qed
  then show ?case using eq ys by simp
qed

lemma number_inject:
  assumes "list_all number_char t" "list_all number_char u" "delim r" "delim s" "t @ r = u @ s"
  shows "t = u \<and> r = s"
proof -
  have "takeWhile number_char (t @ r) = t" if "list_all number_char t" "delim r" for t r
    using that by (cases r) (auto simp: list_all_iff delim_def number_char_def is_digit_def)
  then have "t = u" using assms by metis
  then show ?thesis using assms(5) by simp
qed

primrec first_char :: "ustr cjson \<Rightarrow> nat" where
  "first_char CNull = 110"
| "first_char (CBool b) = (if b then 116 else 102)"
| "first_char (CNum t) = hd t"
| "first_char (CStr s) = 34"
| "first_char (CObj kvs) = 123"
| "first_char (CArr cs) = 91"

lemma print_text_hd:
  assumes "\<forall>t \<in> set_cjson c. number_shape t"
  shows "print_text c \<noteq> []" "hd (print_text c) = first_char c" "first_char c \<notin> {44, 93, 125}"
  using assms
  by (cases c; auto simp: lit_def quote_def number_shape_def list_all_iff neq_Nil_conv number_char_def is_digit_def)+

definition wf_text :: "ustr cjson \<Rightarrow> bool" where
  "wf_text c \<longleftrightarrow> (\<forall>t \<in> set_cjson c. number_shape t)"

lemma wf_text_hd:
  "wf_text c \<Longrightarrow> print_text c \<noteq> []" "wf_text c \<Longrightarrow> hd (print_text c) = first_char c"
  "wf_text c \<Longrightarrow> first_char c \<notin> {44, 93, 125}"
  unfolding wf_text_def by (rule print_text_hd; assumption)+

lemma first_char_num: "number_shape t \<Longrightarrow> number_char (hd t)"
  by (cases t) (auto simp: number_shape_def)

lemma first_char_num_kind: "wf_text (CNum t) \<Longrightarrow> hd t \<notin> {110, 116, 102, 34, 123, 91}"
  using first_char_num [of t] by (auto simp: wf_text_def number_char_def is_digit_def)

lemma first_char_kind:
  assumes "wf_text d"
  shows "first_char d = 123 \<Longrightarrow> \<exists>l. d = CObj l" "first_char d = 91 \<Longrightarrow> \<exists>l. d = CArr l"
    "first_char d = 34 \<Longrightarrow> \<exists>x. d = CStr x" "first_char d = 110 \<Longrightarrow> d = CNull"
    "first_char d = 116 \<Longrightarrow> d = CBool True" "first_char d = 102 \<Longrightarrow> d = CBool False"
  using assms first_char_num_kind by (cases d; auto split: if_splits)+

lemma print_text_first:
  assumes "wf_text c" "wf_text d" "print_text c @ r = print_text d @ s"
  shows "first_char c = first_char d"
  using wf_text_hd [OF assms(1)] wf_text_hd [OF assms(2)] assms(3) by (metis hd_append2)

lemma print_text_inject:
  "wf_text c \<Longrightarrow> wf_text d \<Longrightarrow> delim r \<Longrightarrow> delim s \<Longrightarrow> print_text c @ r = print_text d @ s \<Longrightarrow> c = d \<and> r = s"
proof (induction c arbitrary: d r s)
  case (CObj kvs)
  note first = print_text_first [OF CObj.prems(1,2,5)]
  then obtain lvs where d: "d = CObj lvs"
    using first_char_kind [OF CObj.prems(2)] by auto
  let ?f = "\<lambda>p. quote (fst p) @ [58] @ print_text (snd p)"
  have wk: "wf_text (snd p)" if "p \<in> set kvs \<or> p \<in> set lvs" for p
  proof -
    have "set_cjson (snd p) \<subseteq> set_cjson (CObj kvs) \<union> set_cjson d"
      using that unfolding d by (cases p) (force simp: snds.simps)
    then show ?thesis using CObj.prems(1,2) unfolding wf_text_def by blast
  qed
  have "kvs = lvs \<and> r = s"
  proof (rule join_with_inject [where f = ?f and close = 125])
    fix p q u v assume p: "p \<in> set kvs" and q: "q \<in> set lvs" and uv: "delim u" "delim v" and e: "?f p @ u = ?f q @ v"
    have "quote (fst p) @ (58 # print_text (snd p) @ u) = quote (fst q) @ (58 # print_text (snd q) @ v)"
      using e by simp
    then have a: "fst p = fst q" "print_text (snd p) @ u = print_text (snd q) @ v"
      using quote_inject by blast+
    have "snd p = snd q \<and> u = v"
      using CObj.IH [of p "snd p" "snd q" u v] p q uv a(2) wk by (auto simp: snds.simps)
    then show "p = q \<and> u = v" using a(1) by (auto intro: prod_eqI)
  next
    show "?f p \<noteq> [] \<and> hd (?f p) \<noteq> 125" for p by (simp add: quote_def)
    show "join_with 44 (map ?f kvs) @ 125 # r = join_with 44 (map ?f lvs) @ 125 # s"
      using CObj.prems(5) unfolding d by (simp add: comp_def case_prod_beta')
  qed simp
  then show ?case using d by simp
next
  case (CArr cs)
  note first = print_text_first [OF CArr.prems(1,2,5)]
  then obtain ds where d: "d = CArr ds"
    using first_char_kind [OF CArr.prems(2)] by auto
  have wk: "wf_text p" if "p \<in> set cs \<or> p \<in> set ds" for p
    using that CArr.prems(1,2) unfolding d wf_text_def by auto
  have "cs = ds \<and> r = s"
  proof (rule join_with_inject [where f = print_text and close = 93])
    show "x = y \<and> u = v" if "x \<in> set cs" "y \<in> set ds" "delim u" "delim v" "print_text x @ u = print_text y @ v" for x y u v
      using CArr.IH [of x y u v] that wk by blast
    show "print_text x \<noteq> [] \<and> hd (print_text x) \<noteq> 93" if "x \<in> set cs \<union> set ds" for x
      using wf_text_hd [of x] wk that by auto
    show "join_with 44 (map print_text cs) @ 93 # r = join_with 44 (map print_text ds) @ 93 # s"
      using CArr.prems(5) unfolding d by simp
  qed simp
  then show ?case using d by simp
next
  case (CNum t)
  note first = print_text_first [OF CNum.prems(1,2,5)]
  have t: "number_shape t" "number_char (hd t)"
    using CNum.prems(1) first_char_num by (auto simp: wf_text_def)
  then obtain u where d: "d = CNum u"
    using first by (cases d) (simp_all add: number_char_def is_digit_def split: if_splits)
  then have "number_shape u" using CNum.prems(2) by (simp add: wf_text_def)
  then show ?case
    using number_inject [of t u r s] CNum.prems d t by (simp add: number_shape_def)
next
  case (CStr x)
  note first = print_text_first [OF CStr.prems(1,2,5)]
  then obtain y where d: "d = CStr y"
    using first_char_kind [OF CStr.prems(2)] by auto
  then show ?case using CStr.prems(5) quote_inject [of x r y s] by simp
next
  case CNull
  note first = print_text_first [OF CNull.prems(1,2,5)]
  then have "d = CNull"
    using first_char_kind [OF CNull.prems(2)] by (auto split: if_splits)
  then show ?case using CNull.prems(5) by simp
next
  case (CBool b)
  note first = print_text_first [OF CBool.prems(1,2,5)]
  then have "d = CBool b"
    using first_char_kind(5,6) [OF CBool.prems(2)] by (cases b) simp_all
  then show ?case using CBool.prems(5) by simp
qed

lemma decimal_text_number_shape:
  assumes "decimal_text v = Inr t"
  shows "number_shape t"
proof -
  obtain n c e where v: "v = Dec n c e" using assms by (cases v) (auto simp: decimal_text_def)
  show ?thesis
  proof (cases "c = 0")
    case True
    then show ?thesis using assms decimal_text_zero by (auto simp: v number_shape_def number_char_def is_digit_def)
  next
    case False
    obtain k f where t: "t = (if n then [45] else []) @ canonical_digits k f" "canonical_fraction f"
      by (rule decimal_text_shape [OF assms [unfolded v] False])
    have "list_all number_char (digits10 k)" "list_all number_char f"
      using digits10_digits [of k] t(2) by (auto simp: list_all_iff number_char_def canonical_fraction_def)
    then show ?thesis
      using t(1) by (auto simp: number_shape_def canonical_digits_def number_char_def)
  qed
qed

text \<open>Every number of an abstract value was accepted.\<close>

lemma denote_numbers: "denote U j = Inr c \<Longrightarrow> v \<in> set_cjson c \<Longrightarrow> isOk (decimal_text v)"
proof (induction U j arbitrary: c rule: denote.induct)
  case (7 U kvs)
  then obtain fs cs where f: "normalized_fields U [] kvs = Inr fs" and c: "c = CObj cs"
    and all: "list_all2 (\<lambda>p q. bindE (nfc U ''invalid_string'' (fst p)) (\<lambda>k. bindE (denote U (snd p)) (\<lambda>c. Inr (k, c))) = Inr q) (sort_key fst fs) cs"
    by (auto simp: bindE_Inr_iff mapE_Inr_iff)
  from 7(3) c obtain q where q: "q \<in> set cs" "v \<in> set_cjson (snd q)" by (auto simp: snds.simps)
  then obtain p where p: "p \<in> set (sort_key fst fs)"
    "bindE (nfc U ''invalid_string'' (fst p)) (\<lambda>k. bindE (denote U (snd p)) (\<lambda>c. Inr (k, c))) = Inr q"
    using list_all2_in_set2 [OF all] by blast
  then obtain k where "nfc U ''invalid_string'' (fst p) = Inr k" "denote U (snd p) = Inr (snd q)"
    by (auto simp: bindE_Inr_iff)
  then show ?case using 7(1) [OF f p(1)] q(2) by blast
next
  case (8 U xs)
  then obtain cs where n: "JAbsent \<notin> set xs" and c: "c = CArr cs" and all: "list_all2 (\<lambda>x d. denote U x = Inr d) xs cs"
    by (auto simp: bindE_Inr_iff mapE_Inr_iff split: if_splits)
  from 8(3) c obtain d where d: "d \<in> set cs" "v \<in> set_cjson d" by auto
  then obtain x where "x \<in> set xs" "denote U x = Inr d"
    using list_all2_in_set2 [OF all] by blast
  then show ?case using 8(1) [OF n] d(2) by blast
qed (auto simp: bindE_Inr_iff isOk_def split: sum.splits)

lemma print_json_iff_meaning:
  assumes "denote U j = Inr c" "denote V k = Inr d"
  shows "print_json c = print_json d \<longleftrightarrow> map_cjson dec_value c = map_cjson dec_value d"
proof -
  have ok: "decimal_text x = Inr (number_text x)" if "x \<in> set_cjson c \<union> set_cjson d" for x
  proof -
    have "isOk (decimal_text x)" using that denote_numbers [OF assms(1)] denote_numbers [OF assms(2)] by blast
    then show ?thesis by (cases "decimal_text x") (simp_all add: number_text_def)
  qed
  have wf: "wf_text (map_cjson number_text c)" "wf_text (map_cjson number_text d)"
    using ok decimal_text_number_shape by (auto simp: wf_text_def cjson.set_map)
  have "print_json c = print_json d \<longleftrightarrow> map_cjson number_text c = map_cjson number_text d"
    using print_text_inject [OF wf, of "[]" "[]"] by (auto simp: print_json_def delim_def)
  also have "\<dots> \<longleftrightarrow> rel_cjson (\<lambda>x y. number_text x = number_text y) c d"
    unfolding cjson.rel_eq [symmetric] cjson.rel_map ..
  also have "\<dots> \<longleftrightarrow> rel_cjson (\<lambda>x y. dec_value x = dec_value y) c d"
    by (rule cjson.rel_cong [OF refl refl]) (use decimal_text_iff_value ok in blast)
  also have "\<dots> \<longleftrightarrow> map_cjson dec_value c = map_cjson dec_value d"
    unfolding cjson.rel_eq [symmetric] cjson.rel_map ..
  finally show ?thesis .
qed

section \<open>Canonical bytes and meaning\<close>

definition py_meaning :: "unicode \<Rightarrow> pyval \<Rightarrow> code + rat cjson" where
  "py_meaning U v = bindE (snapshot_value U v) (meaning U)"

lemma canonical_json_parts:
  assumes "canonical_json U v = Inr b"
  obtains j c where "snapshot_value U v = Inr j" "denote U j = Inr c" "b = utf8 (print_json c)" "scalars (print_json c)"
    "length b \<le> MAX_INPUT_BYTES"
proof -
  obtain j t where "snapshot_value U v = Inr j" "encode_canonical U j = Inr t" "scalars t"
    "length (utf8 t) \<le> MAX_INPUT_BYTES" "b = utf8 t"
    using assms unfolding canonical_json_def by (auto elim!: bindE_InrE split: if_splits)
  moreover then obtain c where "denote U j = Inr c" "t = print_json c"
    unfolding encode_refines_print by (auto elim!: bindE_InrE)
  ultimately show thesis using that by blast
qed

lemma canonical_json_meaning:
  assumes "canonical_json U v = Inr x" "canonical_json V w = Inr y"
  shows "x = y \<longleftrightarrow> py_meaning U v = py_meaning V w"
proof -
  obtain j c where a: "snapshot_value U v = Inr j" "denote U j = Inr c" "x = utf8 (print_json c)" "scalars (print_json c)"
    by (rule canonical_json_parts [OF assms(1)])
  obtain k d where b: "snapshot_value V w = Inr k" "denote V k = Inr d" "y = utf8 (print_json d)" "scalars (print_json d)"
    by (rule canonical_json_parts [OF assms(2)])
  have "x = y \<longleftrightarrow> print_json c = print_json d" using a b utf8_inject by auto
  also have "\<dots> \<longleftrightarrow> map_cjson dec_value c = map_cjson dec_value d"
    by (rule print_json_iff_meaning [OF a(2) b(2)])
  finally show ?thesis using a b by (simp add: py_meaning_def meaning_def)
qed

section \<open>The contract of a canonical encoding\<close>

locale canonical_encoding =
  fixes enc :: "'a \<Rightarrow> code + bytes"
    and mean :: "'a \<Rightarrow> code + 'm"
  assumes enc_iff: "enc a = Inr x \<Longrightarrow> enc b = Inr y \<Longrightarrow> x = y \<longleftrightarrow> mean a = mean b"
begin

lemma digest_binds:
  assumes "enc a = Inr x" "enc b = Inr y" "inj_on H {x, y}"
  shows "p @ H x = p @ H y \<longleftrightarrow> mean a = mean b"
  using enc_iff [OF assms(1,2)] assms(3) by (auto dest: inj_onD)

lemma digest_stable:
  assumes "enc a = Inr x" "enc b = Inr y" "mean a = mean b"
  shows "H x = H y"
  using enc_iff [OF assms(1,2)] assms(3) by simp

end

interpretation cj: canonical_encoding "canonical_json U" "py_meaning U" for U
  by unfold_locales (rule canonical_json_meaning)

section \<open>Properties\<close>


text \<open>
  C6: Canonical JSON is a faithful normal form: two values that
  \<open>canonical_json\<close> accepts get the same bytes exactly when they mean the same
  (same strings after NFC, same numbers by value, same objects up to the order
  of their members and up to absent members).
\<close>

theorem canonical_json_normal_form:
  assumes "canonical_json U v = Inr x" "canonical_json U w = Inr y"
  shows "x = y \<longleftrightarrow> py_meaning U v = py_meaning U w"
  using assms by (rule cj.enc_iff)

definition doc_left :: pyval where
  "doc_left = PMap [0] [(KStr [98], PBool True), (KStr [97], PNone), (KStr [99], PAbsent)]"

definition doc_right :: pyval where
  "doc_right = PMap [0] [(KStr [97], PNone), (KStr [98], PBool True)]"

lemmas json_eval = snapshot_value_def canonical_json_def charge_def finish_def nfc_def json_string_def quote_def
  escape_char_def utf8_len_def utf8_char_def is_surrogate_def lit_def Let_def MAX_INPUT_BYTES_def MAX_NESTING_DEPTH_def
  MAX_OBJECT_KEYS_def MAX_ARRAY_ITEMS_def MAX_STRING_BYTES_def

lemma doc_examples:
  "canonical_json plain_unicode doc_left = Inr (lit ''{\"a\":null,\"b\":true}'')"
  "canonical_json plain_unicode doc_right = Inr (lit ''{\"a\":null,\"b\":true}'')"
  by (simp_all add: doc_left_def doc_right_def plain_unicode_def json_eval)

theorem canonical_json_normal_form_witness:
  "canonical_json plain_unicode doc_left = Inr (lit ''{\"a\":null,\"b\":true}'') \<and>
   canonical_json plain_unicode doc_right = Inr (lit ''{\"a\":null,\"b\":true}'') \<and>
   py_meaning plain_unicode doc_left = py_meaning plain_unicode doc_right"
  using canonical_json_normal_form [OF doc_examples] doc_examples by simp

end
