(* ===== verification/Snapshot_Limits.thy ===== *)
theory Snapshot_Limits
  imports Canonical_Form
begin

text \<open>
  The bounded snapshot of \<open>protocol/reference/canonicalize.py\<close> against a
  reference definition.  \<open>cost\<close> is the traversal without identities, memo or
  running total: for a value without shared containers the snapshot succeeds
  exactly when \<open>cost\<close> is defined and within the byte budget.  From it follow the
  nesting bound and the independence of member order; a shared container
  escapes the nesting bound, which the last property exhibits.
\<close>

section \<open>The reference traversal\<close>

fun oids :: "pyval \<Rightarrow> oid list" where
  "oids (PMap i kvs) = i # concat (map (\<lambda>p. oids (snd p)) kvs)"
| "oids (PSeq i xs) = i # concat (map oids xs)"
| "oids v = []"

definition unshared :: "pyval \<Rightarrow> bool" where
  "unshared v \<longleftrightarrow> distinct (oids v)"

fun cost :: "unicode \<Rightarrow> nat \<Rightarrow> pyval \<Rightarrow> (json \<times> nat) option"
  and cost_items :: "unicode \<Rightarrow> nat \<Rightarrow> (pykey \<times> pyval) list \<Rightarrow> ((ustr \<times> json) list \<times> nat) option"
  and cost_seq :: "unicode \<Rightarrow> nat \<Rightarrow> pyval list \<Rightarrow> (json list \<times> nat) option"
where
  "cost U d PAbsent = Some (JAbsent, 5)"
| "cost U d PNone = Some (JNull, 5)"
| "cost U d (PBool b) = Some (JBool b, 5)"
| "cost U d (PStr s) = (case nfc U ''invalid_string'' s of Inr n \<Rightarrow> Some (JStr n, utf8_len n + 2) | Inl _ \<Rightarrow> None)"
| "cost U d PFloat = None"
| "cost U d (PInt i) = (case decimal_text (int_decimal i) of Inr t \<Rightarrow> Some (JInt i, length t) | Inl _ \<Rightarrow> None)"
| "cost U d (PDec v) = (case decimal_text v of Inr t \<Rightarrow> Some (JDec v, length t) | Inl _ \<Rightarrow> None)"
| "cost U d POther = None"
| "cost U d (PMap i kvs) =
    (if d \<ge> MAX_NESTING_DEPTH \<or> length kvs > MAX_OBJECT_KEYS then None
     else case cost_items U d kvs of
       None \<Rightarrow> None
     | Some (fs, w) \<Rightarrow> if distinct (map fst fs) then Some (JObj fs, 2 + w) else None)"
| "cost U d (PSeq i xs) =
    (if d \<ge> MAX_NESTING_DEPTH \<or> length xs > MAX_ARRAY_ITEMS then None
     else case cost_seq U d xs of None \<Rightarrow> None | Some (vs, w) \<Rightarrow> Some (JArr vs, 2 + w))"
| "cost_items U d [] = Some ([], 0)"
| "cost_items U d ((rk, child) # kvs) =
    (case rk of
       KOther \<Rightarrow> None
     | KStr raw \<Rightarrow>
        (case nfc U ''invalid_string'' raw of
           Inl _ \<Rightarrow> None
         | Inr key \<Rightarrow>
            (case cost U (d + 1) child of
               None \<Rightarrow> None
             | Some (j, w1) \<Rightarrow>
                (case cost_items U d kvs of
                   None \<Rightarrow> None
                 | Some (fs, w2) \<Rightarrow> Some ((key, j) # fs, utf8_len key + 4 + w1 + w2)))))"
| "cost_seq U d [] = Some ([], 0)"
| "cost_seq U d (x # xs) =
    (case cost U (d + 1) x of
       None \<Rightarrow> None
     | Some (j, w1) \<Rightarrow>
        (case cost_seq U d xs of None \<Rightarrow> None | Some (vs, w2) \<Rightarrow> Some (j # vs, 1 + w1 + w2)))"

definition fresh :: "oid list \<Rightarrow> snap \<Rightarrow> bool" where
  "fresh is st \<longleftrightarrow> used st \<le> MAX_INPUT_BYTES \<and> distinct is \<and> (\<forall>i \<in> set is. i \<notin> set (active st) \<and> i \<notin> fst ` set (memo st))"

definition grown :: "oid list \<Rightarrow> nat \<Rightarrow> snap \<Rightarrow> snap \<Rightarrow> bool" where
  "grown is w st st' \<longleftrightarrow>
    used st' = used st + w \<and> used st' \<le> MAX_INPUT_BYTES \<and> active st' = active st \<and>
    fst ` set (memo st') \<subseteq> fst ` set (memo st) \<union> set is"

lemma charge_iff:
  "charge n st = Inr st' \<longleftrightarrow> used st + n \<le> MAX_INPUT_BYTES \<and> st' = st\<lparr>used := used st + n\<rparr>"
  by (auto simp: charge_def Let_def)

lemma charge_ok: "isOk (charge n st) \<longleftrightarrow> used st + n \<le> MAX_INPUT_BYTES"
  by (simp add: charge_def Let_def)

lemma charge_grown: "charge n st = Inr st' \<Longrightarrow> grown [] n st st'"
  by (auto simp: charge_iff grown_def)

lemma fresh_grown:
  "fresh (is @ js) st \<Longrightarrow> grown is w st st' \<Longrightarrow> fresh js st'"
  by (fastforce simp: fresh_def grown_def)

lemma fresh_append: "fresh (is @ js) st \<Longrightarrow> fresh is st" "fresh (is @ js) st \<Longrightarrow> fresh js st"
  by (auto simp: fresh_def)

lemma grown_trans: "grown is v st st' \<Longrightarrow> grown js w st' st'' \<Longrightarrow> grown (is @ js) (v + w) st st''"
  unfolding grown_def set_append by (intro conjI) (simp_all, blast)

lemma container_absent: "fresh (i # is) st \<Longrightarrow> map_of (memo st) i = None \<and> i \<notin> set (active st)"
  by (auto simp: fresh_def map_of_eq_None_iff)

lemma container_entry:
  assumes "fresh (i # is) st" "charge 2 (st\<lparr>active := i # active st\<rparr>) = Inr st1"
  shows "fresh is st1" "map_of (memo st) i = None" "i \<notin> set (active st)"
  using assms by (auto simp: charge_iff fresh_def map_of_eq_None_iff)

lemma container_exit:
  assumes "fresh (i # is) st" "charge 2 (st\<lparr>active := i # active st\<rparr>) = Inr st1" "grown is w st1 st2"
  shows "grown (i # is) (2 + w) st (finish i j b st2)"
  using assms by (auto simp: charge_iff grown_def finish_def fresh_def)

lemma visit_cost_sound:
  "fresh (oids v) st \<Longrightarrow> visit U d v st = Inr (j, st') \<Longrightarrow>
     \<exists>w. cost U d v = Some (j, w) \<and> grown (oids v) w st st'"
  "fresh (concat (map (\<lambda>p. oids (snd p)) kvs)) st \<Longrightarrow> distinct (map fst cap) \<Longrightarrow> nkeys \<le> MAX_OBJECT_KEYS \<Longrightarrow>
   visit_items U d nkeys cap kvs st = Inr (cap', st') \<Longrightarrow>
     nkeys + length kvs \<le> MAX_OBJECT_KEYS \<and> distinct (map fst cap') \<and>
     (\<exists>fs w. cost_items U d kvs = Some (fs, w) \<and> cap' = cap @ fs \<and> grown (concat (map (\<lambda>p. oids (snd p)) kvs)) w st st')"
  "fresh (concat (map oids xs)) st \<Longrightarrow> length vs \<le> MAX_ARRAY_ITEMS \<Longrightarrow> visit_seq U d vs xs st = Inr (vs', st') \<Longrightarrow>
     length vs + length xs \<le> MAX_ARRAY_ITEMS \<and>
     (\<exists>js w. cost_seq U d xs = Some (js, w) \<and> vs' = vs @ js \<and> grown (concat (map oids xs)) w st st')"
proof (induction U d v st and U d nkeys cap kvs st and U d vs xs st
    arbitrary: j st' and cap' st' and vs' st' rule: visit_visit_items_visit_seq.induct)
  case (9 U d i kvs st)
  obtain st1 cap st2 where c: "charge 2 (st\<lparr>active := i # active st\<rparr>) = Inr st1"
    and v: "visit_items U d 0 [] kvs st1 = Inr (cap, st2)" and j: "j = JObj cap" "st' = finish i (JObj cap) (used st) st2"
    and d: "\<not> d \<ge> MAX_NESTING_DEPTH"
    using 9(3) container_absent [OF 9(2) [unfolded oids.simps]]
    by (auto simp: bindE_Inr_iff split: if_splits)
  note e = container_entry [OF 9(2) [unfolded oids.simps] c]
  from 9(1) [OF d e(3) e(2) c e(1) _ _ v] obtain w where
    "length kvs \<le> MAX_OBJECT_KEYS" "distinct (map fst cap)" "cost_items U d kvs = Some (cap, w)"
    "grown (concat (map (\<lambda>p. oids (snd p)) kvs)) w st1 st2" by auto
  then show ?case
    using d j container_exit [OF 9(2) [unfolded oids.simps] c, of w st2] by (simp add: not_le)
next
  case (10 U d i xs st)
  obtain st1 vs st2 where c: "charge 2 (st\<lparr>active := i # active st\<rparr>) = Inr st1"
    and v: "visit_seq U d [] xs st1 = Inr (vs, st2)" and j: "j = JArr vs" "st' = finish i (JArr vs) (used st) st2"
    and d: "\<not> d \<ge> MAX_NESTING_DEPTH"
    using 10(3) container_absent [OF 10(2) [unfolded oids.simps]]
    by (auto simp: bindE_Inr_iff split: if_splits)
  note e = container_entry [OF 10(2) [unfolded oids.simps] c]
  from 10(1) [OF d e(3) e(2) c e(1) _ v] obtain w where
    "length xs \<le> MAX_ARRAY_ITEMS" "cost_seq U d xs = Some (vs, w)"
    "grown (concat (map oids xs)) w st1 st2" by auto
  then show ?case
    using d j container_exit [OF 10(2) [unfolded oids.simps] c, of w st2] by (simp add: not_le)
next
  case (11 U d nkeys captured st)
  then show ?case by (auto simp: grown_def fresh_def)
next
  case (12 U d nkeys captured rk child kvs st)
  obtain raw key st1 v st2 where rk: "rk = KStr raw" and n: "nfc U ''invalid_string'' raw = Inr key"
    and k: "key \<notin> set (map fst captured)" and c: "charge (utf8_len key + 4) st = Inr st1"
    and v: "visit U (d + 1) child st1 = Inr (v, st2)" and cnt: "\<not> nkeys + 1 > MAX_OBJECT_KEYS"
    and r: "visit_items U d (nkeys + 1) (captured @ [(key, v)]) kvs st2 = Inr (cap', st')"
    using 12(6) by (auto simp: bindE_Inr_iff split: if_splits pykey.splits)
  let ?is = "concat (map (\<lambda>p. oids (snd p)) kvs)"
  have f: "fresh (oids child @ ?is) st" using 12(3) by simp
  note g1 = charge_grown [OF c]
  have f1: "fresh (oids child @ ?is) st1" using fresh_grown [of "[]"] f g1 by simp
  obtain w1 where w1: "cost U (d + 1) child = Some (v, w1)" "grown (oids child) w1 st1 st2"
    using 12(1) [OF cnt rk n k c fresh_append(1) [OF f1] v] by blast
  have f2: "fresh ?is st2" by (rule fresh_grown [OF f1 w1(2)])
  have d: "distinct (map fst (captured @ [(key, v)]))" using 12(4) k by simp
  have "nkeys + 1 \<le> MAX_OBJECT_KEYS" using cnt by simp
  from 12(2) [OF cnt rk n k c v refl f2 d this r] obtain fs w2 where w2:
    "nkeys + 1 + length kvs \<le> MAX_OBJECT_KEYS" "distinct (map fst cap')" "cost_items U d kvs = Some (fs, w2)"
    "cap' = (captured @ [(key, v)]) @ fs" "grown ?is w2 st2 st'" by blast
  have "grown ([] @ oids child @ ?is) (utf8_len key + 4 + (w1 + w2)) st st'"
    using grown_trans [OF g1 grown_trans [OF w1(2) w2(5)]] .
  then show ?case using w1 w2 rk n by (simp add: add.assoc)
next
  case (13 U d vs st)
  then show ?case by (auto simp: grown_def fresh_def)
next
  case (14 U d vs x xs st)
  obtain st1 v st2 where c: "charge 1 st = Inr st1" and v: "visit U (d + 1) x st1 = Inr (v, st2)"
    and cnt: "\<not> length vs \<ge> MAX_ARRAY_ITEMS" and r: "visit_seq U d (vs @ [v]) xs st2 = Inr (vs', st')"
    using 14(5) by (auto simp: bindE_Inr_iff split: if_splits)
  let ?is = "concat (map oids xs)"
  have f: "fresh (oids x @ ?is) st" using 14(3) by simp
  note g1 = charge_grown [OF c]
  have f1: "fresh (oids x @ ?is) st1" using fresh_grown [of "[]"] f g1 by simp
  obtain w1 where w1: "cost U (d + 1) x = Some (v, w1)" "grown (oids x) w1 st1 st2"
    using 14(1) [OF cnt c fresh_append(1) [OF f1] v] by blast
  have f2: "fresh ?is st2" by (rule fresh_grown [OF f1 w1(2)])
  have "length (vs @ [v]) \<le> MAX_ARRAY_ITEMS" using cnt by simp
  from 14(2) [OF cnt c v refl f2 this r] obtain js w2 where w2:
    "length (vs @ [v]) + length xs \<le> MAX_ARRAY_ITEMS" "cost_seq U d xs = Some (js, w2)"
    "vs' = (vs @ [v]) @ js" "grown ?is w2 st2 st'" by blast
  have "grown ([] @ oids x @ ?is) (1 + (w1 + w2)) st st'"
    using grown_trans [OF g1 grown_trans [OF w1(2) w2(4)]] .
  then show ?case using w1 w2 by (simp add: add.assoc)
qed (auto simp: bindE_Inr_iff dest: charge_grown)

lemma visit_cost_complete:
  "fresh (oids v) st \<Longrightarrow> cost U d v = Some (j, w) \<Longrightarrow> used st + w \<le> MAX_INPUT_BYTES \<Longrightarrow> isOk (visit U d v st)"
  "fresh (concat (map (\<lambda>p. oids (snd p)) kvs)) st \<Longrightarrow> cost_items U d kvs = Some (fs, w) \<Longrightarrow>
   distinct (map fst (cap @ fs)) \<Longrightarrow> nkeys + length kvs \<le> MAX_OBJECT_KEYS \<Longrightarrow> used st + w \<le> MAX_INPUT_BYTES \<Longrightarrow>
     isOk (visit_items U d nkeys cap kvs st)"
  "fresh (concat (map oids xs)) st \<Longrightarrow> cost_seq U d xs = Some (js, w) \<Longrightarrow>
   length vs + length xs \<le> MAX_ARRAY_ITEMS \<Longrightarrow> used st + w \<le> MAX_INPUT_BYTES \<Longrightarrow>
     isOk (visit_seq U d vs xs st)"
proof (induction U d v st and U d nkeys cap kvs st and U d vs xs st
    arbitrary: j w and fs w and js w rule: visit_visit_items_visit_seq.induct)
  case (9 U d i kvs st)
  obtain fs v where c: "cost_items U d kvs = Some (fs, v)" "distinct (map fst fs)" "w = 2 + v"
    and d: "\<not> d \<ge> MAX_NESTING_DEPTH" "length kvs \<le> MAX_OBJECT_KEYS"
    using 9(3) by (auto split: if_splits option.splits)
  note a = container_absent [OF 9(2) [unfolded oids.simps]]
  let ?s = "st\<lparr>active := i # active st\<rparr>"
  obtain st1 where s1: "charge 2 ?s = Inr st1" using 9(4) c(3) by (auto simp: charge_iff)
  note e = container_entry [OF 9(2) [unfolded oids.simps] s1]
  have "used st1 + v \<le> MAX_INPUT_BYTES" using s1 9(4) c(3) by (auto simp: charge_iff)
  then have "isOk (visit_items U d 0 [] kvs st1)"
    using 9(1) [OF d(1) e(3,2) s1 e(1) c(1)] c(2) d(2) by simp
  then show ?case using d a s1 by (auto simp: isOk_bindE isOk_iff)
next
  case (10 U d i xs st)
  obtain js v where c: "cost_seq U d xs = Some (js, v)" "w = 2 + v"
    and d: "\<not> d \<ge> MAX_NESTING_DEPTH" "length xs \<le> MAX_ARRAY_ITEMS"
    using 10(3) by (auto split: if_splits option.splits)
  note a = container_absent [OF 10(2) [unfolded oids.simps]]
  let ?s = "st\<lparr>active := i # active st\<rparr>"
  obtain st1 where s1: "charge 2 ?s = Inr st1" using 10(4) c(2) by (auto simp: charge_iff)
  note e = container_entry [OF 10(2) [unfolded oids.simps] s1]
  have "used st1 + v \<le> MAX_INPUT_BYTES" using s1 10(4) c(2) by (auto simp: charge_iff)
  then have "isOk (visit_seq U d [] xs st1)"
    using 10(1) [OF d(1) e(3,2) s1 e(1) c(1)] d(2) by simp
  then show ?case using d a s1 by (auto simp: isOk_bindE isOk_iff)
next
  case (12 U d nkeys captured rk child kvs st)
  obtain raw key j w1 gs w2 where rk: "rk = KStr raw" and n: "nfc U ''invalid_string'' raw = Inr key"
    and c1: "cost U (d + 1) child = Some (j, w1)" and c2: "cost_items U d kvs = Some (gs, w2)"
    and fs: "fs = (key, j) # gs" "w = utf8_len key + 4 + w1 + w2"
    using 12(4) by (auto split: pykey.splits sum.splits option.splits)
  have cnt: "\<not> nkeys + 1 > MAX_OBJECT_KEYS" and k: "key \<notin> set (map fst captured)"
    using 12(5,6) fs by auto
  let ?is = "concat (map (\<lambda>p. oids (snd p)) kvs)"
  obtain st1 where s1: "charge (utf8_len key + 4) st = Inr st1" using 12(7) fs by (auto simp: charge_iff)
  note g1 = charge_grown [OF s1]
  have f1: "fresh (oids child @ ?is) st1" using fresh_grown [of "[]" "oids child @ ?is" st] 12(3) g1 by simp
  have "used st1 + w1 \<le> MAX_INPUT_BYTES" using g1 12(7) fs by (simp add: grown_def)
  then have "isOk (visit U (d + 1) child st1)" using 12(1) [OF cnt rk n k s1 fresh_append(1) [OF f1] c1] by simp
  then obtain v st2 where v: "visit U (d + 1) child st1 = Inr (v, st2)" by (auto simp: isOk_iff)
  then have "v = j" and g2: "grown (oids child) w1 st1 st2"
    using visit_cost_sound(1) [OF fresh_append(1) [OF f1] v] c1 by auto
  have f2: "fresh ?is st2" by (rule fresh_grown [OF f1 g2])
  have "used st2 + w2 \<le> MAX_INPUT_BYTES" using g1 g2 12(7) fs by (simp add: grown_def)
  then have "isOk (visit_items U d (nkeys + 1) (captured @ [(key, v)]) kvs st2)"
    using 12(2) [OF cnt rk n k s1 v refl f2 c2] 12(5,6) fs \<open>v = j\<close> by simp
  then show ?case using cnt rk n k s1 v by (simp add: isOk_bindE)
next
  case (14 U d vs x xs st)
  obtain j w1 ks w2 where c1: "cost U (d + 1) x = Some (j, w1)" and c2: "cost_seq U d xs = Some (ks, w2)"
    and w: "w = 1 + w1 + w2"
    using 14(4) by (auto split: option.splits)
  have cnt: "\<not> length vs \<ge> MAX_ARRAY_ITEMS" using 14(5) by simp
  let ?is = "concat (map oids xs)"
  obtain st1 where s1: "charge 1 st = Inr st1" using 14(6) w by (auto simp: charge_iff)
  note g1 = charge_grown [OF s1]
  have f1: "fresh (oids x @ ?is) st1" using fresh_grown [of "[]" "oids x @ ?is" st] 14(3) g1 by simp
  have "used st1 + w1 \<le> MAX_INPUT_BYTES" using g1 14(6) w by (simp add: grown_def)
  then have "isOk (visit U (d + 1) x st1)" using 14(1) [OF cnt s1 fresh_append(1) [OF f1] c1] by simp
  then obtain v st2 where v: "visit U (d + 1) x st1 = Inr (v, st2)" by (auto simp: isOk_iff)
  then have g2: "grown (oids x) w1 st1 st2"
    using visit_cost_sound(1) [OF fresh_append(1) [OF f1] v] c1 by auto
  have f2: "fresh ?is st2" by (rule fresh_grown [OF f1 g2])
  have "used st2 + w2 \<le> MAX_INPUT_BYTES" using g1 g2 14(6) w by (simp add: grown_def)
  then have "isOk (visit_seq U d (vs @ [v]) xs st2)"
    using 14(2) [OF cnt s1 v refl f2 c2] 14(5) by simp
  then show ?case using cnt s1 v by (simp add: isOk_bindE)
qed (auto simp: isOk_bindE charge_iff split: sum.splits)

lemma snapshot_iff_cost:
  assumes "unshared v"
  shows "snapshot_value U v = Inr j \<longleftrightarrow> (\<exists>w \<le> MAX_INPUT_BYTES. cost U 0 v = Some (j, w))"
proof -
  let ?st = "\<lparr>active = [], memo = [], used = 0\<rparr> :: snap"
  have f: "fresh (oids v) ?st" using assms by (simp add: fresh_def unshared_def)
  show ?thesis
  proof
    assume "snapshot_value U v = Inr j"
    then obtain st' where "visit U 0 v ?st = Inr (j, st')" by (auto simp: snapshot_value_def bindE_Inr_iff)
    from visit_cost_sound(1) [OF f this] show "\<exists>w \<le> MAX_INPUT_BYTES. cost U 0 v = Some (j, w)"
      by (auto simp: grown_def)
  next
    assume "\<exists>w \<le> MAX_INPUT_BYTES. cost U 0 v = Some (j, w)"
    then obtain w where w: "w \<le> MAX_INPUT_BYTES" "cost U 0 v = Some (j, w)" by blast
    then have "isOk (visit U 0 v ?st)" using visit_cost_complete(1) [OF f w(2)] by simp
    then obtain k st' where k: "visit U 0 v ?st = Inr (k, st')" by (auto simp: isOk_iff)
    from visit_cost_sound(1) [OF f k] w(2) have "k = j" by auto
    then show "snapshot_value U v = Inr j" using k by (simp add: snapshot_value_def)
  qed
qed

section \<open>Order of members\<close>

definition item_cost :: "unicode \<Rightarrow> nat \<Rightarrow> pykey \<times> pyval \<Rightarrow> ((ustr \<times> json) \<times> nat) option" where
  "item_cost U d p =
    (case fst p of
       KOther \<Rightarrow> None
     | KStr raw \<Rightarrow>
        (case nfc U ''invalid_string'' raw of
           Inl _ \<Rightarrow> None
         | Inr key \<Rightarrow>
            (case cost U (d + 1) (snd p) of None \<Rightarrow> None | Some (j, w) \<Rightarrow> Some ((key, j), utf8_len key + 4 + w))))"

lemma cost_items_step:
  "cost_items U d (p # kvs) =
    (case item_cost U d p of
       None \<Rightarrow> None
     | Some (f, w) \<Rightarrow> (case cost_items U d kvs of None \<Rightarrow> None | Some (fs, v) \<Rightarrow> Some (f # fs, w + v)))"
  by (cases p) (auto simp: item_cost_def split: pykey.splits sum.splits option.splits)

lemma cost_items_alt:
  "cost_items U d kvs =
    (if \<forall>p \<in> set kvs. item_cost U d p \<noteq> None
     then Some (map (\<lambda>p. fst (the (item_cost U d p))) kvs, sum_list (map (\<lambda>p. snd (the (item_cost U d p))) kvs))
     else None)"
proof (induction kvs)
  case (Cons p kvs)
  show ?case
    unfolding cost_items_step Cons by (cases "item_cost U d p") (auto split: prod.splits)
qed simp

lemma mset_concat_map: "mset (concat (map f xs)) = sum_mset (image_mset (\<lambda>x. mset (f x)) (mset xs))"
  by (induction xs) auto

lemma cost_items_perm:
  assumes "mset kvs' = mset kvs" "cost_items U d kvs = Some (fs, w)"
  obtains fs' where "cost_items U d kvs' = Some (fs', w)" "mset fs' = mset fs"
proof -
  have s: "set kvs' = set kvs" using assms(1) by (metis set_mset_mset)
  have m: "mset (map f kvs') = mset (map f kvs)" for f :: "pykey \<times> pyval \<Rightarrow> 'z"
    using assms(1) by simp
  have "sum_list (map f kvs') = sum_list (map f kvs)" for f :: "pykey \<times> pyval \<Rightarrow> nat"
    using m [of f] by (metis sum_mset_sum_list)
  then show thesis
    using that assms(2) s m [of "\<lambda>p. fst (the (item_cost U d p))"] unfolding cost_items_alt
    by (auto split: if_splits)
qed

lemma nfc_idem:
  assumes "unicode_laws U" "nfc U c s = Inr t"
  shows "nfc U c' t = Inr t"
  using assms by (auto simp: nfc_def unicode_laws_def Let_def split: if_splits)

definition normal_keys :: "unicode \<Rightarrow> (ustr \<times> json) list \<Rightarrow> bool" where
  "normal_keys U fs \<longleftrightarrow> distinct (map fst fs) \<and> (\<forall>p \<in> set fs. nfc U ''invalid_string'' (fst p) = Inr (fst p))"

lemma normalized_fields_normal:
  "normal_keys U (acc @ fs) \<Longrightarrow> normalized_fields U acc fs = Inr (acc @ filter (\<lambda>p. snd p \<noteq> JAbsent) fs)"
proof (induction fs arbitrary: acc)
  case (Cons p fs)
  obtain k i where p: "p = (k, i)" by fastforce
  have "normal_keys U ((acc @ [p]) @ fs)" "normal_keys U (acc @ fs)"
    using Cons.prems by (auto simp: normal_keys_def)
  then show ?case using Cons p by (auto simp: normal_keys_def)
qed simp

lemma sort_key_perm:
  assumes "mset xs = mset ys" "distinct (map fst xs)"
  shows "sort_key fst xs = sort_key fst ys"
proof (rule sort_key_inj_key_eq)
  show "inj_on fst (set xs)" using assms(2) by (simp add: distinct_map)
  show "mset xs = mset (sort_key fst ys)" using assms(1) by simp
qed simp

lemma encode_perm:
  assumes "normal_keys U fs" "mset fs' = mset fs"
  shows "encode_canonical U (JObj fs') = encode_canonical U (JObj fs)"
proof -
  have "set fs' = set fs" "distinct (map fst fs')"
    using assms by (metis set_mset_mset, metis mset_map normal_keys_def mset_eq_imp_distinct_iff)
  then have n: "normal_keys U fs'" using assms(1) by (simp add: normal_keys_def)
  let ?g = "filter (\<lambda>p. snd p \<noteq> JAbsent)"
  have "sort_key fst (?g fs') = sort_key fst (?g fs)"
    by (rule sort_key_perm) (use assms(2) n in \<open>auto simp: normal_keys_def distinct_map inj_on_def\<close>)
  then show ?thesis
    using normalized_fields_normal [of U "[]" fs] normalized_fields_normal [of U "[]" fs'] n assms(1)
    by (simp only: encode_canonical.simps append_Nil bindE_simps)
qed

lemma item_cost_key:
  "unicode_laws U \<Longrightarrow> item_cost U d p = Some ((k, j), w) \<Longrightarrow> nfc U ''invalid_string'' k = Inr k"
  by (auto simp: item_cost_def split: pykey.splits sum.splits option.splits intro: nfc_idem)

lemma cost_items_normal:
  assumes "unicode_laws U" "cost_items U d kvs = Some (fs, w)" "distinct (map fst fs)"
  shows "normal_keys U fs"
proof -
  have "nfc U ''invalid_string'' (fst q) = Inr (fst q)" if q: "q \<in> set fs" for q
  proof -
    obtain p where p: "p \<in> set kvs" "item_cost U d p \<noteq> None" "q = fst (the (item_cost U d p))"
      using q assms(2) unfolding cost_items_alt by (auto split: if_splits)
    then obtain k j w where "item_cost U d p = Some ((k, j), w)" by auto
    then show ?thesis using item_cost_key [OF assms(1)] p(3) by simp
  qed
  then show ?thesis using assms(3) by (simp add: normal_keys_def)
qed

lemma canonical_json_perm:
  assumes "unicode_laws U" "unshared (PMap i kvs)" "mset kvs' = mset kvs" "canonical_json U (PMap i kvs) = Inr b"
  shows "canonical_json U (PMap i kvs') = Inr b"
proof -
  obtain j where j: "snapshot_value U (PMap i kvs) = Inr j"
    using assms(4) by (auto simp: canonical_json_def bindE_Inr_iff)
  then obtain w where w: "w \<le> MAX_INPUT_BYTES" "cost U 0 (PMap i kvs) = Some (j, w)"
    using snapshot_iff_cost [OF assms(2)] by blast
  then obtain fs v where fs: "cost_items U 0 kvs = Some (fs, v)" "distinct (map fst fs)" "j = JObj fs" "w = 2 + v"
    and len: "length kvs \<le> MAX_OBJECT_KEYS"
    by (auto split: if_splits option.splits)
  obtain gs where gs: "cost_items U 0 kvs' = Some (gs, v)" "mset gs = mset fs"
    using cost_items_perm [OF assms(3) fs(1)] .
  have "distinct (map fst gs)" using gs(2) fs(2) by (metis mset_map mset_eq_imp_distinct_iff)
  moreover have "length kvs' = length kvs" using assms(3) by (metis size_mset)
  ultimately have "cost U 0 (PMap i kvs') = Some (JObj gs, w)"
    using gs(1) fs len by (simp add: MAX_NESTING_DEPTH_def)
  moreover have "unshared (PMap i kvs')"
  proof -
    have "mset (oids (PMap i kvs')) = mset (oids (PMap i kvs))"
      using assms(3) by (simp add: mset_concat_map)
    then show ?thesis using assms(2) unfolding unshared_def by (metis mset_eq_imp_distinct_iff)
  qed
  ultimately have s: "snapshot_value U (PMap i kvs') = Inr (JObj gs)"
    using w(1) snapshot_iff_cost by blast
  have "encode_canonical U (JObj gs) = encode_canonical U (JObj fs)"
    using encode_perm [OF cost_items_normal [OF assms(1) fs(1,2)] gs(2)] .
  then show ?thesis
    using assms(4) j s fs(3) by (simp only: canonical_json_def bindE_simps)
qed

section \<open>Nesting\<close>

primrec json_depth :: "json \<Rightarrow> nat" where
  "json_depth JAbsent = 0"
| "json_depth JNull = 0"
| "json_depth (JBool b) = 0"
| "json_depth (JStr s) = 0"
| "json_depth (JInt i) = 0"
| "json_depth (JDec v) = 0"
| "json_depth (JObj kvs) = Suc (foldr max (map snd (map (map_prod id json_depth) kvs)) 0)"
| "json_depth (JArr xs) = Suc (foldr max (map json_depth xs) 0)"

lemma foldr_max_le: "foldr max xs (0::nat) \<le> n \<longleftrightarrow> (\<forall>x \<in> set xs. x \<le> n)"
  by (induction xs) auto

lemma cost_depth:
  "d \<le> MAX_NESTING_DEPTH \<Longrightarrow> cost U d v = Some (j, w) \<Longrightarrow> d + json_depth j \<le> MAX_NESTING_DEPTH"
  "d < MAX_NESTING_DEPTH \<Longrightarrow> cost_items U d kvs = Some (fs, w) \<Longrightarrow> \<forall>p \<in> set fs. d + 1 + json_depth (snd p) \<le> MAX_NESTING_DEPTH"
  "d < MAX_NESTING_DEPTH \<Longrightarrow> cost_seq U d xs = Some (js, w) \<Longrightarrow> \<forall>x \<in> set js. d + 1 + json_depth x \<le> MAX_NESTING_DEPTH"
proof (induction U d v and U d kvs and U d xs arbitrary: j w and fs w and js w rule: cost_cost_items_cost_seq.induct)
  case (9 U d i kvs)
  then obtain fs v where c: "cost_items U d kvs = Some (fs, v)" "j = JObj fs" "d < MAX_NESTING_DEPTH"
    by (auto split: if_splits option.splits)
  have "\<not> (d \<ge> MAX_NESTING_DEPTH \<or> length kvs > MAX_OBJECT_KEYS)" using 9(3) by (auto split: if_splits)
  note 9(1) [OF this c(3,1)]
  then have "\<forall>p \<in> set fs. json_depth (snd p) \<le> MAX_NESTING_DEPTH - Suc d" by auto
  then have "foldr max (map snd (map (map_prod id json_depth) fs)) 0 \<le> MAX_NESTING_DEPTH - Suc d"
    by (subst foldr_max_le) (auto simp: comp_def)
  then show ?case using c by simp
next
  case (10 U d i xs)
  then obtain js v where c: "cost_seq U d xs = Some (js, v)" "j = JArr js" "d < MAX_NESTING_DEPTH"
    by (auto split: if_splits option.splits)
  have "\<not> (d \<ge> MAX_NESTING_DEPTH \<or> length xs > MAX_ARRAY_ITEMS)" using 10(3) by (auto split: if_splits)
  note 10(1) [OF this c(3,1)]
  then have "\<forall>p \<in> set js. json_depth p \<le> MAX_NESTING_DEPTH - Suc d" by auto
  then have "foldr max (map json_depth js) 0 \<le> MAX_NESTING_DEPTH - Suc d"
    by (subst foldr_max_le) auto
  then show ?case using c by simp
next
  case (12 U d rk child kvs)
  obtain raw key j w1 gs w2 where rk: "rk = KStr raw" and n: "nfc U ''invalid_string'' raw = Inr key"
    and c: "cost U (d + 1) child = Some (j, w1)" "cost_items U d kvs = Some (gs, w2)" and fs: "fs = (key, j) # gs"
    using 12(4) by (auto split: pykey.splits sum.splits option.splits)
  have d: "d + 1 \<le> MAX_NESTING_DEPTH" using 12(3) by simp
  have "d + 1 + json_depth j \<le> MAX_NESTING_DEPTH" by (rule 12(1) [OF rk n d c(1)])
  moreover have "\<forall>p \<in> set gs. d + 1 + json_depth (snd p) \<le> MAX_NESTING_DEPTH"
    by (rule 12(2) [OF rk n c(1) refl 12(3) c(2)])
  ultimately show ?case unfolding fs by simp
next
  case (14 U d x xs)
  obtain j w1 gs w2 where c: "cost U (d + 1) x = Some (j, w1)" "cost_seq U d xs = Some (gs, w2)" and js: "js = j # gs"
    using 14(4) by (auto split: option.splits)
  have d: "d + 1 \<le> MAX_NESTING_DEPTH" using 14(3) by simp
  have "d + 1 + json_depth j \<le> MAX_NESTING_DEPTH" by (rule 14(1) [OF d c(1)])
  moreover have "\<forall>p \<in> set gs. d + 1 + json_depth p \<le> MAX_NESTING_DEPTH"
    by (rule 14(2) [OF c(1) refl 14(3) c(2)])
  ultimately show ?case unfolding js by simp
qed (auto split: sum.splits)

fun chain :: "nat \<Rightarrow> nat list \<Rightarrow> pyval \<Rightarrow> pyval" where
  "chain k [] v = v"
| "chain k (n # ns) v = PSeq [k, n] [chain k ns v]"

definition shared_example :: pyval where
  "shared_example =
    (let ns = [1,2,3,4,5,6,7,8,9,10,11,12,13,14,15,16,17]; inner = chain 1 ns PNone
     in PSeq [0] [inner, chain 2 ns inner])"

lemma shared_accepted: "\<exists>j. snapshot_value U shared_example = Inr j \<and> json_depth j = 35"
  by (simp add: shared_example_def snapshot_value_def charge_def finish_def MAX_INPUT_BYTES_def
      MAX_NESTING_DEPTH_def MAX_ARRAY_ITEMS_def Let_def)

section \<open>Properties\<close>

text \<open>
  C8: For a value without shared containers the memoised, budgeted snapshot is
  the plain traversal: it succeeds exactly when the traversal is defined and
  its total charge is within the byte limit, and with the same result.
\<close>

theorem snapshot_reference:
  assumes "unshared v"
  shows "snapshot_value U v = Inr j \<longleftrightarrow> (\<exists>w \<le> MAX_INPUT_BYTES. cost U 0 v = Some (j, w))"
  using assms by (rule snapshot_iff_cost)

theorem snapshot_reference_witness:
  "unshared (PSeq [0] [PBool True, PNone]) \<and>
   snapshot_value plain_unicode (PSeq [0] [PBool True, PNone]) = Inr (JArr [JBool True, JNull])"
proof -
  have u: "unshared (PSeq [0] [PBool True, PNone])" by (simp add: unshared_def)
  have "cost plain_unicode 0 (PSeq [0] [PBool True, PNone]) = Some (JArr [JBool True, JNull], 14)"
    by (simp add: MAX_NESTING_DEPTH_def MAX_ARRAY_ITEMS_def)
  moreover have "14 \<le> MAX_INPUT_BYTES" by (simp add: MAX_INPUT_BYTES_def)
  ultimately show ?thesis using snapshot_reference [OF u] u by blast
qed

text \<open>
  The canonical bytes of an object do not depend on the order in which its
  members were inserted (for a value without shared containers).
\<close>

theorem canonical_json_member_order:
  assumes "unicode_laws U" "unshared (PMap i kvs)" "mset kvs' = mset kvs" "canonical_json U (PMap i kvs) = Inr b"
  shows "canonical_json U (PMap i kvs') = Inr b"
  using assms by (rule canonical_json_perm)

theorem canonical_json_member_order_witness:
  "canonical_json plain_unicode (PMap [0] [(KStr [99], PAbsent), (KStr [97], PNone), (KStr [98], PBool True)]) =
   Inr (lit ''{\"a\":null,\"b\":true}'')"
  by (rule canonical_json_member_order [OF plain_unicode_laws _ _ doc_examples(1) [unfolded doc_left_def]])
    (simp_all add: unshared_def)

text \<open>
  A snapshot of a value without shared containers is nested at most 32
  deep.
\<close>

theorem snapshot_nesting_bound:
  assumes "unshared v" "snapshot_value U v = Inr j"
  shows "json_depth j \<le> MAX_NESTING_DEPTH"
proof -
  obtain w where "cost U 0 v = Some (j, w)" using snapshot_iff_cost [OF assms(1)] assms(2) by blast
  then show ?thesis using cost_depth(1) [of 0 U v j w] by simp
qed

theorem snapshot_nesting_bound_witness:
  "unshared (PSeq [0] [PNone]) \<and> snapshot_value plain_unicode (PSeq [0] [PNone]) = Inr (JArr [JNull]) \<and>
   json_depth (JArr [JNull]) \<le> MAX_NESTING_DEPTH"
proof -
  have "unshared (PSeq [0] [PNone])" "snapshot_value plain_unicode (PSeq [0] [PNone]) = Inr (JArr [JNull])"
    by (simp_all add: unshared_def json_eval)
  then show ?thesis using snapshot_nesting_bound by blast
qed


end
