(* ===== verification/Canonical_Path.thy ===== *)
theory Canonical_Path
  imports Canonical_Numbers
begin

text \<open>
  Lexical path canonicalisation of \<open>protocol/reference/canonicalize.py\<close>
  (\<open>canonicalize_path\<close>).  The result is always an absolute path of clean
  segments, it is its own canonical form, and resolving against a working
  directory is resolving against the canonical form of that directory.
\<close>

section \<open>Combining paths\<close>

definition slash :: nat where "slash = 47"

text \<open>\<open>posixpath.join\<close> of two components.\<close>

definition posix_join :: "ustr \<Rightarrow> ustr \<Rightarrow> ustr" where
  "posix_join a b =
    (if b \<noteq> [] \<and> hd b = slash then b
     else if a = [] \<or> last a = slash then a @ b
     else a @ [slash] @ b)"

section \<open>The canonical path\<close>

fun walk :: "ustr list \<Rightarrow> ustr list \<Rightarrow> ustr list" where
  "walk parts [] = parts"
| "walk parts (p # ps) =
    (if p = [] \<or> p = lit ''.'' then walk parts ps
     else if p = lit ''..'' then walk (if parts = [] then parts else butlast parts) ps
     else walk (parts @ [p]) ps)"

definition canonicalize_path :: "unicode \<Rightarrow> ustr \<Rightarrow> ustr \<Rightarrow> code + ustr" where
  "canonicalize_path U path cwd =
    bindE (nfc U ''invalid_path'' path) (\<lambda>normalized_path.
    bindE (nfc U ''invalid_path'' cwd) (\<lambda>normalized_cwd.
      if 0 \<in> set normalized_path \<or> 0 \<in> set normalized_cwd then Inl ''invalid_path''
      else if 92 \<in> set normalized_path \<or> 92 \<in> set normalized_cwd then Inl ''unsupported_path_syntax''
      else if \<not> (normalized_cwd \<noteq> [] \<and> hd normalized_cwd = slash) then Inl ''cwd_not_absolute''
      else let combined = (if normalized_path \<noteq> [] \<and> hd normalized_path = slash then normalized_path
                           else posix_join normalized_cwd normalized_path)
        in Inr (slash # join_parts slash (walk [] (split_on slash combined)))))"

section \<open>Clean segments\<close>

definition clean :: "ustr \<Rightarrow> bool" where
  "clean p \<longleftrightarrow> p \<noteq> [] \<and> p \<noteq> lit ''.'' \<and> p \<noteq> lit ''..'' \<and> slash \<notin> set p"

lemma walk_append: "walk parts (ps @ qs) = walk (walk parts ps) qs"
  by (induction parts ps rule: walk.induct) auto

lemma walk_clean:
  "list_all clean parts \<Longrightarrow> list_all (\<lambda>p. slash \<notin> set p) ps \<Longrightarrow> list_all clean (walk parts ps)"
proof (induction parts ps rule: walk.induct)
  case (2 parts p ps)
  have b: "list_all clean (butlast parts)"
    using 2(4) by (auto simp: list_all_iff dest: in_set_butlastD)
  have ps: "list_all (\<lambda>p. slash \<notin> set p) ps" "slash \<notin> set p"
    using 2(5) by simp_all
  consider "p = [] \<or> p = lit ''.''" | "p \<noteq> []" "p \<noteq> lit ''.''" "p = lit ''..''" | "p \<noteq> []" "p \<noteq> lit ''.''" "p \<noteq> lit ''..''"
    by blast
  then show ?case
  proof cases
    case 1
    then show ?thesis using 2(1) [OF _ 2(4) ps(1)] by simp
  next
    case 2
    then show ?thesis using "2.IH"(2) b ps(1) "2.prems"(1) by simp
  next
    case 3
    then have "clean p" using ps(2) by (simp add: clean_def)
    then have "list_all clean (parts @ [p])" using "2.prems"(1) by simp
    then show ?thesis using "2.IH"(3) 3 ps(1) by simp
  qed
qed simp

lemma walk_of_clean: "list_all clean ps \<Longrightarrow> walk parts ps = parts @ ps"
  by (induction ps arbitrary: parts) (auto simp: clean_def)

lemma walk_split_clean: "list_all clean (walk [] (split_on slash s))"
  by (rule walk_clean) (auto simp: list_all_iff split_on_no_sep)

lemma walk_rendered:
  "list_all clean ps \<Longrightarrow> walk [] (split_on slash (slash # join_parts slash ps)) = ps"
  by (cases "ps = []") (auto simp: split_join walk_of_clean list_all_iff clean_def)

lemma walk_absolute: "walk parts (split_on slash (slash # s)) = walk parts (split_on slash s)"
  by simp

lemma walk_join:
  "a \<noteq> [] \<Longrightarrow> b = [] \<or> hd b \<noteq> slash \<Longrightarrow>
   walk [] (split_on slash (posix_join a b)) = walk (walk [] (split_on slash a)) (split_on slash b)"
proof -
  assume a: "a \<noteq> []" and b: "b = [] \<or> hd b \<noteq> slash"
  show ?thesis
  proof (cases "last a = slash")
    case True
    then obtain c where c: "a = c @ [slash]" using a by (metis append_butlast_last_id)
    have "split_on slash a = split_on slash c @ [[]]" using split_on_append [of slash c "[]"] c by simp
    then show ?thesis
      using c b split_on_append [of slash c b] by (auto simp: posix_join_def walk_append)
  next
    case False
    then show ?thesis
      using a b split_on_append [of slash a b] by (auto simp: posix_join_def walk_append)
  qed
qed

lemma canonicalize_path_result:
  assumes "canonicalize_path U path cwd = Inr r"
  obtains ps where "r = slash # join_parts slash ps" "list_all clean ps"
  using assms walk_split_clean by (auto simp: canonicalize_path_def Let_def elim!: bindE_InrE split: if_splits)

lemma walk_chars: "p \<in> set (walk parts ps) \<Longrightarrow> p \<in> set parts \<or> p \<in> set ps"
proof (induction parts ps rule: walk.induct)
  case (2 parts p' ps)
  then show ?case by (auto split: if_splits dest: in_set_butlastD)
qed simp

lemma canonicalize_path_chars:
  assumes "canonicalize_path U path cwd = Inr r"
  shows "0 \<notin> set r" "92 \<notin> set r"
proof -
  obtain s where s: "r = slash # join_parts slash (walk [] (split_on slash s))" "0 \<notin> set s" "92 \<notin> set s"
    using assms
    by (auto simp: canonicalize_path_def Let_def posix_join_def slash_def elim!: bindE_InrE split: if_splits)
  have "x \<in> set r \<Longrightarrow> x = slash \<or> x \<in> set s" for x
    unfolding s(1) by (auto dest!: join_parts_chars walk_chars split_on_chars)
  from this [of 0] this [of 92] show "0 \<notin> set r" "92 \<notin> set r" using s(2,3) by (auto simp: slash_def)
qed

section \<open>Properties\<close>

text \<open>
  C16: A canonical path is absolute and consists of clean segments only: no
  empty, \<open>.\<close> or \<open>..\<close> segment is left, no segment contains a slash, and neither
  NUL nor backslash occurs.
\<close>

theorem canonical_path_clean:
  assumes "canonicalize_path U path cwd = Inr r"
  shows "hd r = slash \<and> list_all (\<lambda>p. p \<noteq> lit ''.'' \<and> p \<noteq> lit ''..'') (split_on slash r) \<and>
    (r = [slash] \<or> [] \<notin> set (tl (split_on slash r))) \<and> 0 \<notin> set r \<and> 92 \<notin> set r"
proof -
  obtain ps where r: "r = slash # join_parts slash ps" and ps: "list_all clean ps"
    by (rule canonicalize_path_result [OF assms])
  have "split_on slash r = (if ps = [] then [[], []] else [] # ps)"
    using r ps split_join [of slash ps] by (auto simp: list_all_iff clean_def)
  moreover have "hd r = slash" "r = [slash] \<longleftrightarrow> join_parts slash ps = []" using r by simp_all
  moreover have "list_all (\<lambda>p. p \<noteq> lit ''.'' \<and> p \<noteq> lit ''..'') ps" "[] \<notin> set ps"
    using ps by (auto simp: list_all_iff clean_def)
  ultimately show ?thesis
    using canonicalize_path_chars [OF assms] r by (cases "ps = []") simp_all
qed

lemma path_example:
  "canonicalize_path plain_unicode (lit ''../b/./c'') (lit ''/srv/a/'') = Inr (lit ''/srv/b/c'')"
  by (simp add: canonicalize_path_def nfc_def plain_unicode_def lit_def slash_def posix_join_def Let_def
      utf8_len_def utf8_char_def is_surrogate_def MAX_STRING_BYTES_def)

theorem canonical_path_clean_witness:
  "canonicalize_path plain_unicode (lit ''../b/./c'') (lit ''/srv/a/'') = Inr (lit ''/srv/b/c'') \<and>
   hd (lit ''/srv/b/c'') = slash"
  using canonical_path_clean [OF path_example] path_example by simp

text \<open>
  Canonicalisation is idempotent: a canonical path that is itself normalised
  text is its own canonical form, whatever the working directory.
\<close>

theorem canonical_path_idempotent:
  assumes "canonicalize_path U path cwd = Inr r" "nfc U ''invalid_path'' r = Inr r"
    and "canonicalize_path U other cwd2 = Inr r2"
  shows "canonicalize_path U r cwd2 = Inr r"
proof -
  obtain ps where r: "r = slash # join_parts slash ps" and ps: "list_all clean ps"
    by (rule canonicalize_path_result [OF assms(1)])
  obtain c where "nfc U ''invalid_path'' cwd2 = Inr c" "0 \<notin> set c" "92 \<notin> set c" "c \<noteq> []" "hd c = slash"
    using assms(3) by (auto simp: canonicalize_path_def elim!: bindE_InrE split: if_splits)
  then show ?thesis
    using assms(2) canonicalize_path_chars [OF assms(1)] walk_rendered [OF ps] r
    by (simp add: canonicalize_path_def Let_def)
qed

lemma path_example_nfc: "nfc plain_unicode ''invalid_path'' (lit ''/srv/b/c'') = Inr (lit ''/srv/b/c'')"
  by (simp add: nfc_def plain_unicode_def lit_def utf8_len_def utf8_char_def is_surrogate_def MAX_STRING_BYTES_def)

theorem canonical_path_idempotent_witness:
  "canonicalize_path plain_unicode (lit ''/srv/b/c'') (lit ''/srv/a/'') = Inr (lit ''/srv/b/c'')"
  by (rule canonical_path_idempotent [OF path_example path_example_nfc path_example])

text \<open>
  Resolving a relative path against a working directory is resolving it
  against the canonical form of that directory.
\<close>

theorem canonical_path_compositional:
  assumes "canonicalize_path U cwd cwd = Inr d" "nfc U ''invalid_path'' d = Inr d"
    and "nfc U ''invalid_path'' path = Inr p" "p = [] \<or> hd p \<noteq> slash"
  shows "canonicalize_path U path cwd = canonicalize_path U path d"
proof -
  obtain c where c: "nfc U ''invalid_path'' cwd = Inr c" "0 \<notin> set c" "92 \<notin> set c" "c \<noteq> []" "hd c = slash"
    and d: "d = slash # join_parts slash (walk [] (split_on slash c))"
    using assms(1) by (auto simp: canonicalize_path_def Let_def elim!: bindE_InrE split: if_splits)
  have w: "walk [] (split_on slash d) = walk [] (split_on slash c)"
    unfolding d by (rule walk_rendered [OF walk_split_clean])
  show ?thesis
    using assms(2,3,4) c canonicalize_path_chars [OF assms(1)] w
      walk_join [of c p] walk_join [of d p] d
    by (auto simp: canonicalize_path_def Let_def)
qed

lemma cwd_example:
  "canonicalize_path plain_unicode (lit ''/srv/a/'') (lit ''/srv/a/'') = Inr (lit ''/srv/a'')"
  "nfc plain_unicode ''invalid_path'' (lit ''/srv/a'') = Inr (lit ''/srv/a'')"
  "nfc plain_unicode ''invalid_path'' (lit ''../b/./c'') = Inr (lit ''../b/./c'')"
  by (simp_all add: canonicalize_path_def nfc_def plain_unicode_def lit_def slash_def posix_join_def Let_def
      utf8_len_def utf8_char_def is_surrogate_def MAX_STRING_BYTES_def)

theorem canonical_path_compositional_witness:
  "canonicalize_path plain_unicode (lit ''../b/./c'') (lit ''/srv/a/'') =
   canonicalize_path plain_unicode (lit ''../b/./c'') (lit ''/srv/a'')"
  by (rule canonical_path_compositional [OF cwd_example]) (simp add: lit_def slash_def)

end
