(* ===== verification/Wire_Limits.thy ===== *)
theory Wire_Limits
  imports Canonical_Json
begin

text \<open>
  Resource limits on wire documents in
  \<open>python/src/palonexus/_generated/protocol.py\<close>: the scan of the raw text
  before it is parsed (\<open>_preflight_wire\<close>) and the walk over the parsed value
  (\<open>_validate_memory_limits\<close>).  The walk keeps an explicit stack; it is shown to
  terminate and to accept exactly the values within the limits.
\<close>

section \<open>Limits\<close>

definition MAX_WIRE_BYTES :: nat where "MAX_WIRE_BYTES = 65536"
definition MAX_NESTING :: nat where "MAX_NESTING = 32"
definition MAX_NODES :: nat where "MAX_NODES = 4096"
definition MAX_COLLECTION_ITEMS :: nat where "MAX_COLLECTION_ITEMS = 1024"
definition MAX_WIRE_STRING_BYTES :: nat where "MAX_WIRE_STRING_BYTES = 8192"
definition MAX_NUMERIC_TOKEN_BYTES :: nat where "MAX_NUMERIC_TOKEN_BYTES = 512"

section \<open>The walk over a parsed value\<close>

definition utf8_length :: "ustr \<Rightarrow> code + nat" where
  "utf8_length s = (if scalars s then Inr (utf8_len s) else Inl ''invalid_utf8'')"

definition string_within :: "ustr \<Rightarrow> code + unit" where
  "string_within s =
    bindE (utf8_length s) (\<lambda>n. if n > MAX_WIRE_STRING_BYTES then Inl ''string_too_large'' else Inr ())"

fun keys_within :: "(ustr \<times> json) list \<Rightarrow> code + unit" where
  "keys_within [] = Inr ()"
| "keys_within ((k, _) # kvs) = bindE (string_within k) (\<lambda>_. keys_within kvs)"

lemma members_size: "sum_list (map (\<lambda>p. Suc (size (snd p))) kvs) < size (JObj kvs)"
  by (induction kvs) auto

lemma items_size: "sum_list (map (\<lambda>x. Suc (size x)) xs) < size (JArr xs)"
  by (induction xs) auto

lemma sum_list_rev_map: "sum_list (map f (rev xs)) = (sum_list (map f xs) :: nat)"
  by (simp add: rev_map [symmetric])

function limits_loop :: "(json \<times> nat) list \<Rightarrow> nat \<Rightarrow> code + unit" where
  "limits_loop [] nodes = Inr ()"
| "limits_loop ((child, depth) # pending) nodes =
    (if nodes + 1 > MAX_NODES then Inl ''node_limit_exceeded''
     else if depth > MAX_NESTING then Inl ''nesting_too_deep''
     else case child of
       JObj kvs \<Rightarrow>
         if length kvs > MAX_COLLECTION_ITEMS then Inl ''collection_limit_exceeded''
         else bindE (keys_within kvs) (\<lambda>_.
           limits_loop (map (\<lambda>p. (snd p, depth + 1)) (rev kvs) @ pending) (nodes + 1))
     | JArr xs \<Rightarrow>
         if length xs > MAX_COLLECTION_ITEMS then Inl ''collection_limit_exceeded''
         else limits_loop (map (\<lambda>x. (x, depth + 1)) (rev xs) @ pending) (nodes + 1)
     | JStr s \<Rightarrow> bindE (string_within s) (\<lambda>_. limits_loop pending (nodes + 1))
     | _ \<Rightarrow> limits_loop pending (nodes + 1))"
  by pat_completeness auto
termination
proof (relation "measure (\<lambda>(pending, _). sum_list (map (\<lambda>p. Suc (size (fst p))) pending))")
  fix child :: json and depth nodes :: nat and pending :: "(json \<times> nat) list" and kvs and u :: unit
  assume "child = JObj kvs"
  then show "((map (\<lambda>p. (snd p, depth + 1)) (rev kvs) @ pending, nodes + 1), (child, depth) # pending, nodes)
      \<in> measure (\<lambda>(pending, _). sum_list (map (\<lambda>p. Suc (size (fst p))) pending))"
    using members_size [of kvs] by (simp add: comp_def sum_list_rev_map)
next
  fix child :: json and depth nodes :: nat and pending :: "(json \<times> nat) list" and xs
  assume "child = JArr xs"
  then show "((map (\<lambda>x. (x, depth + 1)) (rev xs) @ pending, nodes + 1), (child, depth) # pending, nodes)
      \<in> measure (\<lambda>(pending, _). sum_list (map (\<lambda>p. Suc (size (fst p))) pending))"
    using items_size [of xs] by (simp add: comp_def sum_list_rev_map)
qed auto

definition validate_memory_limits :: "json \<Rightarrow> code + unit" where
  "validate_memory_limits v = limits_loop [(v, 0)] 0"

section \<open>The scan of the raw text\<close>

definition is_open :: "nat \<Rightarrow> bool" where "is_open c \<longleftrightarrow> c = 91 \<or> c = 123"
definition is_close :: "nat \<Rightarrow> bool" where "is_close c \<longleftrightarrow> c = 93 \<or> c = 125"
definition number_tail :: "nat \<Rightarrow> bool" where
  "number_tail c \<longleftrightarrow> is_digit c \<or> c = 46 \<or> c = 101 \<or> c = 69 \<or> c = 43 \<or> c = 45"

text \<open>The loop over the text; the flags are \<open>in_string\<close> and \<open>escaped\<close>.\<close>

function (sequential) scan :: "ustr \<Rightarrow> nat \<Rightarrow> bool \<Rightarrow> bool \<Rightarrow> code + unit" where
  "scan [] depth in_string escaped =
    (if in_string \<or> depth \<noteq> 0 then Inl ''invalid_json'' else Inr ())"
| "scan (c # cs) depth True escaped =
    (if escaped then scan cs depth True False
     else if c = 92 then scan cs depth True True
     else if c = 34 then scan cs depth False False
     else scan cs depth True False)"
| "scan (c # cs) depth False escaped =
    (if c = 34 then scan cs depth True escaped
     else if is_open c then
       (if depth + 1 > MAX_NESTING then Inl ''nesting_too_deep'' else scan cs (depth + 1) False escaped)
     else if is_close c then
       (if depth = 0 then Inl ''invalid_json'' else scan cs (depth - 1) False escaped)
     else if c = 45 \<or> is_digit c then
       (if utf8_len (c # takeWhile number_tail cs) > MAX_NUMERIC_TOKEN_BYTES then Inl ''numeric_token_too_long''
        else scan (dropWhile number_tail cs) depth False escaped)
     else scan cs depth False escaped)"
  by pat_completeness auto
termination
  by (relation "measure (\<lambda>(cs, _, _, _). length cs)") (auto simp: le_imp_less_Suc length_dropWhile_le)

definition preflight_wire :: "ustr \<Rightarrow> code + ustr" where
  "preflight_wire text =
    (if \<not> scalars text then Inl ''invalid_utf8''
     else if length (utf8 text) > MAX_WIRE_BYTES then Inl ''wire_too_large''
     else bindE (scan text 0 False False) (\<lambda>_. Inr text))"

section \<open>What the walk accepts\<close>

fun node_count :: "json \<Rightarrow> nat" where
  "node_count (JObj kvs) = Suc (sum_list (map (\<lambda>p. node_count (snd p)) kvs))"
| "node_count (JArr xs) = Suc (sum_list (map node_count xs))"
| "node_count v = 1"

fun inside :: "nat \<Rightarrow> json \<Rightarrow> bool" where
  "inside d (JObj kvs) \<longleftrightarrow>
    d \<le> MAX_NESTING \<and> length kvs \<le> MAX_COLLECTION_ITEMS \<and>
    (\<forall>p \<in> set kvs. isOk (string_within (fst p)) \<and> inside (d + 1) (snd p))"
| "inside d (JArr xs) \<longleftrightarrow>
    d \<le> MAX_NESTING \<and> length xs \<le> MAX_COLLECTION_ITEMS \<and> (\<forall>x \<in> set xs. inside (d + 1) x)"
| "inside d (JStr s) \<longleftrightarrow> d \<le> MAX_NESTING \<and> isOk (string_within s)"
| "inside d v \<longleftrightarrow> d \<le> MAX_NESTING"

lemma keys_within_iff: "isOk (keys_within kvs) \<longleftrightarrow> (\<forall>p \<in> set kvs. isOk (string_within (fst p)))"
proof (induction kvs rule: keys_within.induct)
  case (2 k v kvs)
  then show ?case by (cases "string_within k") auto
qed simp

lemma limits_loop_iff:
  "nodes \<le> MAX_NODES \<Longrightarrow>
   isOk (limits_loop pending nodes) \<longleftrightarrow>
   nodes + sum_list (map (\<lambda>p. node_count (fst p)) pending) \<le> MAX_NODES \<and> (\<forall>p \<in> set pending. inside (snd p) (fst p))"
proof (induction pending nodes rule: limits_loop.induct)
  case (2 child depth pending nodes)
  have pos: "1 \<le> node_count child" by (cases child) auto
  show ?case
  proof (cases "nodes + 1 \<le> MAX_NODES \<and> depth \<le> MAX_NESTING")
    case False
    then show ?thesis using pos by (cases child) auto
  next
    case True
    then have g: "\<not> nodes + 1 > MAX_NODES" "\<not> depth > MAX_NESTING" "nodes + 1 \<le> MAX_NODES" by auto
    show ?thesis
    proof (cases child)
      case (JObj kvs)
      show ?thesis
      proof (cases "length kvs \<le> MAX_COLLECTION_ITEMS \<and> isOk (keys_within kvs)")
        case False
        then have "\<not> isOk (limits_loop ((child, depth) # pending) nodes)"
          using JObj g by (cases "keys_within kvs") auto
        moreover have "\<not> inside depth child"
          using False JObj unfolding keys_within_iff by auto
        ultimately show ?thesis by simp
      next
        case ok: True
        then have n: "\<not> length kvs > MAX_COLLECTION_ITEMS" "keys_within kvs = Inr ()"
          by (auto simp: isOk_iff)
        note ih = "2.IH"(7) [OF g(1,2) JObj n g(3)]
        have s: "sum_list (map (\<lambda>p. node_count (fst p)) (map (\<lambda>p. (snd p, depth + 1)) (rev kvs))) =
            sum_list (map (\<lambda>p. node_count (snd p)) kvs)"
          by (simp add: comp_def sum_list_rev_map)
        have k: "\<forall>p \<in> set kvs. isOk (string_within (fst p))" using ok keys_within_iff by blast
        have "isOk (limits_loop ((child, depth) # pending) nodes) \<longleftrightarrow>
            isOk (limits_loop (map (\<lambda>p. (snd p, depth + 1)) (rev kvs) @ pending) (nodes + 1))"
          using JObj g n by simp
        then show ?thesis
          unfolding ih [unfolded map_append sum_list.append s set_append ball_Un] JObj using k ok True by auto
      qed
    next
      case (JArr xs)
      show ?thesis
      proof (cases "length xs \<le> MAX_COLLECTION_ITEMS")
        case False
        then show ?thesis using JArr g by auto
      next
        case True
        then have n: "\<not> length xs > MAX_COLLECTION_ITEMS" by simp
        note ih = "2.IH"(8) [OF g(1,2) JArr n g(3)]
        have s: "sum_list (map (\<lambda>p. node_count (fst p)) (map (\<lambda>x. (x, depth + 1)) (rev xs))) =
            sum_list (map node_count xs)"
          by (simp add: comp_def sum_list_rev_map)
        have "isOk (limits_loop ((child, depth) # pending) nodes) \<longleftrightarrow>
            isOk (limits_loop (map (\<lambda>x. (x, depth + 1)) (rev xs) @ pending) (nodes + 1))"
          using JArr g n by simp
        then show ?thesis
          unfolding ih [unfolded map_append sum_list.append s set_append ball_Un] JArr using True g by auto
      qed
    next
      case (JStr s)
      then show ?thesis using "2.IH"(4) [OF g(1,2) JStr _ g(3)] g by (cases "string_within s") auto
    qed (use 2 g in auto)
  qed
qed simp

lemma memory_limits_iff: "isOk (validate_memory_limits v) \<longleftrightarrow> node_count v \<le> MAX_NODES \<and> inside 0 v"
  unfolding validate_memory_limits_def by (subst limits_loop_iff) simp_all

lemma inside_mono: "inside e v \<Longrightarrow> d \<le> e \<Longrightarrow> inside d v"
proof (induction e v arbitrary: d rule: inside.induct)
  case (1 e kvs)
  then show ?case by auto
next
  case (2 e xs)
  then show ?case by auto
qed auto

lemma member_node_count: "p \<in> set kvs \<Longrightarrow> node_count (snd p) \<le> node_count (JObj kvs)"
  using member_le_sum_list [of "node_count (snd p)" "map (\<lambda>p. node_count (snd p)) kvs"] by auto

lemma memory_limits_member:
  assumes "isOk (validate_memory_limits (JObj kvs))" "p \<in> set kvs"
  shows "isOk (validate_memory_limits (snd p))"
  using assms inside_mono [of 1 "snd p" 0] member_node_count [OF assms(2)]
  by (auto simp: memory_limits_iff)

section \<open>What the scan guarantees\<close>

text \<open>Bracket depth outside strings after each character, with the state of the scan.\<close>

fun balance :: "ustr \<Rightarrow> nat \<Rightarrow> bool \<Rightarrow> bool \<Rightarrow> bool" where
  "balance [] depth in_string escaped \<longleftrightarrow> \<not> in_string \<and> depth = 0"
| "balance (c # cs) depth in_string escaped \<longleftrightarrow>
    depth \<le> MAX_NESTING \<and>
    (if in_string then
       (if escaped then balance cs depth True False
        else if c = 92 then balance cs depth True True
        else balance cs depth (c \<noteq> 34) False)
     else if c = 34 then balance cs depth True False
     else if is_open c then balance cs (Suc depth) False False
     else if is_close c then 0 < depth \<and> balance cs (depth - 1) False False
     else balance cs depth False False)"

lemma balance_skip:
  "list_all number_tail ts \<Longrightarrow> balance (ts @ cs) depth False False \<longleftrightarrow> (ts = [] \<or> depth \<le> MAX_NESTING) \<and> balance cs depth False False"
  by (induction ts) (auto simp: number_tail_def is_open_def is_close_def is_digit_def)

lemma scan_balance: "depth \<le> MAX_NESTING \<Longrightarrow> (escaped \<longrightarrow> in_string) \<Longrightarrow> isOk (scan cs depth in_string escaped) \<Longrightarrow> balance cs depth in_string escaped"
proof (induction cs depth in_string escaped rule: scan.induct)
  case (3 c cs depth escaped)
  have e: "\<not> escaped" using 3(7) by simp
  consider "c = 34" | "c \<noteq> 34" "is_open c" | "c \<noteq> 34" "\<not> is_open c" "is_close c"
    | "c \<noteq> 34" "\<not> is_open c" "\<not> is_close c" "c = 45 \<or> is_digit c"
    | "c \<noteq> 34" "\<not> is_open c" "\<not> is_close c" "\<not> (c = 45 \<or> is_digit c)" by blast
  then show ?case
  proof cases
    case 4
    have "balance (dropWhile number_tail cs) depth False False"
      using "3.IH"(4) [OF 4 _ "3.prems"(1)] "3.prems"(3) e 4 by (auto split: if_splits)
    moreover have "list_all number_tail (takeWhile number_tail cs)"
      by (auto simp: list_all_iff dest: set_takeWhileD)
    ultimately have "balance cs depth False False"
      using balance_skip [of "takeWhile number_tail cs" "dropWhile number_tail cs" depth] "3.prems"(1) by simp
    then show ?thesis using 4 e "3.prems"(1) by simp
  qed (use 3 e in \<open>auto split: if_splits\<close>)
qed (auto split: if_splits)

section \<open>Properties\<close>

text \<open>
  C18: The worklist walk over a document accepts exactly the values with at most
  4096 nodes, at most 32 levels, at most 1024 items per collection and well
  formed strings and keys of at most 8192 bytes.
\<close>

theorem memory_limits_reference:
  "isOk (validate_memory_limits v) \<longleftrightarrow> node_count v \<le> MAX_NODES \<and> inside 0 v"
  by (rule memory_limits_iff)


lemma preflight_example: "preflight_wire (lit ''{\"a]\":[-1]}'') = Inr (lit ''{\"a]\":[-1]}'')"
  by (simp add: preflight_wire_def lit_def is_surrogate_def utf8_char_def is_open_def is_close_def is_digit_def
      number_tail_def utf8_len_def MAX_WIRE_BYTES_def MAX_NESTING_def MAX_NUMERIC_TOKEN_BYTES_def)


end
