(* ===== verification/Wire_Strings.thy ===== *)
theory Wire_Strings
  imports Timestamps Wire_Limits
begin

text \<open>
  The validated wire strings of \<open>python/src/palonexus/_generated/protocol.py\<close>.
  Each class checks its value against a fragment of the JSON schemas under
  \<open>protocol/schemas/\<close>; here each pattern is an executable predicate on code
  points.  A trailing newline, which \<open>$\<close> lets through in Python, is excluded by
  the length limits and by \<open>safeText\<close> in every fragment that uses it.
\<close>

section \<open>Character classes\<close>

definition is_lower :: "nat \<Rightarrow> bool" where "is_lower c \<longleftrightarrow> 97 \<le> c \<and> c \<le> 122"
definition is_upper :: "nat \<Rightarrow> bool" where "is_upper c \<longleftrightarrow> 65 \<le> c \<and> c \<le> 90"
definition is_alnum :: "nat \<Rightarrow> bool" where "is_alnum c \<longleftrightarrow> is_lower c \<or> is_upper c \<or> is_digit c"
definition is_lower_alnum :: "nat \<Rightarrow> bool" where "is_lower_alnum c \<longleftrightarrow> is_lower c \<or> is_digit c"
definition is_hex :: "nat \<Rightarrow> bool" where "is_hex c \<longleftrightarrow> is_digit c \<or> (97 \<le> c \<and> c \<le> 102)"

text \<open>Crockford base 32 without I, L, O and U.\<close>

definition is_crockford :: "nat \<Rightarrow> bool" where
  "is_crockford c \<longleftrightarrow> is_digit c \<or> (is_upper c \<and> c \<noteq> 73 \<and> c \<noteq> 76 \<and> c \<noteq> 79 \<and> c \<noteq> 85)"

definition unsafe_char :: "nat \<Rightarrow> bool" where
  "unsafe_char c \<longleftrightarrow>
    c \<le> 31 \<or> (127 \<le> c \<and> c \<le> 159) \<or> c = 1564 \<or> c = 8206 \<or> c = 8207 \<or> (8232 \<le> c \<and> c \<le> 8238) \<or> (8294 \<le> c \<and> c \<le> 8297)"

section \<open>Patterns\<close>

definition safe_text :: "ustr \<Rightarrow> bool" where
  "safe_text s \<longleftrightarrow> \<not> list_ex unsafe_char s"

definition ulid_body :: "ustr \<Rightarrow> bool" where
  "ulid_body s \<longleftrightarrow> length s = 26 \<and> 48 \<le> hd s \<and> hd s \<le> 55 \<and> list_all is_crockford s"

definition prefixed_ulid :: "string \<Rightarrow> ustr \<Rightarrow> bool" where
  "prefixed_ulid p s \<longleftrightarrow> take (length p) s = lit p \<and> ulid_body (drop (length p) s)"

definition sha256_pattern :: "ustr \<Rightarrow> bool" where
  "sha256_pattern s \<longleftrightarrow> length s = 71 \<and> take 7 s = lit ''sha256:'' \<and> list_all is_hex (drop 7 s)"

definition timestamp_pattern :: "ustr \<Rightarrow> bool" where
  "timestamp_pattern s \<longleftrightarrow>
    list_all2 matches base_template (take 19 s) \<and>
    (case split_fraction (drop 19 s) of None \<Rightarrow> False | Some (f, z) \<Rightarrow> zone_shape z)"

text \<open>\<open>_is_rfc3339\<close>: a leap second is checked as second 59.\<close>

definition is_rfc3339 :: "ustr \<Rightarrow> bool" where
  "is_rfc3339 s \<longleftrightarrow>
    timestamp_pattern s \<and>
    (let seconds = num_at s 17 2; base = (if seconds = 60 then 59 else seconds);
         zone = drop (length s - 6) s in
     seconds \<le> 60 \<and>
     valid_date (num_at s 0 4) (num_at s 5 2) (num_at s 8 2) \<and>
     valid_time (num_at s 11 2) (num_at s 14 2) base \<and>
     (last s = 90 \<or> (num_at zone 1 2 \<le> 23 \<and> num_at zone 4 2 \<le> 59)))"

definition word_segments :: "(nat \<Rightarrow> bool) \<Rightarrow> ustr list \<Rightarrow> bool" where
  "word_segments P ps \<longleftrightarrow> list_all (\<lambda>p. p \<noteq> [] \<and> list_all P p) ps"

text \<open>\<open>^[a-z][a-z0-9]*(_[a-z0-9]+)*$\<close>, at most 128 safe characters.\<close>

definition reason_code_pattern :: "ustr \<Rightarrow> bool" where
  "reason_code_pattern s \<longleftrightarrow>
    length s \<le> 128 \<and> s \<noteq> [] \<and> is_lower (hd s) \<and> word_segments is_lower_alnum (split_on 95 s) \<and> safe_text s"

definition dns_label :: "ustr \<Rightarrow> bool" where
  "dns_label s \<longleftrightarrow>
    s \<noteq> [] \<and> length s \<le> 63 \<and> is_lower_alnum (hd s) \<and> is_lower_alnum (last s) \<and>
    list_all (\<lambda>c. is_lower_alnum c \<or> c = 45) s"

definition adapter_id_pattern :: "ustr \<Rightarrow> bool" where
  "adapter_id_pattern s \<longleftrightarrow> dns_label s \<and> safe_text s"

definition service_pattern :: "ustr \<Rightarrow> bool" where
  "service_pattern s \<longleftrightarrow> length s \<le> 253 \<and> list_all dns_label (split_on 46 s) \<and> safe_text s"

definition dot_segment :: "ustr \<Rightarrow> bool" where
  "dot_segment s \<longleftrightarrow> lit ''.'' \<in> set (split_on 47 s) \<or> lit ''..'' \<in> set (split_on 47 s)"

definition name_char :: "nat \<Rightarrow> bool" where
  "name_char c \<longleftrightarrow> is_alnum c \<or> c = 46 \<or> c = 95 \<or> c = 45"

definition token_char :: "nat \<Rightarrow> bool" where
  "token_char c \<longleftrightarrow> name_char c \<or> c = 126"

definition headed_token :: "(nat \<Rightarrow> bool) \<Rightarrow> (nat \<Rightarrow> bool) \<Rightarrow> ustr \<Rightarrow> bool" where
  "headed_token H P s \<longleftrightarrow> s \<noteq> [] \<and> length s \<le> 128 \<and> H (hd s) \<and> list_all P (tl s)"

definition principal_pattern :: "ustr \<Rightarrow> bool" where
  "principal_pattern s \<longleftrightarrow>
    (take 8 s = lit ''subject:'' \<or> take 8 s = lit ''service:'') \<and> headed_token is_alnum token_char (drop 8 s)"

definition policy_revision_pattern :: "ustr \<Rightarrow> bool" where
  "policy_revision_pattern s \<longleftrightarrow>
    length s \<le> 135 \<and> take 7 s = lit ''policy_'' \<and> headed_token is_alnum token_char (drop 7 s) \<and> safe_text s"

definition client_id_pattern :: "ustr \<Rightarrow> bool" where
  "client_id_pattern s \<longleftrightarrow>
    headed_token is_lower_alnum (\<lambda>c. is_lower_alnum c \<or> c = 46 \<or> c = 95 \<or> c = 45) s \<and> safe_text s"

subsection \<open>Semantic versions\<close>

definition numeric_id :: "ustr \<Rightarrow> bool" where
  "numeric_id s \<longleftrightarrow> s \<noteq> [] \<and> list_all is_digit s \<and> (hd s = 48 \<longrightarrow> length s = 1)"

definition ident_char :: "nat \<Rightarrow> bool" where
  "ident_char c \<longleftrightarrow> is_alnum c \<or> c = 45"

definition prerelease_id :: "ustr \<Rightarrow> bool" where
  "prerelease_id s \<longleftrightarrow> numeric_id s \<or> (list_all ident_char s \<and> list_ex (\<lambda>c. \<not> is_digit c) s)"

definition cut_at :: "nat \<Rightarrow> ustr \<Rightarrow> ustr \<times> ustr option" where
  "cut_at c s =
    (takeWhile (\<lambda>x. x \<noteq> c) s,
     case dropWhile (\<lambda>x. x \<noteq> c) s of [] \<Rightarrow> None | _ # r \<Rightarrow> Some r)"

definition semver_pattern :: "ustr \<Rightarrow> bool" where
  "semver_pattern s \<longleftrightarrow>
    (let (front, build) = cut_at 43 s; (core, pre) = cut_at 45 front; nums = split_on 46 core in
     length nums = 3 \<and> list_all numeric_id nums \<and>
     (case pre of None \<Rightarrow> True | Some p \<Rightarrow> list_all prerelease_id (split_on 46 p)) \<and>
     (case build of None \<Rightarrow> True | Some b \<Rightarrow> word_segments ident_char (split_on 46 b)))"

subsection \<open>Extensions\<close>

definition is_segment_sep :: "nat \<Rightarrow> bool" where "is_segment_sep c \<longleftrightarrow> c = 46 \<or> c = 45"

text \<open>\<open>^[a-z][a-z0-9]*([.-][a-z0-9]+)*\.v[1-9][0-9]*$\<close>: the version follows the last dot.\<close>

definition extension_key :: "ustr \<Rightarrow> bool" where
  "extension_key s \<longleftrightarrow>
    (let ps = split_on 46 s; v = last ps; front = butlast ps in
     length s \<le> 128 \<and> front \<noteq> [] \<and> is_lower (hd s) \<and>
     list_all (\<lambda>p. word_segments is_lower_alnum (split_on 45 p)) front \<and>
     v \<noteq> [] \<and> hd v = 118 \<and> tl v \<noteq> [] \<and> list_all is_digit (tl v) \<and> hd (tl v) \<noteq> 48 \<and> safe_text s)"

definition extension_property_name :: "ustr \<Rightarrow> bool" where
  "extension_property_name s \<longleftrightarrow> headed_token (\<lambda>c. is_lower c \<or> is_upper c) name_char s \<and> safe_text s"

definition extension_number :: "decimal \<Rightarrow> bool" where
  "extension_number v = (case v of DSpecial \<Rightarrow> False | Dec neg c e \<Rightarrow> dec_le (c, e) (1, 308))"

fun extension_value :: "json \<Rightarrow> bool" where
  "extension_value (JObj kvs) \<longleftrightarrow>
    length kvs \<le> 64 \<and> (\<forall>p \<in> set kvs. extension_property_name (fst p) \<and> extension_value (snd p))"
| "extension_value (JArr xs) \<longleftrightarrow> length xs \<le> 64 \<and> (\<forall>x \<in> set xs. extension_value x)"
| "extension_value (JStr s) \<longleftrightarrow> safe_text s \<and> length s \<le> 2048"
| "extension_value (JInt i) \<longleftrightarrow> extension_number (int_decimal i)"
| "extension_value (JDec v) \<longleftrightarrow> extension_number v"
| "extension_value (JBool b) \<longleftrightarrow> True"
| "extension_value v \<longleftrightarrow> False"

definition extensions_schema :: "json \<Rightarrow> bool" where
  "extensions_schema v \<longleftrightarrow>
    (case v of
       JObj kvs \<Rightarrow> length kvs \<le> 32 \<and> (\<forall>p \<in> set kvs. extension_key (fst p) \<and> extension_value (snd p))
     | _ \<Rightarrow> False)"

definition empty_extensions :: "json \<Rightarrow> bool" where
  "empty_extensions v \<longleftrightarrow> v = JObj []"

section \<open>Wire string classes\<close>

text \<open>
  \<open>str.__new__\<close> after \<open>_validate_fragment\<close>: the memory limits, then the
  fragment, which rejects everything that is not a string.
\<close>

definition wire_string :: "(ustr \<Rightarrow> bool) \<Rightarrow> json \<Rightarrow> code + ustr" where
  "wire_string ok v =
    bindE (validate_memory_limits v) (\<lambda>_.
      case v of JStr s \<Rightarrow> if ok s then Inr s else Inl ''schema_invalid'' | _ \<Rightarrow> Inl ''schema_invalid'')"

lemma wire_string_JStr:
  "isOk (validate_memory_limits (JStr s)) \<Longrightarrow> ok s \<Longrightarrow> wire_string ok (JStr s) = Inr s"
  by (auto simp: wire_string_def isOk_iff)

lemma wire_string_result: "wire_string ok v = Inr s \<Longrightarrow> v = JStr s \<and> ok s"
  by (auto simp: wire_string_def elim!: bindE_InrE split: json.splits if_splits)

definition SchemaVersion_ok :: "ustr \<Rightarrow> bool" where
  "SchemaVersion_ok s \<longleftrightarrow> s = lit ''1''"

definition SchemaVersion :: "json \<Rightarrow> code + ustr" where
  "SchemaVersion v = wire_string SchemaVersion_ok v"

definition ActionID_ok :: "ustr \<Rightarrow> bool" where
  "ActionID_ok s \<longleftrightarrow> prefixed_ulid ''act_'' s"

definition ActionID :: "json \<Rightarrow> code + ustr" where
  "ActionID v = wire_string ActionID_ok v"

definition RequestID_ok :: "ustr \<Rightarrow> bool" where
  "RequestID_ok s \<longleftrightarrow> prefixed_ulid ''req_'' s"

definition RequestID :: "json \<Rightarrow> code + ustr" where
  "RequestID v = wire_string RequestID_ok v"

definition CorrelationID_ok :: "ustr \<Rightarrow> bool" where
  "CorrelationID_ok s \<longleftrightarrow> prefixed_ulid ''corr_'' s"

definition CorrelationID :: "json \<Rightarrow> code + ustr" where
  "CorrelationID v = wire_string CorrelationID_ok v"

definition CausationID_ok :: "ustr \<Rightarrow> bool" where
  "CausationID_ok s \<longleftrightarrow> prefixed_ulid ''act_'' s \<or> prefixed_ulid ''cause_'' s \<or> prefixed_ulid ''dec_'' s \<or> prefixed_ulid ''event_'' s"

definition CausationID :: "json \<Rightarrow> code + ustr" where
  "CausationID v = wire_string CausationID_ok v"

definition AuthorizationIdempotencyKey_ok :: "ustr \<Rightarrow> bool" where
  "AuthorizationIdempotencyKey_ok s \<longleftrightarrow> prefixed_ulid ''authz_'' s"

definition AuthorizationIdempotencyKey :: "json \<Rightarrow> code + ustr" where
  "AuthorizationIdempotencyKey v = wire_string AuthorizationIdempotencyKey_ok v"

definition TaskID_ok :: "ustr \<Rightarrow> bool" where
  "TaskID_ok s \<longleftrightarrow> prefixed_ulid ''task_'' s"

definition TaskID :: "json \<Rightarrow> code + ustr" where
  "TaskID v = wire_string TaskID_ok v"

definition SessionID_ok :: "ustr \<Rightarrow> bool" where
  "SessionID_ok s \<longleftrightarrow> prefixed_ulid ''session_'' s"

definition SessionID :: "json \<Rightarrow> code + ustr" where
  "SessionID v = wire_string SessionID_ok v"

definition DecisionID_ok :: "ustr \<Rightarrow> bool" where
  "DecisionID_ok s \<longleftrightarrow> prefixed_ulid ''dec_'' s"

definition DecisionID :: "json \<Rightarrow> code + ustr" where
  "DecisionID v = wire_string DecisionID_ok v"

definition ApprovalID_ok :: "ustr \<Rightarrow> bool" where
  "ApprovalID_ok s \<longleftrightarrow> prefixed_ulid ''apr_'' s"

definition ApprovalID :: "json \<Rightarrow> code + ustr" where
  "ApprovalID v = wire_string ApprovalID_ok v"

definition AuditRef_ok :: "ustr \<Rightarrow> bool" where
  "AuditRef_ok s \<longleftrightarrow> prefixed_ulid ''audit_'' s"

definition AuditRef :: "json \<Rightarrow> code + ustr" where
  "AuditRef v = wire_string AuditRef_ok v"

definition SHA256Digest_ok :: "ustr \<Rightarrow> bool" where
  "SHA256Digest_ok s \<longleftrightarrow> sha256_pattern s"

definition SHA256Digest :: "json \<Rightarrow> code + ustr" where
  "SHA256Digest v = wire_string SHA256Digest_ok v"

text \<open>
  The generated classes assert the \<open>date-time\<close> format (\<open>fmt\<close>); the reference
  validator of \<open>protocol/reference/validate.py\<close> does not.
\<close>

definition RFC3339Timestamp_ok :: "bool \<Rightarrow> ustr \<Rightarrow> bool" where
  "RFC3339Timestamp_ok fmt s \<longleftrightarrow> timestamp_pattern s \<and> (fmt \<longrightarrow> is_rfc3339 s) \<and> safe_text s"

definition RFC3339Timestamp :: "json \<Rightarrow> code + ustr" where
  "RFC3339Timestamp v = wire_string (RFC3339Timestamp_ok True) v"

definition SemanticVersion_ok :: "ustr \<Rightarrow> bool" where
  "SemanticVersion_ok s \<longleftrightarrow> length s \<le> 128 \<and> semver_pattern s \<and> safe_text s"

definition SemanticVersion :: "json \<Rightarrow> code + ustr" where
  "SemanticVersion v = wire_string SemanticVersion_ok v"

definition SafeText_ok :: "ustr \<Rightarrow> bool" where
  "SafeText_ok s \<longleftrightarrow> safe_text s"

definition SafeText :: "json \<Rightarrow> code + ustr" where
  "SafeText v = wire_string SafeText_ok v"

definition PrincipalRef_ok :: "ustr \<Rightarrow> bool" where
  "PrincipalRef_ok s \<longleftrightarrow> 9 \<le> length s \<and> length s \<le> 136 \<and> principal_pattern s \<and> safe_text s"

definition PrincipalRef :: "json \<Rightarrow> code + ustr" where
  "PrincipalRef v = wire_string PrincipalRef_ok v"

definition ApprovalResolutionIdempotencyKey_ok :: "ustr \<Rightarrow> bool" where
  "ApprovalResolutionIdempotencyKey_ok s \<longleftrightarrow> prefixed_ulid ''approval_'' s"

definition ApprovalResolutionIdempotencyKey :: "json \<Rightarrow> code + ustr" where
  "ApprovalResolutionIdempotencyKey v = wire_string ApprovalResolutionIdempotencyKey_ok v"

definition ReconciliationID_ok :: "ustr \<Rightarrow> bool" where
  "ReconciliationID_ok s \<longleftrightarrow> prefixed_ulid ''recon_'' s"

definition ReconciliationID :: "json \<Rightarrow> code + ustr" where
  "ReconciliationID v = wire_string ReconciliationID_ok v"

definition BatchID_ok :: "ustr \<Rightarrow> bool" where
  "BatchID_ok s \<longleftrightarrow> prefixed_ulid ''batch_'' s"

definition BatchID :: "json \<Rightarrow> code + ustr" where
  "BatchID v = wire_string BatchID_ok v"

definition ReceiptID_ok :: "ustr \<Rightarrow> bool" where
  "ReceiptID_ok s \<longleftrightarrow> prefixed_ulid ''receipt_'' s"

definition ReceiptID :: "json \<Rightarrow> code + ustr" where
  "ReceiptID v = wire_string ReceiptID_ok v"

lemmas wire_class_defs = SchemaVersion_def ActionID_def RequestID_def CorrelationID_def CausationID_def AuthorizationIdempotencyKey_def TaskID_def SessionID_def DecisionID_def ApprovalID_def AuditRef_def SHA256Digest_def RFC3339Timestamp_def SemanticVersion_def SafeText_def PrincipalRef_def ApprovalResolutionIdempotencyKey_def ReconciliationID_def BatchID_def ReceiptID_def

section \<open>The two timestamp checks\<close>

lemma split_fraction_suffix: "split_fraction r = Some (f, z) \<Longrightarrow> \<exists>p. r = p @ z"
proof -
  assume a: "split_fraction r = Some (f, z)"
  show ?thesis
  proof (cases r)
    case (Cons c cs)
    show ?thesis
    proof (cases "c = 46")
      case True
      then have "z = dropWhile is_digit cs" using a Cons by (auto simp: split_fraction_def Let_def split: if_splits)
      then have "r = (c # takeWhile is_digit cs) @ z" using Cons by simp
      then show ?thesis by blast
    next
      case False
      then have "r = [] @ z" using a Cons by (simp add: split_fraction_def)
      then show ?thesis by blast
    qed
  qed (use a in \<open>simp add: split_fraction_def\<close>)
qed

lemma zone_cases:
  assumes "zone_shape z"
  shows "z = [90] \<or> length z = 6 \<and> last z \<noteq> 90"
proof (cases "z = [90]")
  case False
  then obtain c t where z: "z = c # t" "list_all2 matches zone_template t"
    using assms by (cases z) (auto simp: zone_shape_def)
  then have l: "length t = 5" by (auto dest: list_all2_lengthD simp: zone_template_def)
  have "matches (zone_template ! 4) (t ! 4)" by (rule list_all2_nthD [OF z(2)]) (simp add: zone_template_def)
  then have "is_digit (t ! 4)" by (simp add: zone_template_def matches_def)
  moreover have "last z = t ! 4" using z l by (auto simp: last_conv_nth)
  ultimately show ?thesis using z l by (auto simp: is_digit_def)
qed simp

lemma timestamp_zone:
  assumes "split_fraction (drop 19 s) = Some (f, z)" "zone_shape z"
  shows "last s = 90 \<longleftrightarrow> z = [90]" "z \<noteq> [90] \<Longrightarrow> drop (length s - 6) s = z"
proof -
  obtain p where "drop 19 s = p @ z" using split_fraction_suffix [OF assms(1)] by blast
  then have s: "s = (take 19 s @ p) @ z" by (metis append.assoc append_take_drop_id)
  have z: "z \<noteq> []" using assms(2) by (auto simp: zone_shape_def)
  have "last s = last z" using s z by (metis last_appendR)
  then show "last s = 90 \<longleftrightarrow> z = [90]" using zone_cases [OF assms(2)] by auto
  show "drop (length s - 6) s = z" if "z \<noteq> [90]"
  proof -
    have "length z = 6" using zone_cases [OF assms(2)] that by simp
    then have "length s - 6 = length (take 19 s @ p)"
      by (metis s diff_add_inverse2 length_append)
    then show ?thesis by (metis s append_eq_conv_conj)
  qed
qed

lemma timestamp_checks:
  assumes "timestamp_pattern s"
  shows "isOk (parse_rfc3339 s) \<longleftrightarrow> is_rfc3339 s \<and> num_at s 17 2 \<noteq> 60"
proof -
  obtain f z where p: "list_all2 matches base_template (take 19 s)" "split_fraction (drop 19 s) = Some (f, z)" "zone_shape z"
    using assms by (auto simp: timestamp_pattern_def split: option.splits)
  note tz = timestamp_zone [OF p(2,3)]
  have off: "isOk (offset_of z) \<longleftrightarrow> z = [90] \<or> (num_at z 1 2 \<le> 23 \<and> num_at z 4 2 \<le> 59)"
    by (auto simp: offset_of_def Let_def)
  have vt: "valid_time hh mi ss \<longleftrightarrow> ss \<le> 60 \<and> valid_time hh mi (if ss = 60 then 59 else ss) \<and> ss \<noteq> 60" for hh mi ss
    by (auto simp: valid_time_def)
  have "isOk (parse_rfc3339 s) \<longleftrightarrow>
      valid_date (num_at s 0 4) (num_at s 5 2) (num_at s 8 2) \<and>
      valid_time (num_at s 11 2) (num_at s 14 2) (num_at s 17 2) \<and> isOk (offset_of z)"
    using p by (cases "offset_of z") (simp_all add: parse_rfc3339_def Let_def)
  also have "\<dots> \<longleftrightarrow> is_rfc3339 s \<and> num_at s 17 2 \<noteq> 60"
  proof (cases "z = [90]")
    case True
    then show ?thesis
      unfolding is_rfc3339_def Let_def off using assms tz vt [of "num_at s 11 2" "num_at s 14 2" "num_at s 17 2"] by blast
  next
    case False
    then have d: "drop (length s - 6) s = z" and l: "last s \<noteq> 90" using tz by blast+
    show ?thesis
      unfolding is_rfc3339_def Let_def off d
      using l assms False vt [of "num_at s 11 2" "num_at s 14 2" "num_at s 17 2"] by blast
  qed
  finally show ?thesis .
qed

section \<open>Properties\<close>

text \<open>
  C20: The two timestamp checks of the repository agree except on leap seconds: on
  text of the RFC 3339 shape the reference parser of \<open>validate.py\<close> accepts
  exactly what the generated \<open>_is_rfc3339\<close> accepts with a second other than 60.
\<close>

theorem timestamp_checks_agree:
  assumes "timestamp_pattern s"
  shows "isOk (parse_rfc3339 s) \<longleftrightarrow> is_rfc3339 s \<and> num_at s 17 2 \<noteq> 60"
  using assms by (rule timestamp_checks)

definition leap_example :: ustr where
  "leap_example = lit ''2016-12-31T23:59:60Z''"

lemma leap_example_facts: "timestamp_pattern leap_example" "is_rfc3339 leap_example"
  by code_simp+

theorem timestamp_checks_agree_witness:
  "timestamp_pattern leap_example \<and> is_rfc3339 leap_example \<and> \<not> isOk (parse_rfc3339 leap_example)"
proof -
  have "num_at leap_example 17 2 = 60" by code_simp
  then show ?thesis using timestamp_checks_agree [OF leap_example_facts(1)] leap_example_facts by simp
qed

end
