(* ===== verification/Protocol_Dto.thy ===== *)
theory Protocol_Dto
  imports Wire_Strings
begin

text \<open>
  The structural documents of protocol version 1, as generated in
  \<open>python/src/palonexus/_generated/protocol.py\<close>: the enumerations, one record
  per data class, its \<open>_from_dict\<close> and \<open>to_dict\<close>, and for each the JSON schema
  of \<open>protocol/schemas/\<close> as a predicate on the decoded record
  (\<open>..._schema fmt\<close>, where \<open>fmt\<close> says whether the validator asserts the
  \<open>date-time\<close> format).  A document is a \<open>json\<close> value; an optional member is an
  \<open>option\<close> field.  Each document class is shown to round-trip.
\<close>

section \<open>Enumerations\<close>

datatype action_name = SHELL_EXEC | FILE_READ | FILE_WRITE | FILE_DELETE | WEB_FETCH | MCP_CALL | TOOL_INVOKE

primrec action_name_value :: "action_name \<Rightarrow> ustr" where
  "action_name_value SHELL_EXEC = lit ''shell:exec''"
| "action_name_value FILE_READ = lit ''file:read''"
| "action_name_value FILE_WRITE = lit ''file:write''"
| "action_name_value FILE_DELETE = lit ''file:delete''"
| "action_name_value WEB_FETCH = lit ''web:fetch''"
| "action_name_value MCP_CALL = lit ''mcp:call''"
| "action_name_value TOOL_INVOKE = lit ''tool:invoke''"

definition ActionName :: "json \<Rightarrow> code + action_name" where
  "ActionName v =
    (case v of
       JStr s \<Rightarrow>
         if s = lit ''shell:exec'' then Inr SHELL_EXEC
         else if s = lit ''file:read'' then Inr FILE_READ
         else if s = lit ''file:write'' then Inr FILE_WRITE
         else if s = lit ''file:delete'' then Inr FILE_DELETE
         else if s = lit ''web:fetch'' then Inr WEB_FETCH
         else if s = lit ''mcp:call'' then Inr MCP_CALL
         else if s = lit ''tool:invoke'' then Inr TOOL_INVOKE
         else Inl ''ValueError''
     | _ \<Rightarrow> Inl ''ValueError'')"

lemma action_name_roundtrip [simp]: "ActionName (JStr (action_name_value x)) = Inr x"
  by (cases x) (simp_all add: ActionName_def)

datatype side_effect = READ_ONLY | WRITE | DESTRUCTIVE | EXTERNAL

primrec side_effect_value :: "side_effect \<Rightarrow> ustr" where
  "side_effect_value READ_ONLY = lit ''read_only''"
| "side_effect_value WRITE = lit ''write''"
| "side_effect_value DESTRUCTIVE = lit ''destructive''"
| "side_effect_value EXTERNAL = lit ''external''"

definition SideEffect :: "json \<Rightarrow> code + side_effect" where
  "SideEffect v =
    (case v of
       JStr s \<Rightarrow>
         if s = lit ''read_only'' then Inr READ_ONLY
         else if s = lit ''write'' then Inr WRITE
         else if s = lit ''destructive'' then Inr DESTRUCTIVE
         else if s = lit ''external'' then Inr EXTERNAL
         else Inl ''ValueError''
     | _ \<Rightarrow> Inl ''ValueError'')"

lemma side_effect_roundtrip [simp]: "SideEffect (JStr (side_effect_value x)) = Inr x"
  by (cases x) (simp_all add: SideEffect_def)

datatype target_kind = LOCAL_ACTION | MCP_TOOL | TOOL

primrec target_kind_value :: "target_kind \<Rightarrow> ustr" where
  "target_kind_value LOCAL_ACTION = lit ''local-action''"
| "target_kind_value MCP_TOOL = lit ''mcp-tool''"
| "target_kind_value TOOL = lit ''tool''"

definition TargetKind :: "json \<Rightarrow> code + target_kind" where
  "TargetKind v =
    (case v of
       JStr s \<Rightarrow>
         if s = lit ''local-action'' then Inr LOCAL_ACTION
         else if s = lit ''mcp-tool'' then Inr MCP_TOOL
         else if s = lit ''tool'' then Inr TOOL
         else Inl ''ValueError''
     | _ \<Rightarrow> Inl ''ValueError'')"

lemma target_kind_roundtrip [simp]: "TargetKind (JStr (target_kind_value x)) = Inr x"
  by (cases x) (simp_all add: TargetKind_def)

datatype decision_outcome = DO_ALLOW | DO_DENY | DO_APPROVAL_REQUIRED

primrec decision_outcome_value :: "decision_outcome \<Rightarrow> ustr" where
  "decision_outcome_value DO_ALLOW = lit ''allow''"
| "decision_outcome_value DO_DENY = lit ''deny''"
| "decision_outcome_value DO_APPROVAL_REQUIRED = lit ''approval_required''"

definition DecisionOutcome :: "json \<Rightarrow> code + decision_outcome" where
  "DecisionOutcome v =
    (case v of
       JStr s \<Rightarrow>
         if s = lit ''allow'' then Inr DO_ALLOW
         else if s = lit ''deny'' then Inr DO_DENY
         else if s = lit ''approval_required'' then Inr DO_APPROVAL_REQUIRED
         else Inl ''ValueError''
     | _ \<Rightarrow> Inl ''ValueError'')"

lemma decision_outcome_roundtrip [simp]: "DecisionOutcome (JStr (decision_outcome_value x)) = Inr x"
  by (cases x) (simp_all add: DecisionOutcome_def)

datatype approval_status = AS_PENDING | AS_APPROVED | AS_DENIED | AS_EXPIRED | AS_CANCELLED

primrec approval_status_value :: "approval_status \<Rightarrow> ustr" where
  "approval_status_value AS_PENDING = lit ''pending''"
| "approval_status_value AS_APPROVED = lit ''approved''"
| "approval_status_value AS_DENIED = lit ''denied''"
| "approval_status_value AS_EXPIRED = lit ''expired''"
| "approval_status_value AS_CANCELLED = lit ''cancelled''"

definition ApprovalStatus :: "json \<Rightarrow> code + approval_status" where
  "ApprovalStatus v =
    (case v of
       JStr s \<Rightarrow>
         if s = lit ''pending'' then Inr AS_PENDING
         else if s = lit ''approved'' then Inr AS_APPROVED
         else if s = lit ''denied'' then Inr AS_DENIED
         else if s = lit ''expired'' then Inr AS_EXPIRED
         else if s = lit ''cancelled'' then Inr AS_CANCELLED
         else Inl ''ValueError''
     | _ \<Rightarrow> Inl ''ValueError'')"

lemma approval_status_roundtrip [simp]: "ApprovalStatus (JStr (approval_status_value x)) = Inr x"
  by (cases x) (simp_all add: ApprovalStatus_def)

datatype protocol_error_code = PE_INVALID_REQUEST | PE_MISSING_IDENTITY | PE_UNSUPPORTED_PROTOCOL | PE_AUTHENTICATION_FAILED | PE_AUTHORIZATION_UNAVAILABLE | PE_INVALID_DECISION | PE_IDEMPOTENCY_CONFLICT | PE_APPROVAL_EXPIRED | PE_APPROVAL_SCOPE_MISMATCH | PE_CREDENTIAL_REVOKED | PE_POLICY_DENIED

primrec protocol_error_code_value :: "protocol_error_code \<Rightarrow> ustr" where
  "protocol_error_code_value PE_INVALID_REQUEST = lit ''invalid_request''"
| "protocol_error_code_value PE_MISSING_IDENTITY = lit ''missing_identity''"
| "protocol_error_code_value PE_UNSUPPORTED_PROTOCOL = lit ''unsupported_protocol''"
| "protocol_error_code_value PE_AUTHENTICATION_FAILED = lit ''authentication_failed''"
| "protocol_error_code_value PE_AUTHORIZATION_UNAVAILABLE = lit ''authorization_unavailable''"
| "protocol_error_code_value PE_INVALID_DECISION = lit ''invalid_decision''"
| "protocol_error_code_value PE_IDEMPOTENCY_CONFLICT = lit ''idempotency_conflict''"
| "protocol_error_code_value PE_APPROVAL_EXPIRED = lit ''approval_expired''"
| "protocol_error_code_value PE_APPROVAL_SCOPE_MISMATCH = lit ''approval_scope_mismatch''"
| "protocol_error_code_value PE_CREDENTIAL_REVOKED = lit ''credential_revoked''"
| "protocol_error_code_value PE_POLICY_DENIED = lit ''policy_denied''"

definition ProtocolErrorCode :: "json \<Rightarrow> code + protocol_error_code" where
  "ProtocolErrorCode v =
    (case v of
       JStr s \<Rightarrow>
         if s = lit ''invalid_request'' then Inr PE_INVALID_REQUEST
         else if s = lit ''missing_identity'' then Inr PE_MISSING_IDENTITY
         else if s = lit ''unsupported_protocol'' then Inr PE_UNSUPPORTED_PROTOCOL
         else if s = lit ''authentication_failed'' then Inr PE_AUTHENTICATION_FAILED
         else if s = lit ''authorization_unavailable'' then Inr PE_AUTHORIZATION_UNAVAILABLE
         else if s = lit ''invalid_decision'' then Inr PE_INVALID_DECISION
         else if s = lit ''idempotency_conflict'' then Inr PE_IDEMPOTENCY_CONFLICT
         else if s = lit ''approval_expired'' then Inr PE_APPROVAL_EXPIRED
         else if s = lit ''approval_scope_mismatch'' then Inr PE_APPROVAL_SCOPE_MISMATCH
         else if s = lit ''credential_revoked'' then Inr PE_CREDENTIAL_REVOKED
         else if s = lit ''policy_denied'' then Inr PE_POLICY_DENIED
         else Inl ''ValueError''
     | _ \<Rightarrow> Inl ''ValueError'')"

lemma protocol_error_code_roundtrip [simp]: "ProtocolErrorCode (JStr (protocol_error_code_value x)) = Inr x"
  by (cases x) (simp_all add: ProtocolErrorCode_def)

datatype reconciliation_outcome = RO_ALLOW | RO_DENY | RO_APPROVAL_REQUIRED | RO_ERROR

primrec reconciliation_outcome_value :: "reconciliation_outcome \<Rightarrow> ustr" where
  "reconciliation_outcome_value RO_ALLOW = lit ''allow''"
| "reconciliation_outcome_value RO_DENY = lit ''deny''"
| "reconciliation_outcome_value RO_APPROVAL_REQUIRED = lit ''approval_required''"
| "reconciliation_outcome_value RO_ERROR = lit ''error''"

definition ReconciliationOutcome :: "json \<Rightarrow> code + reconciliation_outcome" where
  "ReconciliationOutcome v =
    (case v of
       JStr s \<Rightarrow>
         if s = lit ''allow'' then Inr RO_ALLOW
         else if s = lit ''deny'' then Inr RO_DENY
         else if s = lit ''approval_required'' then Inr RO_APPROVAL_REQUIRED
         else if s = lit ''error'' then Inr RO_ERROR
         else Inl ''ValueError''
     | _ \<Rightarrow> Inl ''ValueError'')"

lemma reconciliation_outcome_roundtrip [simp]: "ReconciliationOutcome (JStr (reconciliation_outcome_value x)) = Inr x"
  by (cases x) (simp_all add: ReconciliationOutcome_def)

datatype delivery_disposition = AUTOMATIC | MANUAL_INTERVENTION

primrec delivery_disposition_value :: "delivery_disposition \<Rightarrow> ustr" where
  "delivery_disposition_value AUTOMATIC = lit ''automatic''"
| "delivery_disposition_value MANUAL_INTERVENTION = lit ''manual_intervention''"

definition DeliveryDisposition :: "json \<Rightarrow> code + delivery_disposition" where
  "DeliveryDisposition v =
    (case v of
       JStr s \<Rightarrow>
         if s = lit ''automatic'' then Inr AUTOMATIC
         else if s = lit ''manual_intervention'' then Inr MANUAL_INTERVENTION
         else Inl ''ValueError''
     | _ \<Rightarrow> Inl ''ValueError'')"

lemma delivery_disposition_roundtrip [simp]: "DeliveryDisposition (JStr (delivery_disposition_value x)) = Inr x"
  by (cases x) (simp_all add: DeliveryDisposition_def)

datatype reconciliation_state = RS_PENDING | RS_SENDING | RS_RETRY_WAIT | RS_ACKNOWLEDGED | RS_DISCARDED

primrec reconciliation_state_value :: "reconciliation_state \<Rightarrow> ustr" where
  "reconciliation_state_value RS_PENDING = lit ''pending''"
| "reconciliation_state_value RS_SENDING = lit ''sending''"
| "reconciliation_state_value RS_RETRY_WAIT = lit ''retry_wait''"
| "reconciliation_state_value RS_ACKNOWLEDGED = lit ''acknowledged''"
| "reconciliation_state_value RS_DISCARDED = lit ''discarded''"

definition ReconciliationState :: "json \<Rightarrow> code + reconciliation_state" where
  "ReconciliationState v =
    (case v of
       JStr s \<Rightarrow>
         if s = lit ''pending'' then Inr RS_PENDING
         else if s = lit ''sending'' then Inr RS_SENDING
         else if s = lit ''retry_wait'' then Inr RS_RETRY_WAIT
         else if s = lit ''acknowledged'' then Inr RS_ACKNOWLEDGED
         else if s = lit ''discarded'' then Inr RS_DISCARDED
         else Inl ''ValueError''
     | _ \<Rightarrow> Inl ''ValueError'')"

lemma reconciliation_state_roundtrip [simp]: "ReconciliationState (JStr (reconciliation_state_value x)) = Inr x"
  by (cases x) (simp_all add: ReconciliationState_def)

datatype discard_authority_type = AUTHENTICATED_USER | ORGANIZATION_RETENTION_POLICY

primrec discard_authority_type_value :: "discard_authority_type \<Rightarrow> ustr" where
  "discard_authority_type_value AUTHENTICATED_USER = lit ''authenticated_user''"
| "discard_authority_type_value ORGANIZATION_RETENTION_POLICY = lit ''organization_retention_policy''"

definition DiscardAuthorityType :: "json \<Rightarrow> code + discard_authority_type" where
  "DiscardAuthorityType v =
    (case v of
       JStr s \<Rightarrow>
         if s = lit ''authenticated_user'' then Inr AUTHENTICATED_USER
         else if s = lit ''organization_retention_policy'' then Inr ORGANIZATION_RETENTION_POLICY
         else Inl ''ValueError''
     | _ \<Rightarrow> Inl ''ValueError'')"

lemma discard_authority_type_roundtrip [simp]: "DiscardAuthorityType (JStr (discard_authority_type_value x)) = Inr x"
  by (cases x) (simp_all add: DiscardAuthorityType_def)

section \<open>Members\<close>

fun lookup :: "(ustr \<times> json) list \<Rightarrow> string \<Rightarrow> json option" where
  "lookup [] k = None"
| "lookup ((a, v) # kvs) k = (if a = lit k then Some v else lookup kvs k)"

definition member :: "json \<Rightarrow> string \<Rightarrow> (json \<Rightarrow> code + 'a) \<Rightarrow> code + 'a" where
  "member d k f =
    (case d of
       JObj kvs \<Rightarrow> (case lookup kvs k of None \<Rightarrow> Inl ''KeyError'' | Some v \<Rightarrow> f v)
     | _ \<Rightarrow> Inl ''TypeError'')"

definition optional_member :: "json \<Rightarrow> string \<Rightarrow> (json \<Rightarrow> code + 'a) \<Rightarrow> code + 'a option" where
  "optional_member d k f =
    (case d of
       JObj kvs \<Rightarrow> (case lookup kvs k of None \<Rightarrow> Inr None | Some v \<Rightarrow> bindE (f v) (\<lambda>x. Inr (Some x)))
     | _ \<Rightarrow> Inl ''TypeError'')"

definition as_str :: "json \<Rightarrow> code + ustr" where
  "as_str v = (case v of JStr s \<Rightarrow> Inr s | _ \<Rightarrow> Inl ''TypeError'')"

definition as_bool :: "json \<Rightarrow> code + bool" where
  "as_bool v = (case v of JBool b \<Rightarrow> Inr b | _ \<Rightarrow> Inl ''TypeError'')"

text \<open>\<open>int(value)\<close> of a validated integer, which may arrive as an integral decimal.\<close>

definition as_int :: "json \<Rightarrow> code + int" where
  "as_int v =
    (case v of
       JInt i \<Rightarrow> Inr i
     | JDec (Dec neg c e) \<Rightarrow>
         (let n = int (if 0 \<le> e then c * 10 ^ nat e else c div 10 ^ nat (- e)) in Inr (if neg then - n else n))
     | _ \<Rightarrow> Inl ''TypeError'')"

text \<open>\<open>_copy_json\<close> copies a value; values are immutable here.\<close>

definition copy_json :: "json \<Rightarrow> code + json" where
  "copy_json v = Inr v"

definition req :: "string \<Rightarrow> json \<Rightarrow> (ustr \<times> json) list" where
  "req k v = [(lit k, v)]"

definition opt :: "string \<Rightarrow> ('a \<Rightarrow> json) \<Rightarrow> 'a option \<Rightarrow> (ustr \<times> json) list" where
  "opt k f x = (case x of None \<Rightarrow> [] | Some v \<Rightarrow> [(lit k, f v)])"

definition all_opt :: "('a \<Rightarrow> bool) \<Rightarrow> 'a option \<Rightarrow> bool" where
  "all_opt P x \<longleftrightarrow> (case x of None \<Rightarrow> True | Some v \<Rightarrow> P v)"

lemma all_opt_simps [simp]: "all_opt (\<lambda>_. True) y" "all_opt P None" "all_opt P (Some x) \<longleftrightarrow> P x"
  by (simp_all add: all_opt_def split: option.splits)

definition or_else :: "'a option \<Rightarrow> 'a option \<Rightarrow> 'a option" where
  "or_else x y = (case x of None \<Rightarrow> y | Some v \<Rightarrow> Some v)"

lemma or_else_simps [simp]: "or_else None y = y" "or_else (Some v) y = Some v" "or_else x None = x"
  by (simp_all add: or_else_def split: option.splits)

lemma lookup_append [simp]: "lookup (xs @ ys) k = or_else (lookup xs k) (lookup ys k)"
  by (induction xs k rule: lookup.induct) simp_all

lemma lookup_member [simp]:
  "lookup (req a v) k = (if a = k then Some v else None)"
  "lookup (opt a f x) k = (if a = k then map_option f x else None)"
  by (simp_all add: req_def opt_def split: option.splits)

lemmas wire_classes = wire_class_defs [abs_def]

lemma as_simps [simp]:
  "as_str (JStr s) = Inr s" "as_bool (JBool b) = Inr b" "as_int (JInt i) = Inr i" "copy_json v = Inr v"
  by (simp_all add: as_str_def as_bool_def as_int_def copy_json_def)

lemma member_JObj [simp]:
  "member (JObj kvs) k f = (case lookup kvs k of None \<Rightarrow> Inl ''KeyError'' | Some v \<Rightarrow> f v)"
  by (simp add: member_def)

text \<open>A document within the memory limits has members within them.\<close>

definition limited :: "json \<Rightarrow> bool" where
  "limited v \<longleftrightarrow> isOk (validate_memory_limits v)"

lemma lookup_in: "lookup kvs k = Some v \<Longrightarrow> (lit k, v) \<in> set kvs"
  by (induction kvs k rule: lookup.induct) (auto split: if_splits)

lemma limited_lookup: "limited (JObj kvs) \<Longrightarrow> lookup kvs k = Some v \<Longrightarrow> limited v"
  using memory_limits_member [of kvs "(lit k, v)"] lookup_in [of kvs k v] by (simp add: limited_def)

lemma wire_limited [simp]: "limited (JStr s) \<Longrightarrow> ok s \<Longrightarrow> wire_string ok (JStr s) = Inr s"
  by (simp add: limited_def wire_string_JStr)

definition decode_opt :: "(json \<Rightarrow> code + 'a) \<Rightarrow> json option \<Rightarrow> code + 'a option" where
  "decode_opt f v = (case v of None \<Rightarrow> Inr None | Some v \<Rightarrow> bindE (f v) (\<lambda>x. Inr (Some x)))"

lemma optional_member_JObj [simp]: "optional_member (JObj kvs) k f = decode_opt f (lookup kvs k)"
  by (simp add: optional_member_def decode_opt_def)

text \<open>The members of a limited document are limited, field by field.\<close>

definition limited_all :: "(ustr \<times> json) list \<Rightarrow> bool" where
  "limited_all kvs \<longleftrightarrow> list_all (\<lambda>kv. limited (snd kv)) kvs"

lemma limited_all_simps [simp]:
  "limited_all (req k v) \<longleftrightarrow> limited v"
  "limited_all (opt k f x) \<longleftrightarrow> all_opt (\<lambda>x. limited (f x)) x"
  "limited_all (xs @ ys) \<longleftrightarrow> limited_all xs \<and> limited_all ys"
  by (auto simp: limited_all_def req_def opt_def split: option.splits)

lemma limited_members: "limited (JObj kvs) \<Longrightarrow> limited_all kvs"
  using memory_limits_member [of kvs] by (force simp: limited_all_def limited_def list_all_iff)

lemma decode_opt_map:
  "all_opt (\<lambda>y. f (g y) = Inr y) x \<Longrightarrow> decode_opt f (map_option g x) = Inr x"
  by (cases x) (simp_all add: decode_opt_def)

lemma decode_opt_wire [simp]:
  "all_opt ok x \<Longrightarrow> all_opt (\<lambda>x. limited (JStr x)) x \<Longrightarrow> decode_opt (wire_string ok) (map_option JStr x) = Inr x"
  by (cases x) (simp_all add: decode_opt_def)

lemma all_opt_conj [simp]: "all_opt (\<lambda>x. P x \<and> Q x) x \<longleftrightarrow> all_opt P x \<and> all_opt Q x"
  by (cases x) simp_all

lemma decode_opt_doc:
  "all_opt (\<lambda>x. limited (JObj (m x))) x \<Longrightarrow> all_opt sch x \<Longrightarrow>
    decode_opt f (map_option (\<lambda>x. JObj (m x)) x) = Inr x"
  if "\<And>r. limited (JObj (m r)) \<Longrightarrow> sch r \<Longrightarrow> f (JObj (m r)) = Inr r"
  using that by (cases x) (simp_all add: decode_opt_def)

lemma decode_opt_plain [simp]:
  "decode_opt copy_json x = Inr x"
  "decode_opt as_int (map_option JInt n) = Inr n"
  "decode_opt as_str (map_option JStr s) = Inr s"
  by (cases x; cases n; cases s; simp add: decode_opt_def)+

text \<open>
  The schemas are closed (\<open>additionalProperties\<close> is false) and ask integral numbers for their
  integer members; a nested document has the shape of its own schema.
\<close>

definition closed_members :: "json \<Rightarrow> string list \<Rightarrow> bool" where
  "closed_members d ks \<longleftrightarrow> (case d of JObj kvs \<Rightarrow> list_all (\<lambda>kv. list_ex (\<lambda>k. fst kv = lit k) ks) kvs | _ \<Rightarrow> False)"

definition json_integer :: "json \<Rightarrow> bool" where
  "json_integer v \<longleftrightarrow>
    (case v of
       JInt _ \<Rightarrow> True
     | JDec (Dec _ c e) \<Rightarrow> 0 \<le> e \<or> c mod 10 ^ nat (- e) = 0
     | _ \<Rightarrow> False)"

definition member_is :: "json \<Rightarrow> string \<Rightarrow> (json \<Rightarrow> bool) \<Rightarrow> bool" where
  "member_is d k P \<longleftrightarrow> (case d of JObj kvs \<Rightarrow> all_opt P (lookup kvs k) | _ \<Rightarrow> False)"

definition keys_in :: "(ustr \<times> json) list \<Rightarrow> string list \<Rightarrow> bool" where
  "keys_in kvs ks \<longleftrightarrow> list_all (\<lambda>kv. list_ex (\<lambda>k. fst kv = lit k) ks) kvs"

lemma closed_members_JObj [simp]: "closed_members (JObj kvs) ks = keys_in kvs ks"
  by (simp add: closed_members_def keys_in_def)

lemma member_is_JObj [simp]: "member_is (JObj kvs) k P = all_opt P (lookup kvs k)"
  by (simp add: member_is_def)

lemma keys_in_simps [simp]:
  "keys_in (xs @ ys) ks \<longleftrightarrow> keys_in xs ks \<and> keys_in ys ks"
  "keys_in (req k v) (a # ks) \<longleftrightarrow> k = a \<or> keys_in (req k v) ks"
  "keys_in (opt k f x) (a # ks) \<longleftrightarrow> k = a \<or> keys_in (opt k f x) ks"
  by (auto simp: keys_in_def req_def opt_def split: option.splits)

lemma json_integer_JInt [simp]: "json_integer (JInt i)"
  by (simp add: json_integer_def)

lemma all_opt_map [simp]: "all_opt P (map_option f x) = all_opt (\<lambda>y. P (f y)) x"
  by (cases x) simp_all

lemma to_dict_limits: "bindE (validate_memory_limits d) (\<lambda>_. if S then Inr d else Inl c) = Inr j \<longleftrightarrow> limited d \<and> S \<and> j = d"
  by (cases "validate_memory_limits d") (auto simp: limited_def)

section \<open>Error messages and conditional requirements\<close>

primrec error_safe_message :: "protocol_error_code \<Rightarrow> ustr" where
  "error_safe_message PE_INVALID_REQUEST = lit ''The request is invalid.''"
| "error_safe_message PE_MISSING_IDENTITY = lit ''Identity is required.''"
| "error_safe_message PE_UNSUPPORTED_PROTOCOL = lit ''The protocol version is unsupported.''"
| "error_safe_message PE_AUTHENTICATION_FAILED = lit ''Authentication failed.''"
| "error_safe_message PE_AUTHORIZATION_UNAVAILABLE = lit ''Authorization is temporarily unavailable.''"
| "error_safe_message PE_INVALID_DECISION = lit ''The authorization decision is invalid.''"
| "error_safe_message PE_IDEMPOTENCY_CONFLICT = lit ''The idempotency key conflicts with an earlier request.''"
| "error_safe_message PE_APPROVAL_EXPIRED = lit ''The approval has expired.''"
| "error_safe_message PE_APPROVAL_SCOPE_MISMATCH = lit ''The action no longer matches the approved scope.''"
| "error_safe_message PE_CREDENTIAL_REVOKED = lit ''The credential has been revoked.''"
| "error_safe_message PE_POLICY_DENIED = lit ''Current policy denies this action.''"

lemma error_safe_message_ok [simp]: "SafeText_ok (error_safe_message c)"
  by (cases c) (simp_all add: SafeText_ok_def safe_text_def unsafe_char_def lit_def)

definition is_file_action :: "action_name \<Rightarrow> bool" where
  "is_file_action a \<longleftrightarrow> a = FILE_READ \<or> a = FILE_WRITE \<or> a = FILE_DELETE"

definition target_kind_schema :: "action_name \<Rightarrow> target_kind \<Rightarrow> bool" where
  "target_kind_schema a k \<longleftrightarrow>
    (if a = MCP_CALL then k = MCP_TOOL else if a = TOOL_INVOKE then k = TOOL else k = LOCAL_ACTION)"

definition double_slash :: "ustr \<Rightarrow> bool" where
  "double_slash s \<longleftrightarrow> list_ex (\<lambda>p. p = (47, 47)) (zip s (tl s))"

definition action_resource_schema :: "action_name \<Rightarrow> ustr \<Rightarrow> bool" where
  "action_resource_schema a s \<longleftrightarrow>
    (is_file_action a \<longrightarrow>
      take 6 s = lit ''path:/'' \<and> 92 \<notin> set s \<and> \<not> dot_segment s \<and> \<not> double_slash s)"

section \<open>Adapter\<close>

record adapter =
  ad_id :: ustr
  ad_version :: ustr
  ad_host_version :: ustr
  ad_extensions :: "json option"

definition adapter_schema :: "bool \<Rightarrow> adapter \<Rightarrow> bool" where
  "adapter_schema fmt r \<longleftrightarrow>
      adapter_id_pattern (ad_id r) \<and>
      SemanticVersion_ok (ad_version r) \<and>
      SemanticVersion_ok (ad_host_version r) \<and>
      all_opt (\<lambda>x. extensions_schema x) (ad_extensions r)"

definition adapter_members :: "adapter \<Rightarrow> (ustr \<times> json) list" where
  "adapter_members r =
      req ''id'' (JStr (ad_id r)) @
      req ''version'' (JStr (ad_version r)) @
      req ''hostVersion'' (JStr (ad_host_version r)) @
      opt ''extensions'' (\<lambda>x. x) (ad_extensions r) @ []"

definition Adapter_to_dict :: "adapter \<Rightarrow> code + json" where
  "Adapter_to_dict r =
    bindE (validate_memory_limits (JObj (adapter_members r))) (\<lambda>_.
      if adapter_schema True r then Inr (JObj (adapter_members r)) else Inl ''schema_invalid'')"

definition Adapter_from_dict :: "json \<Rightarrow> code + adapter" where
  "Adapter_from_dict value =
    bindE (member value ''id'' as_str) (\<lambda>v0.
    bindE (member value ''version'' SemanticVersion) (\<lambda>v1.
    bindE (member value ''hostVersion'' SemanticVersion) (\<lambda>v2.
    bindE (optional_member value ''extensions'' copy_json) (\<lambda>v3.
      Inr \<lparr>ad_id = v0, ad_version = v1, ad_host_version = v2, ad_extensions = v3\<rparr>))))"

definition Adapter_shape :: "json \<Rightarrow> bool" where
  "Adapter_shape v \<longleftrightarrow>
      closed_members v [''id'', ''version'', ''hostVersion'', ''extensions'']"

lemma Adapter_shape_members [simp]: "Adapter_shape (JObj (adapter_members r))"
  by (simp add: Adapter_shape_def adapter_members_def)

lemma adapter_roundtrip [simp]:
  assumes "limited (JObj (adapter_members r))" "adapter_schema True r"
  shows "Adapter_from_dict (JObj (adapter_members r)) = Inr r"
  using limited_members [OF assms(1)] assms(2)
  by (simp add: adapter_members_def adapter_schema_def Adapter_from_dict_def wire_classes
    option.map_ident )

section \<open>TaskBinding\<close>

record task_binding =
  tb_task_id :: ustr
  tb_session_id :: ustr
  tb_extensions :: "json option"

definition task_binding_schema :: "bool \<Rightarrow> task_binding \<Rightarrow> bool" where
  "task_binding_schema fmt r \<longleftrightarrow>
      TaskID_ok (tb_task_id r) \<and>
      SessionID_ok (tb_session_id r) \<and>
      all_opt (\<lambda>x. extensions_schema x) (tb_extensions r)"

definition task_binding_members :: "task_binding \<Rightarrow> (ustr \<times> json) list" where
  "task_binding_members r =
      req ''taskId'' (JStr (tb_task_id r)) @
      req ''sessionId'' (JStr (tb_session_id r)) @
      opt ''extensions'' (\<lambda>x. x) (tb_extensions r) @ []"

definition TaskBinding_to_dict :: "task_binding \<Rightarrow> code + json" where
  "TaskBinding_to_dict r =
    bindE (validate_memory_limits (JObj (task_binding_members r))) (\<lambda>_.
      if task_binding_schema True r then Inr (JObj (task_binding_members r)) else Inl ''schema_invalid'')"

definition TaskBinding_from_dict :: "json \<Rightarrow> code + task_binding" where
  "TaskBinding_from_dict value =
    bindE (member value ''taskId'' TaskID) (\<lambda>v0.
    bindE (member value ''sessionId'' SessionID) (\<lambda>v1.
    bindE (optional_member value ''extensions'' copy_json) (\<lambda>v2.
      Inr \<lparr>tb_task_id = v0, tb_session_id = v1, tb_extensions = v2\<rparr>)))"

definition TaskBinding_shape :: "json \<Rightarrow> bool" where
  "TaskBinding_shape v \<longleftrightarrow>
      closed_members v [''taskId'', ''sessionId'', ''extensions'']"

lemma TaskBinding_shape_members [simp]: "TaskBinding_shape (JObj (task_binding_members r))"
  by (simp add: TaskBinding_shape_def task_binding_members_def)

lemma task_binding_roundtrip [simp]:
  assumes "limited (JObj (task_binding_members r))" "task_binding_schema True r"
  shows "TaskBinding_from_dict (JObj (task_binding_members r)) = Inr r"
  using limited_members [OF assms(1)] assms(2)
  by (simp add: task_binding_members_def task_binding_schema_def TaskBinding_from_dict_def wire_classes
    option.map_ident )

section \<open>ActionTarget\<close>

record action_target =
  tg_kind :: target_kind
  tg_service :: ustr
  tg_resource :: ustr
  tg_resource_hash :: ustr
  tg_extensions :: "json option"

definition action_target_schema :: "bool \<Rightarrow> action_target \<Rightarrow> bool" where
  "action_target_schema fmt r \<longleftrightarrow>
      service_pattern (tg_service r) \<and>
      SafeText_ok (tg_resource r) \<and> 1 \<le> length (tg_resource r) \<and> length (tg_resource r) \<le> 2048 \<and> \<not> dot_segment (tg_resource r) \<and>
      SHA256Digest_ok (tg_resource_hash r) \<and>
      all_opt (\<lambda>x. extensions_schema x) (tg_extensions r)"

definition action_target_members :: "action_target \<Rightarrow> (ustr \<times> json) list" where
  "action_target_members r =
      req ''kind'' (JStr (target_kind_value (tg_kind r))) @
      req ''service'' (JStr (tg_service r)) @
      req ''resource'' (JStr (tg_resource r)) @
      req ''resourceHash'' (JStr (tg_resource_hash r)) @
      opt ''extensions'' (\<lambda>x. x) (tg_extensions r) @ []"

definition ActionTarget_to_dict :: "action_target \<Rightarrow> code + json" where
  "ActionTarget_to_dict r =
    bindE (validate_memory_limits (JObj (action_target_members r))) (\<lambda>_.
      if action_target_schema True r then Inr (JObj (action_target_members r)) else Inl ''schema_invalid'')"

definition ActionTarget_from_dict :: "json \<Rightarrow> code + action_target" where
  "ActionTarget_from_dict value =
    bindE (member value ''kind'' TargetKind) (\<lambda>v0.
    bindE (member value ''service'' as_str) (\<lambda>v1.
    bindE (member value ''resource'' SafeText) (\<lambda>v2.
    bindE (member value ''resourceHash'' SHA256Digest) (\<lambda>v3.
    bindE (optional_member value ''extensions'' copy_json) (\<lambda>v4.
      Inr \<lparr>tg_kind = v0, tg_service = v1, tg_resource = v2, tg_resource_hash = v3, tg_extensions = v4\<rparr>)))))"

definition ActionTarget_shape :: "json \<Rightarrow> bool" where
  "ActionTarget_shape v \<longleftrightarrow>
      closed_members v [''kind'', ''service'', ''resource'', ''resourceHash'', ''extensions'']"

lemma ActionTarget_shape_members [simp]: "ActionTarget_shape (JObj (action_target_members r))"
  by (simp add: ActionTarget_shape_def action_target_members_def)

lemma action_target_roundtrip [simp]:
  assumes "limited (JObj (action_target_members r))" "action_target_schema True r"
  shows "ActionTarget_from_dict (JObj (action_target_members r)) = Inr r"
  using limited_members [OF assms(1)] assms(2)
  by (simp add: action_target_members_def action_target_schema_def ActionTarget_from_dict_def wire_classes
    option.map_ident )

section \<open>ActionContext\<close>

record action_context =
  cx_cwd :: "ustr option"
  cx_repository :: "ustr option"
  cx_tool_name :: "ustr option"
  cx_safe_display :: "ustr option"
  cx_extensions :: "json option"

definition action_context_schema :: "bool \<Rightarrow> action_context \<Rightarrow> bool" where
  "action_context_schema fmt r \<longleftrightarrow>
      all_opt (\<lambda>x. SafeText_ok x \<and> 1 \<le> length x \<and> length x \<le> 1024) (cx_cwd r) \<and>
      all_opt (\<lambda>x. SafeText_ok x \<and> 1 \<le> length x \<and> length x \<le> 256) (cx_repository r) \<and>
      all_opt (\<lambda>x. SafeText_ok x \<and> 1 \<le> length x \<and> length x \<le> 128) (cx_tool_name r) \<and>
      all_opt (\<lambda>x. SafeText_ok x \<and> 1 \<le> length x \<and> length x \<le> 512) (cx_safe_display r) \<and>
      all_opt (\<lambda>x. extensions_schema x) (cx_extensions r)"

definition action_context_members :: "action_context \<Rightarrow> (ustr \<times> json) list" where
  "action_context_members r =
      opt ''cwd'' JStr (cx_cwd r) @
      opt ''repository'' JStr (cx_repository r) @
      opt ''toolName'' JStr (cx_tool_name r) @
      opt ''safeDisplay'' JStr (cx_safe_display r) @
      opt ''extensions'' (\<lambda>x. x) (cx_extensions r) @ []"

definition ActionContext_to_dict :: "action_context \<Rightarrow> code + json" where
  "ActionContext_to_dict r =
    bindE (validate_memory_limits (JObj (action_context_members r))) (\<lambda>_.
      if action_context_schema True r then Inr (JObj (action_context_members r)) else Inl ''schema_invalid'')"

definition ActionContext_from_dict :: "json \<Rightarrow> code + action_context" where
  "ActionContext_from_dict value =
    bindE (optional_member value ''cwd'' SafeText) (\<lambda>v0.
    bindE (optional_member value ''repository'' SafeText) (\<lambda>v1.
    bindE (optional_member value ''toolName'' SafeText) (\<lambda>v2.
    bindE (optional_member value ''safeDisplay'' SafeText) (\<lambda>v3.
    bindE (optional_member value ''extensions'' copy_json) (\<lambda>v4.
      Inr \<lparr>cx_cwd = v0, cx_repository = v1, cx_tool_name = v2, cx_safe_display = v3, cx_extensions = v4\<rparr>)))))"

definition ActionContext_shape :: "json \<Rightarrow> bool" where
  "ActionContext_shape v \<longleftrightarrow>
      closed_members v [''cwd'', ''repository'', ''toolName'', ''safeDisplay'', ''extensions'']"

lemma ActionContext_shape_members [simp]: "ActionContext_shape (JObj (action_context_members r))"
  by (simp add: ActionContext_shape_def action_context_members_def)

lemma action_context_roundtrip [simp]:
  assumes "limited (JObj (action_context_members r))" "action_context_schema True r"
  shows "ActionContext_from_dict (JObj (action_context_members r)) = Inr r"
  using limited_members [OF assms(1)] assms(2)
  by (simp add: action_context_members_def action_context_schema_def ActionContext_from_dict_def wire_classes
    option.map_ident )

section \<open>ApprovalSummary\<close>

record approval_summary =
  sm_approval_id :: ustr
  sm_status :: approval_status
  sm_expires_at :: ustr
  sm_extensions :: "json option"

definition approval_summary_schema :: "bool \<Rightarrow> approval_summary \<Rightarrow> bool" where
  "approval_summary_schema fmt r \<longleftrightarrow>
      ApprovalID_ok (sm_approval_id r) \<and>
      (sm_status r) = AS_PENDING \<and>
      RFC3339Timestamp_ok fmt (sm_expires_at r) \<and>
      all_opt (\<lambda>x. extensions_schema x) (sm_extensions r)"

definition approval_summary_members :: "approval_summary \<Rightarrow> (ustr \<times> json) list" where
  "approval_summary_members r =
      req ''approvalId'' (JStr (sm_approval_id r)) @
      req ''status'' (JStr (approval_status_value (sm_status r))) @
      req ''expiresAt'' (JStr (sm_expires_at r)) @
      opt ''extensions'' (\<lambda>x. x) (sm_extensions r) @ []"

definition ApprovalSummary_to_dict :: "approval_summary \<Rightarrow> code + json" where
  "ApprovalSummary_to_dict r =
    bindE (validate_memory_limits (JObj (approval_summary_members r))) (\<lambda>_.
      if approval_summary_schema True r then Inr (JObj (approval_summary_members r)) else Inl ''schema_invalid'')"

definition ApprovalSummary_from_dict :: "json \<Rightarrow> code + approval_summary" where
  "ApprovalSummary_from_dict value =
    bindE (member value ''approvalId'' ApprovalID) (\<lambda>v0.
    bindE (member value ''status'' ApprovalStatus) (\<lambda>v1.
    bindE (member value ''expiresAt'' RFC3339Timestamp) (\<lambda>v2.
    bindE (optional_member value ''extensions'' copy_json) (\<lambda>v3.
      Inr \<lparr>sm_approval_id = v0, sm_status = v1, sm_expires_at = v2, sm_extensions = v3\<rparr>))))"

definition ApprovalSummary_shape :: "json \<Rightarrow> bool" where
  "ApprovalSummary_shape v \<longleftrightarrow>
      closed_members v [''approvalId'', ''status'', ''expiresAt'', ''extensions'']"

lemma ApprovalSummary_shape_members [simp]: "ApprovalSummary_shape (JObj (approval_summary_members r))"
  by (simp add: ApprovalSummary_shape_def approval_summary_members_def)

lemma approval_summary_roundtrip [simp]:
  assumes "limited (JObj (approval_summary_members r))" "approval_summary_schema True r"
  shows "ApprovalSummary_from_dict (JObj (approval_summary_members r)) = Inr r"
  using limited_members [OF assms(1)] assms(2)
  by (simp add: approval_summary_members_def approval_summary_schema_def ApprovalSummary_from_dict_def wire_classes
    option.map_ident  ApprovalStatus_def)

section \<open>CacheDirective\<close>

record cache_directive =
  cd_cacheable :: bool

definition cache_directive_schema :: "bool \<Rightarrow> cache_directive \<Rightarrow> bool" where
  "cache_directive_schema fmt r \<longleftrightarrow>
      \<not> (cd_cacheable r)"

definition cache_directive_members :: "cache_directive \<Rightarrow> (ustr \<times> json) list" where
  "cache_directive_members r =
      req ''cacheable'' (JBool (cd_cacheable r)) @ []"

definition CacheDirective_to_dict :: "cache_directive \<Rightarrow> code + json" where
  "CacheDirective_to_dict r =
    bindE (validate_memory_limits (JObj (cache_directive_members r))) (\<lambda>_.
      if cache_directive_schema True r then Inr (JObj (cache_directive_members r)) else Inl ''schema_invalid'')"

definition CacheDirective_from_dict :: "json \<Rightarrow> code + cache_directive" where
  "CacheDirective_from_dict value =
    bindE (member value ''cacheable'' as_bool) (\<lambda>v0.
      Inr \<lparr>cd_cacheable = v0\<rparr>)"

definition CacheDirective_shape :: "json \<Rightarrow> bool" where
  "CacheDirective_shape v \<longleftrightarrow>
      closed_members v [''cacheable'']"

lemma CacheDirective_shape_members [simp]: "CacheDirective_shape (JObj (cache_directive_members r))"
  by (simp add: CacheDirective_shape_def cache_directive_members_def)

lemma cache_directive_roundtrip [simp]:
  assumes "limited (JObj (cache_directive_members r))" "cache_directive_schema True r"
  shows "CacheDirective_from_dict (JObj (cache_directive_members r)) = Inr r"
  using limited_members [OF assms(1)] assms(2)
  by (simp add: cache_directive_members_def cache_directive_schema_def CacheDirective_from_dict_def wire_classes
    option.map_ident )

section \<open>DeliveryPolicy\<close>

record delivery_policy =
  dp_max_attempts :: int
  dp_max_total_attempts :: int
  dp_base_delay_seconds :: int
  dp_max_delay_seconds :: int

definition delivery_policy_schema :: "bool \<Rightarrow> delivery_policy \<Rightarrow> bool" where
  "delivery_policy_schema fmt r \<longleftrightarrow>
      1 \<le> (dp_max_attempts r) \<and> (dp_max_attempts r) \<le> 100 \<and>
      1 \<le> (dp_max_total_attempts r) \<and> (dp_max_total_attempts r) \<le> 100 \<and>
      1 \<le> (dp_base_delay_seconds r) \<and> (dp_base_delay_seconds r) \<le> 3600 \<and>
      1 \<le> (dp_max_delay_seconds r) \<and> (dp_max_delay_seconds r) \<le> 86400"

definition delivery_policy_members :: "delivery_policy \<Rightarrow> (ustr \<times> json) list" where
  "delivery_policy_members r =
      req ''maxAttempts'' (JInt (dp_max_attempts r)) @
      req ''maxTotalAttempts'' (JInt (dp_max_total_attempts r)) @
      req ''baseDelaySeconds'' (JInt (dp_base_delay_seconds r)) @
      req ''maxDelaySeconds'' (JInt (dp_max_delay_seconds r)) @ []"

definition DeliveryPolicy_to_dict :: "delivery_policy \<Rightarrow> code + json" where
  "DeliveryPolicy_to_dict r =
    bindE (validate_memory_limits (JObj (delivery_policy_members r))) (\<lambda>_.
      if delivery_policy_schema True r then Inr (JObj (delivery_policy_members r)) else Inl ''schema_invalid'')"

definition DeliveryPolicy_from_dict :: "json \<Rightarrow> code + delivery_policy" where
  "DeliveryPolicy_from_dict value =
    bindE (member value ''maxAttempts'' as_int) (\<lambda>v0.
    bindE (member value ''maxTotalAttempts'' as_int) (\<lambda>v1.
    bindE (member value ''baseDelaySeconds'' as_int) (\<lambda>v2.
    bindE (member value ''maxDelaySeconds'' as_int) (\<lambda>v3.
      Inr \<lparr>dp_max_attempts = v0, dp_max_total_attempts = v1, dp_base_delay_seconds = v2, dp_max_delay_seconds = v3\<rparr>))))"

definition DeliveryPolicy_shape :: "json \<Rightarrow> bool" where
  "DeliveryPolicy_shape v \<longleftrightarrow>
      closed_members v [''maxAttempts'', ''maxTotalAttempts'', ''baseDelaySeconds'', ''maxDelaySeconds''] \<and>
      member_is v ''maxAttempts'' json_integer \<and>
      member_is v ''maxTotalAttempts'' json_integer \<and>
      member_is v ''baseDelaySeconds'' json_integer \<and>
      member_is v ''maxDelaySeconds'' json_integer"

lemma DeliveryPolicy_shape_members [simp]: "DeliveryPolicy_shape (JObj (delivery_policy_members r))"
  by (simp add: DeliveryPolicy_shape_def delivery_policy_members_def)

lemma delivery_policy_roundtrip [simp]:
  assumes "limited (JObj (delivery_policy_members r))" "delivery_policy_schema True r"
  shows "DeliveryPolicy_from_dict (JObj (delivery_policy_members r)) = Inr r"
  using limited_members [OF assms(1)] assms(2)
  by (simp add: delivery_policy_members_def delivery_policy_schema_def DeliveryPolicy_from_dict_def wire_classes
    option.map_ident )

section \<open>ReconciliationAcknowledgement\<close>

record reconciliation_acknowledgement =
  ak_receipt_id :: ustr
  ak_reconciliation_id :: ustr
  ak_evidence_hash :: ustr
  ak_acknowledged_at :: ustr

definition reconciliation_acknowledgement_schema :: "bool \<Rightarrow> reconciliation_acknowledgement \<Rightarrow> bool" where
  "reconciliation_acknowledgement_schema fmt r \<longleftrightarrow>
      ReceiptID_ok (ak_receipt_id r) \<and>
      ReconciliationID_ok (ak_reconciliation_id r) \<and>
      SHA256Digest_ok (ak_evidence_hash r) \<and>
      RFC3339Timestamp_ok fmt (ak_acknowledged_at r) \<and> length (ak_acknowledged_at r) \<le> 128"

definition reconciliation_acknowledgement_members :: "reconciliation_acknowledgement \<Rightarrow> (ustr \<times> json) list" where
  "reconciliation_acknowledgement_members r =
      req ''receiptId'' (JStr (ak_receipt_id r)) @
      req ''reconciliationId'' (JStr (ak_reconciliation_id r)) @
      req ''evidenceHash'' (JStr (ak_evidence_hash r)) @
      req ''acknowledgedAt'' (JStr (ak_acknowledged_at r)) @ []"

definition ReconciliationAcknowledgement_to_dict :: "reconciliation_acknowledgement \<Rightarrow> code + json" where
  "ReconciliationAcknowledgement_to_dict r =
    bindE (validate_memory_limits (JObj (reconciliation_acknowledgement_members r))) (\<lambda>_.
      if reconciliation_acknowledgement_schema True r then Inr (JObj (reconciliation_acknowledgement_members r)) else Inl ''schema_invalid'')"

definition ReconciliationAcknowledgement_from_dict :: "json \<Rightarrow> code + reconciliation_acknowledgement" where
  "ReconciliationAcknowledgement_from_dict value =
    bindE (member value ''receiptId'' ReceiptID) (\<lambda>v0.
    bindE (member value ''reconciliationId'' ReconciliationID) (\<lambda>v1.
    bindE (member value ''evidenceHash'' SHA256Digest) (\<lambda>v2.
    bindE (member value ''acknowledgedAt'' RFC3339Timestamp) (\<lambda>v3.
      Inr \<lparr>ak_receipt_id = v0, ak_reconciliation_id = v1, ak_evidence_hash = v2, ak_acknowledged_at = v3\<rparr>))))"

definition ReconciliationAcknowledgement_shape :: "json \<Rightarrow> bool" where
  "ReconciliationAcknowledgement_shape v \<longleftrightarrow>
      closed_members v [''receiptId'', ''reconciliationId'', ''evidenceHash'', ''acknowledgedAt'']"

lemma ReconciliationAcknowledgement_shape_members [simp]: "ReconciliationAcknowledgement_shape (JObj (reconciliation_acknowledgement_members r))"
  by (simp add: ReconciliationAcknowledgement_shape_def reconciliation_acknowledgement_members_def)

lemma reconciliation_acknowledgement_roundtrip [simp]:
  assumes "limited (JObj (reconciliation_acknowledgement_members r))" "reconciliation_acknowledgement_schema True r"
  shows "ReconciliationAcknowledgement_from_dict (JObj (reconciliation_acknowledgement_members r)) = Inr r"
  using limited_members [OF assms(1)] assms(2)
  by (simp add: reconciliation_acknowledgement_members_def reconciliation_acknowledgement_schema_def ReconciliationAcknowledgement_from_dict_def wire_classes
    option.map_ident )

section \<open>ReconciliationDiscard\<close>

record reconciliation_discard =
  di_authority_type :: discard_authority_type
  di_reason_code :: ustr

definition reconciliation_discard_schema :: "bool \<Rightarrow> reconciliation_discard \<Rightarrow> bool" where
  "reconciliation_discard_schema fmt r \<longleftrightarrow>
      reason_code_pattern (di_reason_code r)"

definition reconciliation_discard_members :: "reconciliation_discard \<Rightarrow> (ustr \<times> json) list" where
  "reconciliation_discard_members r =
      req ''authorityType'' (JStr (discard_authority_type_value (di_authority_type r))) @
      req ''reasonCode'' (JStr (di_reason_code r)) @ []"

definition ReconciliationDiscard_to_dict :: "reconciliation_discard \<Rightarrow> code + json" where
  "ReconciliationDiscard_to_dict r =
    bindE (validate_memory_limits (JObj (reconciliation_discard_members r))) (\<lambda>_.
      if reconciliation_discard_schema True r then Inr (JObj (reconciliation_discard_members r)) else Inl ''schema_invalid'')"

definition ReconciliationDiscard_from_dict :: "json \<Rightarrow> code + reconciliation_discard" where
  "ReconciliationDiscard_from_dict value =
    bindE (member value ''authorityType'' DiscardAuthorityType) (\<lambda>v0.
    bindE (member value ''reasonCode'' as_str) (\<lambda>v1.
      Inr \<lparr>di_authority_type = v0, di_reason_code = v1\<rparr>))"

definition ReconciliationDiscard_shape :: "json \<Rightarrow> bool" where
  "ReconciliationDiscard_shape v \<longleftrightarrow>
      closed_members v [''authorityType'', ''reasonCode'']"

lemma ReconciliationDiscard_shape_members [simp]: "ReconciliationDiscard_shape (JObj (reconciliation_discard_members r))"
  by (simp add: ReconciliationDiscard_shape_def reconciliation_discard_members_def)

lemma reconciliation_discard_roundtrip [simp]:
  assumes "limited (JObj (reconciliation_discard_members r))" "reconciliation_discard_schema True r"
  shows "ReconciliationDiscard_from_dict (JObj (reconciliation_discard_members r)) = Inr r"
  using limited_members [OF assms(1)] assms(2)
  by (simp add: reconciliation_discard_members_def reconciliation_discard_schema_def ReconciliationDiscard_from_dict_def wire_classes
    option.map_ident )

section \<open>ActionRequest\<close>

record action_request =
  rq_schema_version :: ustr
  rq_action_id :: ustr
  rq_request_id :: ustr
  rq_correlation_id :: ustr
  rq_idempotency_key :: ustr
  rq_adapter :: adapter
  rq_task :: task_binding
  rq_action :: action_name
  rq_target :: action_target
  rq_side_effect :: side_effect
  rq_occurred_at :: ustr
  rq_context :: action_context
  rq_causation_id :: "ustr option"
  rq_resume_from_approval_id :: "ustr option"
  rq_extensions :: "json option"

definition action_request_schema :: "bool \<Rightarrow> action_request \<Rightarrow> bool" where
  "action_request_schema fmt r \<longleftrightarrow>
      SchemaVersion_ok (rq_schema_version r) \<and>
      ActionID_ok (rq_action_id r) \<and>
      RequestID_ok (rq_request_id r) \<and>
      CorrelationID_ok (rq_correlation_id r) \<and>
      AuthorizationIdempotencyKey_ok (rq_idempotency_key r) \<and>
      adapter_schema fmt (rq_adapter r) \<and>
      task_binding_schema fmt (rq_task r) \<and>
      action_target_schema fmt (rq_target r) \<and>
      RFC3339Timestamp_ok fmt (rq_occurred_at r) \<and>
      action_context_schema fmt (rq_context r) \<and>
      all_opt CausationID_ok (rq_causation_id r) \<and>
      all_opt ApprovalID_ok (rq_resume_from_approval_id r) \<and>
      all_opt (\<lambda>x. extensions_schema x) (rq_extensions r) \<and>
      target_kind_schema (rq_action r) (tg_kind (rq_target r)) \<and> action_resource_schema (rq_action r) (tg_resource (rq_target r))"

definition action_request_members :: "action_request \<Rightarrow> (ustr \<times> json) list" where
  "action_request_members r =
      req ''schemaVersion'' (JStr (rq_schema_version r)) @
      req ''actionId'' (JStr (rq_action_id r)) @
      req ''requestId'' (JStr (rq_request_id r)) @
      req ''correlationId'' (JStr (rq_correlation_id r)) @
      req ''idempotencyKey'' (JStr (rq_idempotency_key r)) @
      req ''adapter'' (JObj (adapter_members (rq_adapter r))) @
      req ''task'' (JObj (task_binding_members (rq_task r))) @
      req ''action'' (JStr (action_name_value (rq_action r))) @
      req ''target'' (JObj (action_target_members (rq_target r))) @
      req ''sideEffect'' (JStr (side_effect_value (rq_side_effect r))) @
      req ''occurredAt'' (JStr (rq_occurred_at r)) @
      req ''context'' (JObj (action_context_members (rq_context r))) @
      opt ''causationId'' JStr (rq_causation_id r) @
      opt ''resumeFromApprovalId'' JStr (rq_resume_from_approval_id r) @
      opt ''extensions'' (\<lambda>x. x) (rq_extensions r) @ []"

definition ActionRequest_to_dict :: "action_request \<Rightarrow> code + json" where
  "ActionRequest_to_dict r =
    bindE (validate_memory_limits (JObj (action_request_members r))) (\<lambda>_.
      if action_request_schema True r then Inr (JObj (action_request_members r)) else Inl ''schema_invalid'')"

definition ActionRequest_from_dict :: "json \<Rightarrow> code + action_request" where
  "ActionRequest_from_dict value =
    bindE (member value ''schemaVersion'' SchemaVersion) (\<lambda>v0.
    bindE (member value ''actionId'' ActionID) (\<lambda>v1.
    bindE (member value ''requestId'' RequestID) (\<lambda>v2.
    bindE (member value ''correlationId'' CorrelationID) (\<lambda>v3.
    bindE (member value ''idempotencyKey'' AuthorizationIdempotencyKey) (\<lambda>v4.
    bindE (member value ''adapter'' Adapter_from_dict) (\<lambda>v5.
    bindE (member value ''task'' TaskBinding_from_dict) (\<lambda>v6.
    bindE (member value ''action'' ActionName) (\<lambda>v7.
    bindE (member value ''target'' ActionTarget_from_dict) (\<lambda>v8.
    bindE (member value ''sideEffect'' SideEffect) (\<lambda>v9.
    bindE (member value ''occurredAt'' RFC3339Timestamp) (\<lambda>v10.
    bindE (member value ''context'' ActionContext_from_dict) (\<lambda>v11.
    bindE (optional_member value ''causationId'' CausationID) (\<lambda>v12.
    bindE (optional_member value ''resumeFromApprovalId'' ApprovalID) (\<lambda>v13.
    bindE (optional_member value ''extensions'' copy_json) (\<lambda>v14.
      Inr \<lparr>rq_schema_version = v0, rq_action_id = v1, rq_request_id = v2, rq_correlation_id = v3, rq_idempotency_key = v4, rq_adapter = v5, rq_task = v6, rq_action = v7, rq_target = v8, rq_side_effect = v9, rq_occurred_at = v10, rq_context = v11, rq_causation_id = v12, rq_resume_from_approval_id = v13, rq_extensions = v14\<rparr>)))))))))))))))"

definition ActionRequest_shape :: "json \<Rightarrow> bool" where
  "ActionRequest_shape v \<longleftrightarrow>
      closed_members v [''schemaVersion'', ''actionId'', ''requestId'', ''correlationId'', ''idempotencyKey'', ''adapter'', ''task'', ''action'', ''target'', ''sideEffect'', ''occurredAt'', ''context'', ''causationId'', ''resumeFromApprovalId'', ''extensions''] \<and>
      member_is v ''adapter'' Adapter_shape \<and>
      member_is v ''task'' TaskBinding_shape \<and>
      member_is v ''target'' ActionTarget_shape \<and>
      member_is v ''context'' ActionContext_shape"

lemma ActionRequest_shape_members [simp]: "ActionRequest_shape (JObj (action_request_members r))"
  by (simp add: ActionRequest_shape_def action_request_members_def)

lemma action_request_roundtrip [simp]:
  assumes "limited (JObj (action_request_members r))" "action_request_schema True r"
  shows "ActionRequest_from_dict (JObj (action_request_members r)) = Inr r"
  using limited_members [OF assms(1)] assms(2)
  by (simp add: action_request_members_def action_request_schema_def ActionRequest_from_dict_def wire_classes
    option.map_ident )

section \<open>AuthorizationDecision\<close>

record authorization_decision =
  dc_schema_version :: ustr
  dc_request_id :: ustr
  dc_decision_id :: ustr
  dc_correlation_id :: ustr
  dc_outcome :: decision_outcome
  dc_reason_code :: ustr
  dc_display_reason :: ustr
  dc_client_scope_hash :: ustr
  dc_authoritative_scope_hash :: ustr
  dc_policy_revision :: ustr
  dc_server_time :: ustr
  dc_expires_at :: ustr
  dc_audit_ref :: ustr
  dc_cache :: cache_directive
  dc_approval :: "approval_summary option"
  dc_extensions :: "json option"

definition authorization_decision_schema :: "bool \<Rightarrow> authorization_decision \<Rightarrow> bool" where
  "authorization_decision_schema fmt r \<longleftrightarrow>
      SchemaVersion_ok (dc_schema_version r) \<and>
      RequestID_ok (dc_request_id r) \<and>
      DecisionID_ok (dc_decision_id r) \<and>
      CorrelationID_ok (dc_correlation_id r) \<and>
      reason_code_pattern (dc_reason_code r) \<and>
      SafeText_ok (dc_display_reason r) \<and> 1 \<le> length (dc_display_reason r) \<and> length (dc_display_reason r) \<le> 512 \<and>
      SHA256Digest_ok (dc_client_scope_hash r) \<and>
      SHA256Digest_ok (dc_authoritative_scope_hash r) \<and>
      policy_revision_pattern (dc_policy_revision r) \<and>
      RFC3339Timestamp_ok fmt (dc_server_time r) \<and>
      RFC3339Timestamp_ok fmt (dc_expires_at r) \<and>
      AuditRef_ok (dc_audit_ref r) \<and>
      cache_directive_schema fmt (dc_cache r) \<and>
      all_opt (approval_summary_schema fmt) (dc_approval r) \<and>
      all_opt (\<lambda>x. extensions_schema x) (dc_extensions r) \<and>
      (dc_outcome r = DO_APPROVAL_REQUIRED \<longleftrightarrow> dc_approval r \<noteq> None)"

definition authorization_decision_members :: "authorization_decision \<Rightarrow> (ustr \<times> json) list" where
  "authorization_decision_members r =
      req ''schemaVersion'' (JStr (dc_schema_version r)) @
      req ''requestId'' (JStr (dc_request_id r)) @
      req ''decisionId'' (JStr (dc_decision_id r)) @
      req ''correlationId'' (JStr (dc_correlation_id r)) @
      req ''outcome'' (JStr (decision_outcome_value (dc_outcome r))) @
      req ''reasonCode'' (JStr (dc_reason_code r)) @
      req ''displayReason'' (JStr (dc_display_reason r)) @
      req ''clientScopeHash'' (JStr (dc_client_scope_hash r)) @
      req ''authoritativeScopeHash'' (JStr (dc_authoritative_scope_hash r)) @
      req ''policyRevision'' (JStr (dc_policy_revision r)) @
      req ''serverTime'' (JStr (dc_server_time r)) @
      req ''expiresAt'' (JStr (dc_expires_at r)) @
      req ''auditRef'' (JStr (dc_audit_ref r)) @
      req ''cache'' (JObj (cache_directive_members (dc_cache r))) @
      opt ''approval'' (\<lambda>x. JObj (approval_summary_members x)) (dc_approval r) @
      opt ''extensions'' (\<lambda>x. x) (dc_extensions r) @ []"

definition AuthorizationDecision_to_dict :: "authorization_decision \<Rightarrow> code + json" where
  "AuthorizationDecision_to_dict r =
    bindE (validate_memory_limits (JObj (authorization_decision_members r))) (\<lambda>_.
      if authorization_decision_schema True r then Inr (JObj (authorization_decision_members r)) else Inl ''schema_invalid'')"

definition AuthorizationDecision_from_dict :: "json \<Rightarrow> code + authorization_decision" where
  "AuthorizationDecision_from_dict value =
    bindE (member value ''schemaVersion'' SchemaVersion) (\<lambda>v0.
    bindE (member value ''requestId'' RequestID) (\<lambda>v1.
    bindE (member value ''decisionId'' DecisionID) (\<lambda>v2.
    bindE (member value ''correlationId'' CorrelationID) (\<lambda>v3.
    bindE (member value ''outcome'' DecisionOutcome) (\<lambda>v4.
    bindE (member value ''reasonCode'' as_str) (\<lambda>v5.
    bindE (member value ''displayReason'' SafeText) (\<lambda>v6.
    bindE (member value ''clientScopeHash'' SHA256Digest) (\<lambda>v7.
    bindE (member value ''authoritativeScopeHash'' SHA256Digest) (\<lambda>v8.
    bindE (member value ''policyRevision'' as_str) (\<lambda>v9.
    bindE (member value ''serverTime'' RFC3339Timestamp) (\<lambda>v10.
    bindE (member value ''expiresAt'' RFC3339Timestamp) (\<lambda>v11.
    bindE (member value ''auditRef'' AuditRef) (\<lambda>v12.
    bindE (member value ''cache'' CacheDirective_from_dict) (\<lambda>v13.
    bindE (optional_member value ''approval'' ApprovalSummary_from_dict) (\<lambda>v14.
    bindE (optional_member value ''extensions'' copy_json) (\<lambda>v15.
      Inr \<lparr>dc_schema_version = v0, dc_request_id = v1, dc_decision_id = v2, dc_correlation_id = v3, dc_outcome = v4, dc_reason_code = v5, dc_display_reason = v6, dc_client_scope_hash = v7, dc_authoritative_scope_hash = v8, dc_policy_revision = v9, dc_server_time = v10, dc_expires_at = v11, dc_audit_ref = v12, dc_cache = v13, dc_approval = v14, dc_extensions = v15\<rparr>))))))))))))))))"

definition AuthorizationDecision_shape :: "json \<Rightarrow> bool" where
  "AuthorizationDecision_shape v \<longleftrightarrow>
      closed_members v [''schemaVersion'', ''requestId'', ''decisionId'', ''correlationId'', ''outcome'', ''reasonCode'', ''displayReason'', ''clientScopeHash'', ''authoritativeScopeHash'', ''policyRevision'', ''serverTime'', ''expiresAt'', ''auditRef'', ''cache'', ''approval'', ''extensions''] \<and>
      member_is v ''cache'' CacheDirective_shape \<and>
      member_is v ''approval'' ApprovalSummary_shape"

lemma AuthorizationDecision_shape_members [simp]: "AuthorizationDecision_shape (JObj (authorization_decision_members r))"
  by (simp add: AuthorizationDecision_shape_def authorization_decision_members_def)

lemma authorization_decision_roundtrip [simp]:
  assumes "limited (JObj (authorization_decision_members r))" "authorization_decision_schema True r"
  shows "AuthorizationDecision_from_dict (JObj (authorization_decision_members r)) = Inr r"
  using limited_members [OF assms(1)] assms(2)
  by (simp add: authorization_decision_members_def authorization_decision_schema_def AuthorizationDecision_from_dict_def wire_classes
    option.map_ident decode_opt_doc [OF approval_summary_roundtrip])

section \<open>ApprovalRecord\<close>

record approval_record =
  ap_schema_version :: ustr
  ap_approval_id :: ustr
  ap_action_id :: ustr
  ap_correlation_id :: ustr
  ap_authoritative_scope_hash :: ustr
  ap_status :: approval_status
  ap_requested_at :: ustr
  ap_expires_at :: ustr
  ap_requester_ref :: ustr
  ap_authorization_decision_id :: ustr
  ap_creation_audit_ref :: ustr
  ap_reviewer_ref :: "ustr option"
  ap_decided_at :: "ustr option"
  ap_resolution_audit_ref :: "ustr option"
  ap_resolution_decision_id :: "ustr option"
  ap_resolution_reason_code :: "ustr option"
  ap_resolution_idempotency_key :: "ustr option"
  ap_extensions :: "json option"

definition approval_record_schema :: "bool \<Rightarrow> approval_record \<Rightarrow> bool" where
  "approval_record_schema fmt r \<longleftrightarrow>
      SchemaVersion_ok (ap_schema_version r) \<and>
      ApprovalID_ok (ap_approval_id r) \<and>
      ActionID_ok (ap_action_id r) \<and>
      CorrelationID_ok (ap_correlation_id r) \<and>
      SHA256Digest_ok (ap_authoritative_scope_hash r) \<and>
      RFC3339Timestamp_ok fmt (ap_requested_at r) \<and>
      RFC3339Timestamp_ok fmt (ap_expires_at r) \<and>
      PrincipalRef_ok (ap_requester_ref r) \<and>
      DecisionID_ok (ap_authorization_decision_id r) \<and>
      AuditRef_ok (ap_creation_audit_ref r) \<and>
      all_opt PrincipalRef_ok (ap_reviewer_ref r) \<and>
      all_opt (RFC3339Timestamp_ok fmt) (ap_decided_at r) \<and>
      all_opt AuditRef_ok (ap_resolution_audit_ref r) \<and>
      all_opt DecisionID_ok (ap_resolution_decision_id r) \<and>
      all_opt (\<lambda>x. reason_code_pattern x) (ap_resolution_reason_code r) \<and>
      all_opt ApprovalResolutionIdempotencyKey_ok (ap_resolution_idempotency_key r) \<and>
      all_opt (\<lambda>x. extensions_schema x) (ap_extensions r) \<and>
      (if ap_status r = AS_PENDING
        then ap_reviewer_ref r = None \<and> ap_decided_at r = None \<and> ap_resolution_audit_ref r = None \<and>
             ap_resolution_decision_id r = None \<and> ap_resolution_reason_code r = None \<and>
             ap_resolution_idempotency_key r = None
        else ap_decided_at r \<noteq> None \<and> ap_resolution_audit_ref r \<noteq> None \<and>
             ap_resolution_decision_id r \<noteq> None \<and> ap_resolution_reason_code r \<noteq> None \<and>
             ap_resolution_idempotency_key r \<noteq> None) \<and>
      (ap_status r = AS_APPROVED \<or> ap_status r = AS_DENIED \<longleftrightarrow> ap_reviewer_ref r \<noteq> None)"

definition approval_record_members :: "approval_record \<Rightarrow> (ustr \<times> json) list" where
  "approval_record_members r =
      req ''schemaVersion'' (JStr (ap_schema_version r)) @
      req ''approvalId'' (JStr (ap_approval_id r)) @
      req ''actionId'' (JStr (ap_action_id r)) @
      req ''correlationId'' (JStr (ap_correlation_id r)) @
      req ''authoritativeScopeHash'' (JStr (ap_authoritative_scope_hash r)) @
      req ''status'' (JStr (approval_status_value (ap_status r))) @
      req ''requestedAt'' (JStr (ap_requested_at r)) @
      req ''expiresAt'' (JStr (ap_expires_at r)) @
      req ''requesterRef'' (JStr (ap_requester_ref r)) @
      req ''authorizationDecisionId'' (JStr (ap_authorization_decision_id r)) @
      req ''creationAuditRef'' (JStr (ap_creation_audit_ref r)) @
      opt ''reviewerRef'' JStr (ap_reviewer_ref r) @
      opt ''decidedAt'' JStr (ap_decided_at r) @
      opt ''resolutionAuditRef'' JStr (ap_resolution_audit_ref r) @
      opt ''resolutionDecisionId'' JStr (ap_resolution_decision_id r) @
      opt ''resolutionReasonCode'' JStr (ap_resolution_reason_code r) @
      opt ''resolutionIdempotencyKey'' JStr (ap_resolution_idempotency_key r) @
      opt ''extensions'' (\<lambda>x. x) (ap_extensions r) @ []"

definition ApprovalRecord_to_dict :: "approval_record \<Rightarrow> code + json" where
  "ApprovalRecord_to_dict r =
    bindE (validate_memory_limits (JObj (approval_record_members r))) (\<lambda>_.
      if approval_record_schema True r then Inr (JObj (approval_record_members r)) else Inl ''schema_invalid'')"

definition ApprovalRecord_from_dict :: "json \<Rightarrow> code + approval_record" where
  "ApprovalRecord_from_dict value =
    bindE (member value ''schemaVersion'' SchemaVersion) (\<lambda>v0.
    bindE (member value ''approvalId'' ApprovalID) (\<lambda>v1.
    bindE (member value ''actionId'' ActionID) (\<lambda>v2.
    bindE (member value ''correlationId'' CorrelationID) (\<lambda>v3.
    bindE (member value ''authoritativeScopeHash'' SHA256Digest) (\<lambda>v4.
    bindE (member value ''status'' ApprovalStatus) (\<lambda>v5.
    bindE (member value ''requestedAt'' RFC3339Timestamp) (\<lambda>v6.
    bindE (member value ''expiresAt'' RFC3339Timestamp) (\<lambda>v7.
    bindE (member value ''requesterRef'' PrincipalRef) (\<lambda>v8.
    bindE (member value ''authorizationDecisionId'' DecisionID) (\<lambda>v9.
    bindE (member value ''creationAuditRef'' AuditRef) (\<lambda>v10.
    bindE (optional_member value ''reviewerRef'' PrincipalRef) (\<lambda>v11.
    bindE (optional_member value ''decidedAt'' RFC3339Timestamp) (\<lambda>v12.
    bindE (optional_member value ''resolutionAuditRef'' AuditRef) (\<lambda>v13.
    bindE (optional_member value ''resolutionDecisionId'' DecisionID) (\<lambda>v14.
    bindE (optional_member value ''resolutionReasonCode'' as_str) (\<lambda>v15.
    bindE (optional_member value ''resolutionIdempotencyKey'' ApprovalResolutionIdempotencyKey) (\<lambda>v16.
    bindE (optional_member value ''extensions'' copy_json) (\<lambda>v17.
      Inr \<lparr>ap_schema_version = v0, ap_approval_id = v1, ap_action_id = v2, ap_correlation_id = v3, ap_authoritative_scope_hash = v4, ap_status = v5, ap_requested_at = v6, ap_expires_at = v7, ap_requester_ref = v8, ap_authorization_decision_id = v9, ap_creation_audit_ref = v10, ap_reviewer_ref = v11, ap_decided_at = v12, ap_resolution_audit_ref = v13, ap_resolution_decision_id = v14, ap_resolution_reason_code = v15, ap_resolution_idempotency_key = v16, ap_extensions = v17\<rparr>))))))))))))))))))"

definition ApprovalRecord_shape :: "json \<Rightarrow> bool" where
  "ApprovalRecord_shape v \<longleftrightarrow>
      closed_members v [''schemaVersion'', ''approvalId'', ''actionId'', ''correlationId'', ''authoritativeScopeHash'', ''status'', ''requestedAt'', ''expiresAt'', ''requesterRef'', ''authorizationDecisionId'', ''creationAuditRef'', ''reviewerRef'', ''decidedAt'', ''resolutionAuditRef'', ''resolutionDecisionId'', ''resolutionReasonCode'', ''resolutionIdempotencyKey'', ''extensions'']"

lemma ApprovalRecord_shape_members [simp]: "ApprovalRecord_shape (JObj (approval_record_members r))"
  by (simp add: ApprovalRecord_shape_def approval_record_members_def)

lemma approval_record_roundtrip [simp]:
  assumes "limited (JObj (approval_record_members r))" "approval_record_schema True r"
  shows "ApprovalRecord_from_dict (JObj (approval_record_members r)) = Inr r"
  using limited_members [OF assms(1)] assms(2)
  by (simp add: approval_record_members_def approval_record_schema_def ApprovalRecord_from_dict_def wire_classes
    option.map_ident )

section \<open>ProtocolError\<close>

record protocol_error =
  pe_schema_version :: ustr
  pe_code :: protocol_error_code
  pe_safe_message :: ustr
  pe_retryable :: bool
  pe_action_id :: "ustr option"
  pe_request_id :: "ustr option"
  pe_correlation_id :: "ustr option"
  pe_decision_id :: "ustr option"
  pe_approval_id :: "ustr option"
  pe_audit_ref :: "ustr option"
  pe_extensions :: "json option"

definition protocol_error_schema :: "bool \<Rightarrow> protocol_error \<Rightarrow> bool" where
  "protocol_error_schema fmt r \<longleftrightarrow>
      SchemaVersion_ok (pe_schema_version r) \<and>
      SafeText_ok (pe_safe_message r) \<and> 1 \<le> length (pe_safe_message r) \<and> length (pe_safe_message r) \<le> 512 \<and>
      all_opt ActionID_ok (pe_action_id r) \<and>
      all_opt RequestID_ok (pe_request_id r) \<and>
      all_opt CorrelationID_ok (pe_correlation_id r) \<and>
      all_opt DecisionID_ok (pe_decision_id r) \<and>
      all_opt ApprovalID_ok (pe_approval_id r) \<and>
      all_opt AuditRef_ok (pe_audit_ref r) \<and>
      all_opt (\<lambda>x. empty_extensions x) (pe_extensions r) \<and>
      pe_safe_message r = error_safe_message (pe_code r) \<and> (pe_retryable r \<longleftrightarrow> pe_code r = PE_AUTHORIZATION_UNAVAILABLE)"

definition protocol_error_members :: "protocol_error \<Rightarrow> (ustr \<times> json) list" where
  "protocol_error_members r =
      req ''schemaVersion'' (JStr (pe_schema_version r)) @
      req ''code'' (JStr (protocol_error_code_value (pe_code r))) @
      req ''safeMessage'' (JStr (pe_safe_message r)) @
      req ''retryable'' (JBool (pe_retryable r)) @
      opt ''actionId'' JStr (pe_action_id r) @
      opt ''requestId'' JStr (pe_request_id r) @
      opt ''correlationId'' JStr (pe_correlation_id r) @
      opt ''decisionId'' JStr (pe_decision_id r) @
      opt ''approvalId'' JStr (pe_approval_id r) @
      opt ''auditRef'' JStr (pe_audit_ref r) @
      opt ''extensions'' (\<lambda>x. x) (pe_extensions r) @ []"

definition ProtocolError_to_dict :: "protocol_error \<Rightarrow> code + json" where
  "ProtocolError_to_dict r =
    bindE (validate_memory_limits (JObj (protocol_error_members r))) (\<lambda>_.
      if protocol_error_schema True r then Inr (JObj (protocol_error_members r)) else Inl ''schema_invalid'')"

definition ProtocolError_from_dict :: "json \<Rightarrow> code + protocol_error" where
  "ProtocolError_from_dict value =
    bindE (member value ''schemaVersion'' SchemaVersion) (\<lambda>v0.
    bindE (member value ''code'' ProtocolErrorCode) (\<lambda>v1.
    bindE (member value ''safeMessage'' SafeText) (\<lambda>v2.
    bindE (member value ''retryable'' as_bool) (\<lambda>v3.
    bindE (optional_member value ''actionId'' ActionID) (\<lambda>v4.
    bindE (optional_member value ''requestId'' RequestID) (\<lambda>v5.
    bindE (optional_member value ''correlationId'' CorrelationID) (\<lambda>v6.
    bindE (optional_member value ''decisionId'' DecisionID) (\<lambda>v7.
    bindE (optional_member value ''approvalId'' ApprovalID) (\<lambda>v8.
    bindE (optional_member value ''auditRef'' AuditRef) (\<lambda>v9.
    bindE (optional_member value ''extensions'' copy_json) (\<lambda>v10.
      Inr \<lparr>pe_schema_version = v0, pe_code = v1, pe_safe_message = v2, pe_retryable = v3, pe_action_id = v4, pe_request_id = v5, pe_correlation_id = v6, pe_decision_id = v7, pe_approval_id = v8, pe_audit_ref = v9, pe_extensions = v10\<rparr>)))))))))))"

definition ProtocolError_shape :: "json \<Rightarrow> bool" where
  "ProtocolError_shape v \<longleftrightarrow>
      closed_members v [''schemaVersion'', ''code'', ''safeMessage'', ''retryable'', ''actionId'', ''requestId'', ''correlationId'', ''decisionId'', ''approvalId'', ''auditRef'', ''extensions'']"

lemma ProtocolError_shape_members [simp]: "ProtocolError_shape (JObj (protocol_error_members r))"
  by (simp add: ProtocolError_shape_def protocol_error_members_def)

lemma protocol_error_roundtrip [simp]:
  assumes "limited (JObj (protocol_error_members r))" "protocol_error_schema True r"
  shows "ProtocolError_from_dict (JObj (protocol_error_members r)) = Inr r"
  using limited_members [OF assms(1)] assms(2)
  by (simp add: protocol_error_members_def protocol_error_schema_def ProtocolError_from_dict_def wire_classes
    option.map_ident )

section \<open>ReconciliationRecord\<close>

record reconciliation_record =
  rr_schema_version :: ustr
  rr_reconciliation_id :: ustr
  rr_action_id :: ustr
  rr_request_id :: ustr
  rr_correlation_id :: ustr
  rr_authorization_idempotency_key :: ustr
  rr_client_id :: ustr
  rr_action :: action_name
  rr_target_kind :: target_kind
  rr_outcome :: reconciliation_outcome
  rr_reason_code :: ustr
  rr_observed_at :: ustr
  rr_batch_id :: ustr
  rr_batch_sequence :: int
  rr_delivery_policy :: delivery_policy
  rr_attempt_count :: int
  rr_delivery_disposition :: delivery_disposition
  rr_state :: reconciliation_state
  rr_decision_id :: "ustr option"
  rr_client_scope_hash :: "ustr option"
  rr_authoritative_scope_hash :: "ustr option"
  rr_last_attempt_at :: "ustr option"
  rr_next_attempt_at :: "ustr option"
  rr_manual_reason_code :: "ustr option"
  rr_acknowledged_at :: "ustr option"
  rr_acknowledgement :: "reconciliation_acknowledgement option"
  rr_discarded_at :: "ustr option"
  rr_discard :: "reconciliation_discard option"
  rr_extensions :: "json option"

definition error_reason_codes :: "ustr list" where
  "error_reason_codes = map protocol_error_code_value
    [PE_INVALID_REQUEST, PE_MISSING_IDENTITY, PE_UNSUPPORTED_PROTOCOL, PE_AUTHENTICATION_FAILED,
     PE_AUTHORIZATION_UNAVAILABLE, PE_INVALID_DECISION, PE_IDEMPOTENCY_CONFLICT, PE_APPROVAL_EXPIRED,
     PE_APPROVAL_SCOPE_MISMATCH, PE_CREDENTIAL_REVOKED, PE_POLICY_DENIED]"

definition reconciliation_conditions :: "reconciliation_record \<Rightarrow> bool" where
  "reconciliation_conditions r \<longleftrightarrow>
    (rr_delivery_disposition r = MANUAL_INTERVENTION \<longleftrightarrow> rr_manual_reason_code r \<noteq> None) \<and>
    (if rr_outcome r = RO_ERROR
     then rr_reason_code r \<in> set error_reason_codes \<and> rr_decision_id r = None
     else rr_decision_id r \<noteq> None \<and> rr_client_scope_hash r \<noteq> None \<and> rr_authoritative_scope_hash r \<noteq> None) \<and>
    (case rr_state r of
       RS_PENDING \<Rightarrow>
         rr_next_attempt_at r = None \<and> rr_acknowledged_at r = None \<and> rr_acknowledgement r = None \<and>
         rr_discarded_at r = None \<and> rr_discard r = None
     | RS_SENDING \<Rightarrow>
         rr_last_attempt_at r \<noteq> None \<and> 1 \<le> rr_attempt_count r \<and>
         rr_next_attempt_at r = None \<and> rr_acknowledged_at r = None \<and> rr_acknowledgement r = None \<and>
         rr_discarded_at r = None \<and> rr_discard r = None
     | RS_RETRY_WAIT \<Rightarrow>
         rr_last_attempt_at r \<noteq> None \<and> rr_next_attempt_at r \<noteq> None \<and> 1 \<le> rr_attempt_count r \<and>
         rr_delivery_disposition r = AUTOMATIC \<and> rr_acknowledged_at r = None \<and> rr_acknowledgement r = None \<and>
         rr_discarded_at r = None \<and> rr_discard r = None
     | RS_ACKNOWLEDGED \<Rightarrow>
         rr_last_attempt_at r \<noteq> None \<and> rr_acknowledged_at r \<noteq> None \<and> rr_acknowledgement r \<noteq> None \<and>
         1 \<le> rr_attempt_count r \<and> rr_next_attempt_at r = None \<and> rr_discarded_at r = None \<and> rr_discard r = None
     | RS_DISCARDED \<Rightarrow>
         rr_discarded_at r \<noteq> None \<and> rr_discard r \<noteq> None \<and> rr_next_attempt_at r = None \<and>
         rr_acknowledged_at r = None \<and> rr_acknowledgement r = None) \<and>
    target_kind_schema (rr_action r) (rr_target_kind r)"

definition reconciliation_record_schema :: "bool \<Rightarrow> reconciliation_record \<Rightarrow> bool" where
  "reconciliation_record_schema fmt r \<longleftrightarrow>
      SchemaVersion_ok (rr_schema_version r) \<and>
      ReconciliationID_ok (rr_reconciliation_id r) \<and>
      ActionID_ok (rr_action_id r) \<and>
      RequestID_ok (rr_request_id r) \<and>
      CorrelationID_ok (rr_correlation_id r) \<and>
      AuthorizationIdempotencyKey_ok (rr_authorization_idempotency_key r) \<and>
      client_id_pattern (rr_client_id r) \<and>
      reason_code_pattern (rr_reason_code r) \<and>
      RFC3339Timestamp_ok fmt (rr_observed_at r) \<and> length (rr_observed_at r) \<le> 128 \<and>
      BatchID_ok (rr_batch_id r) \<and>
      0 \<le> (rr_batch_sequence r) \<and> (rr_batch_sequence r) \<le> 2147483647 \<and>
      delivery_policy_schema fmt (rr_delivery_policy r) \<and>
      0 \<le> (rr_attempt_count r) \<and> (rr_attempt_count r) \<le> 100 \<and>
      all_opt DecisionID_ok (rr_decision_id r) \<and>
      all_opt SHA256Digest_ok (rr_client_scope_hash r) \<and>
      all_opt SHA256Digest_ok (rr_authoritative_scope_hash r) \<and>
      all_opt (\<lambda>x. RFC3339Timestamp_ok fmt x \<and> length x \<le> 128) (rr_last_attempt_at r) \<and>
      all_opt (\<lambda>x. RFC3339Timestamp_ok fmt x \<and> length x \<le> 128) (rr_next_attempt_at r) \<and>
      all_opt (\<lambda>x. x = lit ''attempt_limit_reached'') (rr_manual_reason_code r) \<and>
      all_opt (\<lambda>x. RFC3339Timestamp_ok fmt x \<and> length x \<le> 128) (rr_acknowledged_at r) \<and>
      all_opt (reconciliation_acknowledgement_schema fmt) (rr_acknowledgement r) \<and>
      all_opt (\<lambda>x. RFC3339Timestamp_ok fmt x \<and> length x \<le> 128) (rr_discarded_at r) \<and>
      all_opt (reconciliation_discard_schema fmt) (rr_discard r) \<and>
      all_opt (\<lambda>x. empty_extensions x) (rr_extensions r) \<and>
      reconciliation_conditions r"

definition reconciliation_record_members :: "reconciliation_record \<Rightarrow> (ustr \<times> json) list" where
  "reconciliation_record_members r =
      req ''schemaVersion'' (JStr (rr_schema_version r)) @
      req ''reconciliationId'' (JStr (rr_reconciliation_id r)) @
      req ''actionId'' (JStr (rr_action_id r)) @
      req ''requestId'' (JStr (rr_request_id r)) @
      req ''correlationId'' (JStr (rr_correlation_id r)) @
      req ''authorizationIdempotencyKey'' (JStr (rr_authorization_idempotency_key r)) @
      req ''clientId'' (JStr (rr_client_id r)) @
      req ''action'' (JStr (action_name_value (rr_action r))) @
      req ''targetKind'' (JStr (target_kind_value (rr_target_kind r))) @
      req ''outcome'' (JStr (reconciliation_outcome_value (rr_outcome r))) @
      req ''reasonCode'' (JStr (rr_reason_code r)) @
      req ''observedAt'' (JStr (rr_observed_at r)) @
      req ''batchId'' (JStr (rr_batch_id r)) @
      req ''batchSequence'' (JInt (rr_batch_sequence r)) @
      req ''deliveryPolicy'' (JObj (delivery_policy_members (rr_delivery_policy r))) @
      req ''attemptCount'' (JInt (rr_attempt_count r)) @
      req ''deliveryDisposition'' (JStr (delivery_disposition_value (rr_delivery_disposition r))) @
      req ''state'' (JStr (reconciliation_state_value (rr_state r))) @
      opt ''decisionId'' JStr (rr_decision_id r) @
      opt ''clientScopeHash'' JStr (rr_client_scope_hash r) @
      opt ''authoritativeScopeHash'' JStr (rr_authoritative_scope_hash r) @
      opt ''lastAttemptAt'' JStr (rr_last_attempt_at r) @
      opt ''nextAttemptAt'' JStr (rr_next_attempt_at r) @
      opt ''manualReasonCode'' JStr (rr_manual_reason_code r) @
      opt ''acknowledgedAt'' JStr (rr_acknowledged_at r) @
      opt ''acknowledgement'' (\<lambda>x. JObj (reconciliation_acknowledgement_members x)) (rr_acknowledgement r) @
      opt ''discardedAt'' JStr (rr_discarded_at r) @
      opt ''discard'' (\<lambda>x. JObj (reconciliation_discard_members x)) (rr_discard r) @
      opt ''extensions'' (\<lambda>x. x) (rr_extensions r) @ []"

definition ReconciliationRecord_to_dict :: "reconciliation_record \<Rightarrow> code + json" where
  "ReconciliationRecord_to_dict r =
    bindE (validate_memory_limits (JObj (reconciliation_record_members r))) (\<lambda>_.
      if reconciliation_record_schema True r then Inr (JObj (reconciliation_record_members r)) else Inl ''schema_invalid'')"

definition ReconciliationRecord_from_dict :: "json \<Rightarrow> code + reconciliation_record" where
  "ReconciliationRecord_from_dict value =
    bindE (member value ''schemaVersion'' SchemaVersion) (\<lambda>v0.
    bindE (member value ''reconciliationId'' ReconciliationID) (\<lambda>v1.
    bindE (member value ''actionId'' ActionID) (\<lambda>v2.
    bindE (member value ''requestId'' RequestID) (\<lambda>v3.
    bindE (member value ''correlationId'' CorrelationID) (\<lambda>v4.
    bindE (member value ''authorizationIdempotencyKey'' AuthorizationIdempotencyKey) (\<lambda>v5.
    bindE (member value ''clientId'' as_str) (\<lambda>v6.
    bindE (member value ''action'' ActionName) (\<lambda>v7.
    bindE (member value ''targetKind'' TargetKind) (\<lambda>v8.
    bindE (member value ''outcome'' ReconciliationOutcome) (\<lambda>v9.
    bindE (member value ''reasonCode'' as_str) (\<lambda>v10.
    bindE (member value ''observedAt'' RFC3339Timestamp) (\<lambda>v11.
    bindE (member value ''batchId'' BatchID) (\<lambda>v12.
    bindE (member value ''batchSequence'' as_int) (\<lambda>v13.
    bindE (member value ''deliveryPolicy'' DeliveryPolicy_from_dict) (\<lambda>v14.
    bindE (member value ''attemptCount'' as_int) (\<lambda>v15.
    bindE (member value ''deliveryDisposition'' DeliveryDisposition) (\<lambda>v16.
    bindE (member value ''state'' ReconciliationState) (\<lambda>v17.
    bindE (optional_member value ''decisionId'' DecisionID) (\<lambda>v18.
    bindE (optional_member value ''clientScopeHash'' SHA256Digest) (\<lambda>v19.
    bindE (optional_member value ''authoritativeScopeHash'' SHA256Digest) (\<lambda>v20.
    bindE (optional_member value ''lastAttemptAt'' RFC3339Timestamp) (\<lambda>v21.
    bindE (optional_member value ''nextAttemptAt'' RFC3339Timestamp) (\<lambda>v22.
    bindE (optional_member value ''manualReasonCode'' as_str) (\<lambda>v23.
    bindE (optional_member value ''acknowledgedAt'' RFC3339Timestamp) (\<lambda>v24.
    bindE (optional_member value ''acknowledgement'' ReconciliationAcknowledgement_from_dict) (\<lambda>v25.
    bindE (optional_member value ''discardedAt'' RFC3339Timestamp) (\<lambda>v26.
    bindE (optional_member value ''discard'' ReconciliationDiscard_from_dict) (\<lambda>v27.
    bindE (optional_member value ''extensions'' copy_json) (\<lambda>v28.
      Inr \<lparr>rr_schema_version = v0, rr_reconciliation_id = v1, rr_action_id = v2, rr_request_id = v3, rr_correlation_id = v4, rr_authorization_idempotency_key = v5, rr_client_id = v6, rr_action = v7, rr_target_kind = v8, rr_outcome = v9, rr_reason_code = v10, rr_observed_at = v11, rr_batch_id = v12, rr_batch_sequence = v13, rr_delivery_policy = v14, rr_attempt_count = v15, rr_delivery_disposition = v16, rr_state = v17, rr_decision_id = v18, rr_client_scope_hash = v19, rr_authoritative_scope_hash = v20, rr_last_attempt_at = v21, rr_next_attempt_at = v22, rr_manual_reason_code = v23, rr_acknowledged_at = v24, rr_acknowledgement = v25, rr_discarded_at = v26, rr_discard = v27, rr_extensions = v28\<rparr>)))))))))))))))))))))))))))))"

definition ReconciliationRecord_shape :: "json \<Rightarrow> bool" where
  "ReconciliationRecord_shape v \<longleftrightarrow>
      closed_members v [''schemaVersion'', ''reconciliationId'', ''actionId'', ''requestId'', ''correlationId'', ''authorizationIdempotencyKey'', ''clientId'', ''action'', ''targetKind'', ''outcome'', ''reasonCode'', ''observedAt'', ''batchId'', ''batchSequence'', ''deliveryPolicy'', ''attemptCount'', ''deliveryDisposition'', ''state'', ''decisionId'', ''clientScopeHash'', ''authoritativeScopeHash'', ''lastAttemptAt'', ''nextAttemptAt'', ''manualReasonCode'', ''acknowledgedAt'', ''acknowledgement'', ''discardedAt'', ''discard'', ''extensions''] \<and>
      member_is v ''batchSequence'' json_integer \<and>
      member_is v ''deliveryPolicy'' DeliveryPolicy_shape \<and>
      member_is v ''attemptCount'' json_integer \<and>
      member_is v ''acknowledgement'' ReconciliationAcknowledgement_shape \<and>
      member_is v ''discard'' ReconciliationDiscard_shape"

lemma ReconciliationRecord_shape_members [simp]: "ReconciliationRecord_shape (JObj (reconciliation_record_members r))"
  by (simp add: ReconciliationRecord_shape_def reconciliation_record_members_def)

lemma reconciliation_record_roundtrip [simp]:
  assumes "limited (JObj (reconciliation_record_members r))" "reconciliation_record_schema True r"
  shows "ReconciliationRecord_from_dict (JObj (reconciliation_record_members r)) = Inr r"
  using limited_members [OF assms(1)] assms(2)
  by (simp add: reconciliation_record_members_def reconciliation_record_schema_def ReconciliationRecord_from_dict_def wire_classes
    option.map_ident decode_opt_doc [OF reconciliation_acknowledgement_roundtrip] decode_opt_doc [OF reconciliation_discard_roundtrip])

section \<open>Parsers\<close>

definition parse_action :: "json \<Rightarrow> code + action_request" where
  "parse_action value =
    (case value of
       JObj _ \<Rightarrow>
         bindE (validate_memory_limits value) (\<lambda>_.
           if ActionRequest_shape value then
             (case ActionRequest_from_dict value of
                Inr r \<Rightarrow> if action_request_schema True r then Inr r else Inl ''schema_invalid''
              | Inl _ \<Rightarrow> Inl ''schema_invalid'')
           else Inl ''schema_invalid'')
     | _ \<Rightarrow> Inl ''schema_invalid'')"

definition parse_decision :: "json \<Rightarrow> code + authorization_decision" where
  "parse_decision value =
    (case value of
       JObj _ \<Rightarrow>
         bindE (validate_memory_limits value) (\<lambda>_.
           if AuthorizationDecision_shape value then
             (case AuthorizationDecision_from_dict value of
                Inr r \<Rightarrow> if authorization_decision_schema True r then Inr r else Inl ''schema_invalid''
              | Inl _ \<Rightarrow> Inl ''schema_invalid'')
           else Inl ''schema_invalid'')
     | _ \<Rightarrow> Inl ''schema_invalid'')"

definition parse_approval :: "json \<Rightarrow> code + approval_record" where
  "parse_approval value =
    (case value of
       JObj _ \<Rightarrow>
         bindE (validate_memory_limits value) (\<lambda>_.
           if ApprovalRecord_shape value then
             (case ApprovalRecord_from_dict value of
                Inr r \<Rightarrow> if approval_record_schema True r then Inr r else Inl ''schema_invalid''
              | Inl _ \<Rightarrow> Inl ''schema_invalid'')
           else Inl ''schema_invalid'')
     | _ \<Rightarrow> Inl ''schema_invalid'')"

definition parse_error :: "json \<Rightarrow> code + protocol_error" where
  "parse_error value =
    (case value of
       JObj _ \<Rightarrow>
         bindE (validate_memory_limits value) (\<lambda>_.
           if ProtocolError_shape value then
             (case ProtocolError_from_dict value of
                Inr r \<Rightarrow> if protocol_error_schema True r then Inr r else Inl ''schema_invalid''
              | Inl _ \<Rightarrow> Inl ''schema_invalid'')
           else Inl ''schema_invalid'')
     | _ \<Rightarrow> Inl ''schema_invalid'')"

definition parse_reconciliation :: "json \<Rightarrow> code + reconciliation_record" where
  "parse_reconciliation value =
    (case value of
       JObj _ \<Rightarrow>
         bindE (validate_memory_limits value) (\<lambda>_.
           if ReconciliationRecord_shape value then
             (case ReconciliationRecord_from_dict value of
                Inr r \<Rightarrow> if reconciliation_record_schema True r then Inr r else Inl ''schema_invalid''
              | Inl _ \<Rightarrow> Inl ''schema_invalid'')
           else Inl ''schema_invalid'')
     | _ \<Rightarrow> Inl ''schema_invalid'')"

lemma parse_action_members:
  "ActionRequest_to_dict r = Inr j \<Longrightarrow> parse_action j = Inr r"
  by (auto simp: ActionRequest_to_dict_def to_dict_limits parse_action_def limited_def isOk_def split: sum.splits)

lemma parse_decision_members:
  "AuthorizationDecision_to_dict r = Inr j \<Longrightarrow> parse_decision j = Inr r"
  by (auto simp: AuthorizationDecision_to_dict_def to_dict_limits parse_decision_def limited_def isOk_def split: sum.splits)

lemma parse_approval_members:
  "ApprovalRecord_to_dict r = Inr j \<Longrightarrow> parse_approval j = Inr r"
  by (auto simp: ApprovalRecord_to_dict_def to_dict_limits parse_approval_def limited_def isOk_def split: sum.splits)

lemma parse_error_members:
  "ProtocolError_to_dict r = Inr j \<Longrightarrow> parse_error j = Inr r"
  by (auto simp: ProtocolError_to_dict_def to_dict_limits parse_error_def limited_def isOk_def split: sum.splits)

lemma parse_reconciliation_members:
  "ReconciliationRecord_to_dict r = Inr j \<Longrightarrow> parse_reconciliation j = Inr r"
  by (auto simp: ReconciliationRecord_to_dict_def to_dict_limits parse_reconciliation_def limited_def isOk_def split: sum.splits)

section \<open>Round trips of the documents\<close>

lemma lit_scalars [simp]: "scalars (lit s)"
proof (induction s)
  case (Cons c s)
  have "of_char c < (55296::nat)" using nat_of_char_less_256 [of c] by linarith
  then show ?case using Cons by (simp add: lit_Cons is_surrogate_def)
qed simp

lemma utf8_len_le: "utf8_len s \<le> 4 * length s"
  by (induction s) (simp_all, use utf8_char_length(2) in \<open>metis add_le_mono\<close>)

lemma small_string [simp]: "length s \<le> 2048 \<Longrightarrow> isOk (string_within (lit s))"
  using utf8_len_le [of "lit s"]
  by (simp add: string_within_def utf8_length_def MAX_WIRE_STRING_BYTES_def)

definition sample_ulid :: string where "sample_ulid = ''01ARZ3NDEKTSV4RRFFQ69G5FAV''"
definition sample_digest :: ustr where "sample_digest = lit (''sha256:'' @ replicate 64 (CHR ''a''))"
definition sample_time :: ustr where "sample_time = lit ''2026-01-02T03:04:05Z''"
definition sample_later :: ustr where "sample_later = lit ''2026-01-02T03:14:05Z''"

lemma sample_ulid_ok [simp]: "ulid_body (lit sample_ulid)"
  by (simp add: ulid_body_def sample_ulid_def lit_def is_crockford_def is_digit_def is_upper_def)

definition sample_id :: "string \<Rightarrow> ustr" where "sample_id p = lit (p @ sample_ulid)"

lemma sample_prefixed_ulid [simp]: "prefixed_ulid p (sample_id p)"
  by (simp add: prefixed_ulid_def sample_id_def lit_append)

lemma sample_digest_ok [simp]: "sha256_pattern sample_digest"
  by (simp add: sha256_pattern_def sample_digest_def lit_def is_hex_def is_digit_def eval_nat_numeral)

lemma sample_time_ok [simp]:
  "RFC3339Timestamp_ok fmt sample_time" "RFC3339Timestamp_ok fmt sample_later"
proof -
  have "timestamp_pattern sample_time" "is_rfc3339 sample_time" "timestamp_pattern sample_later" "is_rfc3339 sample_later"
    by code_simp+
  moreover have "safe_text sample_time" "safe_text sample_later"
    by (simp_all add: sample_time_def sample_later_def safe_text_def unsafe_char_def lit_def)
  ultimately show "RFC3339Timestamp_ok fmt sample_time" "RFC3339Timestamp_ok fmt sample_later"
    by (simp_all add: RFC3339Timestamp_ok_def)
qed

definition sample_action :: action_request where
  "sample_action = \<lparr>
     rq_schema_version = lit ''1'', rq_action_id = sample_id ''act_'',
     rq_request_id = sample_id ''req_'', rq_correlation_id = sample_id ''corr_'',
     rq_idempotency_key = sample_id ''authz_'',
     rq_adapter = \<lparr>ad_id = lit ''codex'', ad_version = lit ''1.0.0'', ad_host_version = lit ''1.2.0-rc.1'', ad_extensions = None\<rparr>,
     rq_task = \<lparr>tb_task_id = sample_id ''task_'', tb_session_id = sample_id ''session_'', tb_extensions = None\<rparr>,
     rq_action = FILE_READ,
     rq_target = \<lparr>tg_kind = LOCAL_ACTION, tg_service = lit ''workspace.local'', tg_resource = lit ''path:/src/main.py'',
                   tg_resource_hash = sample_digest, tg_extensions = None\<rparr>,
     rq_side_effect = READ_ONLY, rq_occurred_at = sample_time,
     rq_context = \<lparr>cx_cwd = None, cx_repository = None, cx_tool_name = Some (lit ''read''), cx_safe_display = None,
                    cx_extensions = None\<rparr>,
     rq_causation_id = None, rq_resume_from_approval_id = None, rq_extensions = None\<rparr>"

lemma sample_limits [simp]:
  "isOk (string_within sample_digest)" "isOk (string_within sample_time)" "isOk (string_within sample_later)"
  by (simp_all add: sample_digest_def sample_time_def sample_later_def)

lemma sample_id_limits [simp]: "length p \<le> 1000 \<Longrightarrow> isOk (string_within (sample_id p))"
  by (simp add: sample_id_def sample_ulid_def)

lemmas limit_eval = limited_def memory_limits_iff MAX_NODES_def MAX_NESTING_def MAX_COLLECTION_ITEMS_def req_def opt_def

lemmas class_eval = SchemaVersion_ok_def ActionID_ok_def RequestID_ok_def CorrelationID_ok_def CausationID_ok_def
  AuthorizationIdempotencyKey_ok_def TaskID_ok_def SessionID_ok_def DecisionID_ok_def ApprovalID_ok_def AuditRef_ok_def
  SHA256Digest_ok_def SafeText_ok_def ReconciliationID_ok_def BatchID_ok_def ReceiptID_ok_def
  ApprovalResolutionIdempotencyKey_ok_def

lemmas text_eval = safe_text_def unsafe_char_def lit_def is_digit_def is_lower_def is_upper_def is_alnum_def is_lower_alnum_def

lemma sample_versions [simp]: "SemanticVersion_ok (lit ''1.0.0'')" "SemanticVersion_ok (lit ''1.2.0-rc.1'')"
  by (simp_all add: SemanticVersion_ok_def semver_pattern_def cut_at_def numeric_id_def prerelease_id_def text_eval ident_char_def)

lemma sample_texts [simp]:
  "adapter_id_pattern (lit ''codex'')" "service_pattern (lit ''workspace.local'')"
  "safe_text (lit ''path:/src/main.py'')" "\<not> dot_segment (lit ''path:/src/main.py'')" "safe_text (lit ''read'')"
  by (simp_all add: adapter_id_pattern_def service_pattern_def dot_segment_def dns_label_def text_eval)

lemma sample_resource [simp]: "action_resource_schema FILE_READ (lit ''path:/src/main.py'')"
  by (simp add: action_resource_schema_def double_slash_def) (simp add: lit_def)

lemma sample_action_schema: "action_request_schema fmt sample_action"
  by (simp add: sample_action_def action_request_schema_def class_eval adapter_schema_def task_binding_schema_def
    action_target_schema_def action_context_schema_def target_kind_schema_def)

lemma sample_action_limited: "limited (JObj (action_request_members sample_action))"
  by (simp add: sample_action_def action_request_members_def limit_eval adapter_members_def task_binding_members_def
    action_target_members_def action_context_members_def)

definition sample_decision :: authorization_decision where
  "sample_decision = \<lparr>
     dc_schema_version = lit ''1'', dc_request_id = sample_id ''req_'', dc_decision_id = sample_id ''dec_'',
     dc_correlation_id = sample_id ''corr_'', dc_outcome = DO_APPROVAL_REQUIRED, dc_reason_code = lit ''review_required'',
     dc_display_reason = lit ''Review required.'', dc_client_scope_hash = sample_digest,
     dc_authoritative_scope_hash = sample_digest, dc_policy_revision = lit ''policy_7'', dc_server_time = sample_time,
     dc_expires_at = sample_later, dc_audit_ref = sample_id ''audit_'', dc_cache = \<lparr>cd_cacheable = False\<rparr>,
     dc_approval = Some \<lparr>sm_approval_id = sample_id ''apr_'', sm_status = AS_PENDING, sm_expires_at = sample_later,
                          sm_extensions = None\<rparr>,
     dc_extensions = None\<rparr>"

definition sample_approval :: approval_record where
  "sample_approval = \<lparr>
     ap_schema_version = lit ''1'', ap_approval_id = sample_id ''apr_'', ap_action_id = sample_id ''act_'',
     ap_correlation_id = sample_id ''corr_'', ap_authoritative_scope_hash = sample_digest, ap_status = AS_PENDING,
     ap_requested_at = sample_time, ap_expires_at = sample_later, ap_requester_ref = lit ''subject:ada'',
     ap_authorization_decision_id = sample_id ''dec_'', ap_creation_audit_ref = sample_id ''audit_'',
     ap_reviewer_ref = None, ap_decided_at = None, ap_resolution_audit_ref = None, ap_resolution_decision_id = None,
     ap_resolution_reason_code = None, ap_resolution_idempotency_key = None, ap_extensions = None\<rparr>"

definition sample_error :: protocol_error where
  "sample_error = \<lparr>
     pe_schema_version = lit ''1'', pe_code = PE_AUTHORIZATION_UNAVAILABLE,
     pe_safe_message = lit ''Authorization is temporarily unavailable.'', pe_retryable = True,
     pe_action_id = Some (sample_id ''act_''), pe_request_id = None, pe_correlation_id = None, pe_decision_id = None,
     pe_approval_id = None, pe_audit_ref = None, pe_extensions = None\<rparr>"

definition sample_policy :: delivery_policy where
  "sample_policy = \<lparr>dp_max_attempts = 3, dp_max_total_attempts = 5, dp_base_delay_seconds = 3, dp_max_delay_seconds = 5\<rparr>"

definition sample_reconciliation :: reconciliation_record where
  "sample_reconciliation = \<lparr>
     rr_schema_version = lit ''1'', rr_reconciliation_id = sample_id ''recon_'', rr_action_id = sample_id ''act_'',
     rr_request_id = sample_id ''req_'', rr_correlation_id = sample_id ''corr_'',
     rr_authorization_idempotency_key = sample_id ''authz_'', rr_client_id = lit ''codex'', rr_action = FILE_READ,
     rr_target_kind = LOCAL_ACTION, rr_outcome = RO_ERROR, rr_reason_code = lit ''authorization_unavailable'',
     rr_observed_at = sample_time, rr_batch_id = sample_id ''batch_'', rr_batch_sequence = 0,
     rr_delivery_policy = sample_policy, rr_attempt_count = 0, rr_delivery_disposition = AUTOMATIC, rr_state = RS_PENDING,
     rr_decision_id = None, rr_client_scope_hash = None, rr_authoritative_scope_hash = None, rr_last_attempt_at = None,
     rr_next_attempt_at = None, rr_manual_reason_code = None, rr_acknowledged_at = None, rr_acknowledgement = None,
     rr_discarded_at = None, rr_discard = None, rr_extensions = None\<rparr>"

lemma sample_more_texts [simp]:
  "reason_code_pattern (lit ''review_required'')" "safe_text (lit ''Review required.'')"
  "policy_revision_pattern (lit ''policy_7'')" "PrincipalRef_ok (lit ''subject:ada'')"
  "client_id_pattern (lit ''codex'')" "reason_code_pattern (lit ''authorization_unavailable'')"
  by (simp_all add: reason_code_pattern_def policy_revision_pattern_def PrincipalRef_ok_def principal_pattern_def
    client_id_pattern_def headed_token_def word_segments_def token_char_def name_char_def text_eval)

lemma sample_schemas:
  "authorization_decision_schema fmt sample_decision" "approval_record_schema fmt sample_approval"
  "protocol_error_schema fmt sample_error" "reconciliation_record_schema fmt sample_reconciliation"
  using error_safe_message_ok [of PE_AUTHORIZATION_UNAVAILABLE]
  by (simp_all add: sample_decision_def authorization_decision_schema_def class_eval cache_directive_schema_def
    approval_summary_schema_def sample_approval_def approval_record_schema_def sample_error_def
    protocol_error_schema_def sample_reconciliation_def reconciliation_record_schema_def sample_policy_def
    delivery_policy_schema_def sample_time_def [THEN arg_cong [of _ _ length]] reconciliation_conditions_def error_reason_codes_def target_kind_schema_def)

lemma sample_limited:
  "limited (JObj (authorization_decision_members sample_decision))" "limited (JObj (approval_record_members sample_approval))"
  "limited (JObj (protocol_error_members sample_error))" "limited (JObj (reconciliation_record_members sample_reconciliation))"
  by (simp_all add: limit_eval sample_decision_def authorization_decision_members_def cache_directive_members_def
    approval_summary_members_def sample_approval_def approval_record_members_def sample_error_def
    protocol_error_members_def sample_reconciliation_def reconciliation_record_members_def sample_policy_def
    delivery_policy_members_def)

lemma samples_ok:
  "ActionRequest_to_dict sample_action = Inr (JObj (action_request_members sample_action))"
  "AuthorizationDecision_to_dict sample_decision = Inr (JObj (authorization_decision_members sample_decision))"
  "ApprovalRecord_to_dict sample_approval = Inr (JObj (approval_record_members sample_approval))"
  "ProtocolError_to_dict sample_error = Inr (JObj (protocol_error_members sample_error))"
  "ReconciliationRecord_to_dict sample_reconciliation = Inr (JObj (reconciliation_record_members sample_reconciliation))"
  unfolding ActionRequest_to_dict_def AuthorizationDecision_to_dict_def ApprovalRecord_to_dict_def
    ProtocolError_to_dict_def ReconciliationRecord_to_dict_def to_dict_limits
  using sample_action_schema sample_action_limited sample_schemas sample_limited by simp_all

section \<open>Properties\<close>

text \<open>
  Every document that \<open>to_dict\<close> writes is read back by the parser of its kind as the same
  record: action requests, authorization decisions, approval records, errors and
  reconciliation records.
\<close>

theorem documents_roundtrip:
  "(ActionRequest_to_dict a = Inr ja \<longrightarrow> parse_action ja = Inr a) \<and>
   (AuthorizationDecision_to_dict d = Inr jd \<longrightarrow> parse_decision jd = Inr d) \<and>
   (ApprovalRecord_to_dict p = Inr jp \<longrightarrow> parse_approval jp = Inr p) \<and>
   (ProtocolError_to_dict e = Inr je \<longrightarrow> parse_error je = Inr e) \<and>
   (ReconciliationRecord_to_dict r = Inr jr \<longrightarrow> parse_reconciliation jr = Inr r)"
  by (simp add: parse_action_members parse_decision_members parse_approval_members parse_error_members
    parse_reconciliation_members)

theorem documents_roundtrip_witness:
  "parse_action (JObj (action_request_members sample_action)) = Inr sample_action \<and>
   parse_decision (JObj (authorization_decision_members sample_decision)) = Inr sample_decision \<and>
   parse_approval (JObj (approval_record_members sample_approval)) = Inr sample_approval \<and>
   parse_error (JObj (protocol_error_members sample_error)) = Inr sample_error \<and>
   parse_reconciliation (JObj (reconciliation_record_members sample_reconciliation)) = Inr sample_reconciliation"
  using documents_roundtrip [of sample_action "JObj (action_request_members sample_action)"
      sample_decision "JObj (authorization_decision_members sample_decision)"
      sample_approval "JObj (approval_record_members sample_approval)"
      sample_error "JObj (protocol_error_members sample_error)"
      sample_reconciliation "JObj (reconciliation_record_members sample_reconciliation)"]
  by (simp add: samples_ok)

end
