(* ===== verification/Documents.thy ===== *)
theory Documents
  imports Protocol_Dto Snapshot_Limits
begin

text \<open>
  The document validators of \<open>protocol/reference/validate.py\<close>: schema, timestamps and
  extension numbers of action requests, decisions, approval records and errors.
  A document is its decoded record; \<open>to_value\<close> is the dictionary that the canonical hash
  of the document walks.
\<close>

section \<open>The dictionary of a document\<close>

text \<open>A freshly built dictionary shares no container, so each one is named by its path.\<close>

function to_value :: "oid \<Rightarrow> json \<Rightarrow> pyval" where
  "to_value p JAbsent = PAbsent"
| "to_value p JNull = PNone"
| "to_value p (JBool b) = PBool b"
| "to_value p (JStr s) = PStr s"
| "to_value p (JInt i) = PInt i"
| "to_value p (JDec v) = PDec v"
| "to_value p (JObj kvs) = PMap p (map (\<lambda>(i, kv). (KStr (fst kv), to_value (p @ [i]) (snd kv))) (enumerate 0 kvs))"
| "to_value p (JArr xs) = PSeq p (map (\<lambda>(i, x). to_value (p @ [i]) x) (enumerate 0 xs))"
  by pat_completeness auto
termination
proof (relation "measure (\<lambda>(p, j). size j)", goal_cases)
  case (2 p kvs x i kv)
  then have "(fst kv, snd kv) \<in> set kvs" by (auto simp: in_set_enumerate_eq)
  then have "size_prod (\<lambda>x. 0) size (fst kv, snd kv) \<le> size_list (size_prod (\<lambda>x. 0) size) kvs"
    by (rule size_list_estimation') simp
  then show ?case by (cases kv) simp
next
  case (3 p xs y i x)
  then have "x \<in> set xs" by (auto simp: in_set_enumerate_eq)
  then show ?case using item_size by simp
qed simp

lemma enumerate_paths:
  assumes "\<And>i x. (i, x) \<in> set (enumerate n xs) \<Longrightarrow> distinct (f (i, x)) \<and> (\<forall>q \<in> set (f (i, x)). \<exists>r. q = p @ i # r)"
  shows "distinct (concat (map f (enumerate n xs))) \<and> (\<forall>q \<in> set (concat (map f (enumerate n xs))). \<exists>i r. n \<le> i \<and> q = p @ i # r)"
  using assms
proof (induction xs arbitrary: n)
  case (Cons x xs)
  have ih: "distinct (concat (map f (enumerate (Suc n) xs))) \<and> (\<forall>q \<in> set (concat (map f (enumerate (Suc n) xs))). \<exists>i r. Suc n \<le> i \<and> q = p @ i # r)"
    by (rule Cons.IH, rule Cons.prems) simp
  have x: "distinct (f (n, x))" "\<forall>q \<in> set (f (n, x)). \<exists>r. q = p @ n # r" using Cons.prems [of n x] by simp_all
  have "set (f (n, x)) \<inter> set (concat (map f (enumerate (Suc n) xs))) = {}" using ih x(2) by fastforce
  moreover have "\<exists>i r. n \<le> i \<and> q = p @ i # r" if "q \<in> set (f (n, x)) \<or> q \<in> set (concat (map f (enumerate (Suc n) xs)))" for q
    using that
  proof
    assume "q \<in> set (f (n, x))"
    then show ?thesis using x(2) by blast
  next
    assume "q \<in> set (concat (map f (enumerate (Suc n) xs)))"
    then obtain i r where "Suc n \<le> i" "q = p @ i # r" using ih by blast
    then show ?thesis using Suc_leD by blast
  qed
  ultimately show ?case using ih x(1) by simp
qed simp

text \<open>So the dictionary of a document is free of sharing.\<close>

lemma to_value_paths: "distinct (oids (to_value p j)) \<and> (\<forall>q \<in> set (oids (to_value p j)). \<exists>r. q = p @ r)"
proof (induction p j rule: to_value.induct)
  case (7 p kvs)
  let ?f = "\<lambda>(i, kv :: ustr \<times> json). oids (to_value (p @ [i]) (snd kv))"
  have "distinct (concat (map ?f (enumerate 0 kvs))) \<and> (\<forall>q \<in> set (concat (map ?f (enumerate 0 kvs))). \<exists>i r. 0 \<le> i \<and> q = p @ i # r)"
    by (rule enumerate_paths) (use 7 in fastforce)
  then show ?case by (auto simp: comp_def case_prod_unfold)
next
  case (8 p xs)
  let ?f = "\<lambda>(i, x). oids (to_value (p @ [i]) x)"
  have "distinct (concat (map ?f (enumerate 0 xs))) \<and> (\<forall>q \<in> set (concat (map ?f (enumerate 0 xs))). \<exists>i r. 0 \<le> i \<and> q = p @ i # r)"
    by (rule enumerate_paths) (use 8 in fastforce)
  then show ?case by (auto simp: comp_def case_prod_unfold)
qed simp_all

lemma to_value_unshared [simp]: "unshared (to_value [] j)"
  using to_value_paths [of "[]" j] by (simp add: unshared_def)

section \<open>Extension numbers\<close>

text \<open>The double nearest to \<open>1e308\<close>, with which Python compares an integer exactly.\<close>

definition EXTENSION_NUMBER_LIMIT :: int where
  "EXTENSION_NUMBER_LIMIT = 100000000000000001097906362944045541740492309677311846336810682903157585404911491537163328978494688899061249669721172515611590283743140088328307009198146046031271664502933027185697489699588559043338384466165001178426897626212945177628091195786707458122783970171784415105291802893207873272974885715430223118336"

definition weight :: "json list \<Rightarrow> nat" where
  "weight js = sum_list (map (\<lambda>j. Suc (size j)) js)"

lemma weight_simps [simp]:
  "weight [] = 0" "weight (j # js) = Suc (size j) + weight js" "weight (js @ ks) = weight js + weight ks"
  by (simp_all add: weight_def)

lemma weight_filter: "weight (filter P js) \<le> weight js"
  by (induction js) auto

lemma weight_members: "weight (map snd kvs) < size (JObj kvs)"
  using members_size [of kvs] by (simp add: weight_def comp_def)

lemma weight_items: "weight xs < size (JArr xs)"
  using items_size [of xs] by (simp add: weight_def comp_def)

lemma weight_rev [simp]: "weight (rev js) = weight js"
  by (simp add: weight_def sum_list_rev_map)

definition is_container :: "json \<Rightarrow> bool" where
  "is_container j \<longleftrightarrow> (case j of JObj _ \<Rightarrow> True | JArr _ \<Rightarrow> True | _ \<Rightarrow> False)"

text \<open>The last item of the work list is popped first, so both lists are kept reversed.\<close>

function collect_extensions :: "json list \<Rightarrow> json list \<Rightarrow> json list" where
  "collect_extensions [] exts = exts"
| "collect_extensions (JObj kvs # pending) exts =
    collect_extensions
      (rev (filter is_container (map snd (filter (\<lambda>kv. fst kv \<noteq> lit ''extensions'') kvs))) @ pending)
      (rev (map snd (filter (\<lambda>kv. fst kv = lit ''extensions'') kvs)) @ exts)"
| "collect_extensions (JArr xs # pending) exts = collect_extensions (rev xs @ pending) exts"
| "collect_extensions (JAbsent # pending) exts = collect_extensions pending exts"
| "collect_extensions (JNull # pending) exts = collect_extensions pending exts"
| "collect_extensions (JBool b # pending) exts = collect_extensions pending exts"
| "collect_extensions (JStr s # pending) exts = collect_extensions pending exts"
| "collect_extensions (JInt i # pending) exts = collect_extensions pending exts"
| "collect_extensions (JDec v # pending) exts = collect_extensions pending exts"
  by pat_completeness auto
termination
proof (relation "measure (\<lambda>(js, _). weight js)", goal_cases)
  case (2 kvs pending exts)
  have "weight (map snd (filter (\<lambda>kv. fst kv \<noteq> lit ''extensions'') kvs)) \<le> weight (map snd kvs)"
    by (induction kvs) auto
  then have "weight (filter is_container (map snd (filter (\<lambda>kv. fst kv \<noteq> lit ''extensions'') kvs))) \<le> weight (map snd kvs)"
    using weight_filter le_trans by blast
  then show ?case using weight_members [of kvs] by simp
next
  case (3 xs pending exts)
  then show ?case using weight_items [of xs] by simp
qed simp_all

function check_extension_values :: "json list \<Rightarrow> code + unit" where
  "check_extension_values [] = Inr ()"
| "check_extension_values (JObj kvs # vs) = check_extension_values (rev (map snd kvs) @ vs)"
| "check_extension_values (JArr xs # vs) = check_extension_values (rev xs @ vs)"
| "check_extension_values (JInt i # vs) =
    (if i < - EXTENSION_NUMBER_LIMIT \<or> i > EXTENSION_NUMBER_LIMIT then Inl ''extension_number_invalid''
     else check_extension_values vs)"
| "check_extension_values (JAbsent # vs) = check_extension_values vs"
| "check_extension_values (JNull # vs) = check_extension_values vs"
| "check_extension_values (JBool b # vs) = check_extension_values vs"
| "check_extension_values (JStr s # vs) = check_extension_values vs"
| "check_extension_values (JDec v # vs) = check_extension_values vs"
  by pat_completeness auto
termination
proof (relation "measure weight", goal_cases)
  case (2 kvs vs)
  then show ?case using weight_members [of kvs] by simp
next
  case (3 xs vs)
  then show ?case using weight_items [of xs] by simp
qed simp_all

definition validate_extension_numbers :: "json \<Rightarrow> code + unit" where
  "validate_extension_numbers document = check_extension_values (collect_extensions [document] [])"

text \<open>What the two loops decide, by structural recursion.\<close>

fun small_numbers :: "json \<Rightarrow> bool" where
  "small_numbers (JObj kvs) \<longleftrightarrow> (\<forall>kv \<in> set kvs. small_numbers (snd kv))"
| "small_numbers (JArr xs) \<longleftrightarrow> (\<forall>x \<in> set xs. small_numbers x)"
| "small_numbers (JInt i) \<longleftrightarrow> - EXTENSION_NUMBER_LIMIT \<le> i \<and> i \<le> EXTENSION_NUMBER_LIMIT"
| "small_numbers v \<longleftrightarrow> True"

fun small_extensions :: "json \<Rightarrow> bool" where
  "small_extensions (JObj kvs) \<longleftrightarrow>
    (\<forall>kv \<in> set kvs. if fst kv = lit ''extensions'' then small_numbers (snd kv) else small_extensions (snd kv))"
| "small_extensions (JArr xs) \<longleftrightarrow> (\<forall>x \<in> set xs. small_extensions x)"
| "small_extensions v \<longleftrightarrow> True"

lemma check_extension_values_iff: "isOk (check_extension_values vs) \<longleftrightarrow> (\<forall>v \<in> set vs. small_numbers v)"
  by (induction vs rule: check_extension_values.induct) (auto simp: ball_Un)

lemma no_container_small: "\<not> is_container j \<Longrightarrow> small_extensions j"
  by (cases j) (auto simp: is_container_def)

lemma collect_extensions_iff:
  "(\<forall>v \<in> set (collect_extensions js exts). small_numbers v) \<longleftrightarrow>
    (\<forall>j \<in> set js. small_extensions j) \<and> (\<forall>v \<in> set exts. small_numbers v)"
proof (induction js exts rule: collect_extensions.induct)
  case (2 kvs pending exts)
  then show ?case using no_container_small by (auto simp: ball_Un split: if_splits)
qed (auto simp: ball_Un)

lemma extension_numbers_iff: "isOk (validate_extension_numbers d) \<longleftrightarrow> small_extensions d"
  by (simp add: validate_extension_numbers_def check_extension_values_iff collect_extensions_iff)

section \<open>Document validators\<close>

definition validate_structure :: "bool \<Rightarrow> code + unit" where
  "validate_structure schema_ok = (if schema_ok then Inr () else Inl ''schema_invalid'')"

definition validate_action_document :: "action_request \<Rightarrow> code + unit" where
  "validate_action_document d =
    bindE (validate_structure (action_request_schema False d)) (\<lambda>_.
    bindE (parse_rfc3339 (rq_occurred_at d)) (\<lambda>_.
      validate_extension_numbers (JObj (action_request_members d))))"

definition validate_decision_document :: "authorization_decision \<Rightarrow> code + unit" where
  "validate_decision_document d =
    bindE (validate_structure (authorization_decision_schema False d)) (\<lambda>_.
    bindE (parse_rfc3339 (dc_server_time d)) (\<lambda>server_time.
    bindE (parse_rfc3339 (dc_expires_at d)) (\<lambda>expires_at.
    bindE (case dc_approval d of None \<Rightarrow> Inr () | Some a \<Rightarrow> bindE (parse_rfc3339 (sm_expires_at a)) (\<lambda>_. Inr ())) (\<lambda>_.
    bindE (guardE (timestamp_order expires_at server_time > 0) ''decision_expiry_order'') (\<lambda>_.
      validate_extension_numbers (JObj (authorization_decision_members d)))))))"

definition validate_approval_structure_and_timestamps ::
    "approval_record \<Rightarrow> code + timestamp \<times> timestamp \<times> timestamp option" where
  "validate_approval_structure_and_timestamps d =
    bindE (validate_structure (approval_record_schema False d)) (\<lambda>_.
    bindE (parse_rfc3339 (ap_requested_at d)) (\<lambda>requested_at.
    bindE (parse_rfc3339 (ap_expires_at d)) (\<lambda>expires_at.
    bindE (if ap_status d \<noteq> AS_PENDING
           then (case ap_decided_at d of
                   None \<Rightarrow> Inl ''KeyError''
                 | Some t \<Rightarrow> bindE (parse_rfc3339 t) (\<lambda>x. Inr (Some x)))
           else Inr None) (\<lambda>decided_at.
    bindE (validate_extension_numbers (JObj (approval_record_members d))) (\<lambda>_.
      Inr (requested_at, expires_at, decided_at))))))"

definition validate_approval_document :: "approval_record \<Rightarrow> code + unit" where
  "validate_approval_document d =
    bindE (validate_approval_structure_and_timestamps d) (\<lambda>(requested_at, expires_at, decided_at).
    bindE (guardE (timestamp_order expires_at requested_at > 0) ''approval_expiry_order'') (\<lambda>_.
      case decided_at of
        None \<Rightarrow> Inr ()
      | Some t \<Rightarrow>
          if ap_status d = AS_EXPIRED
          then guardE (timestamp_order t expires_at \<ge> 0) ''approval_expiry_order''
          else guardE (timestamp_order t requested_at \<ge> 0 \<and> timestamp_order t expires_at < 0) ''approval_expired''))"

definition validate_error_document :: "protocol_error \<Rightarrow> code + unit" where
  "validate_error_document d =
    bindE (validate_structure (protocol_error_schema False d)) (\<lambda>_.
    bindE (guardE (pe_safe_message d = error_safe_message (pe_code d)) ''schema_invalid'') (\<lambda>_.
      validate_extension_numbers (JObj (protocol_error_members d))))"

end
