(* ===== verification/Reconciliation.thy ===== *)
theory Reconciliation
  imports Documents
begin

text \<open>
  The reconciliation state machine of \<open>protocol/reference/reconciliation.py\<close>: durable,
  at-least-once delivery of guard evidence.  One definition per function of the module, in
  its order; a record is a \<open>reconciliation_record\<close>, an error is the code of the
  \<open>ReconciliationError\<close>.  A member that the schema requires in the state at hand and the
  code reads without a test is read by \<open>the_field\<close>, which has the branch of the missing member.
  \<open>U\<close> is the Unicode database and \<open>H\<close> the hexadecimal SHA-256 digest.
\<close>

section \<open>Trusted inputs\<close>

record record_partition =
  tenant_partition :: ustr
  owner_subject :: ustr

record trusted_context =
  record_partitions :: "(ustr \<times> record_partition) list"
  authenticated_tenant :: ustr
  authenticated_subject :: ustr
  organization_retention_authority :: "ustr option"

record batch_checkpoint =
  cp_batch_id :: ustr
  expected_next_sequence :: int
  completed_prefix :: "(int \<times> ustr) list"

record server_receipt =
  sr_receipt_id :: ustr
  sr_reconciliation_id :: ustr
  sr_evidence_hash :: ustr
  sr_acknowledged_at :: ustr
  sr_tenant_partition :: ustr
  sr_client_id :: ustr

definition public_acknowledgement :: "server_receipt \<Rightarrow> reconciliation_acknowledgement" where
  "public_acknowledgement s =
    \<lparr>ak_receipt_id = sr_receipt_id s, ak_reconciliation_id = sr_reconciliation_id s,
     ak_evidence_hash = sr_evidence_hash s, ak_acknowledged_at = sr_acknowledged_at s\<rparr>"

definition MANUAL_REASON :: ustr where "MANUAL_REASON = lit ''attempt_limit_reached''"

definition is_terminal :: "reconciliation_state \<Rightarrow> bool" where
  "is_terminal s \<longleftrightarrow> s = RS_ACKNOWLEDGED \<or> s = RS_DISCARDED"

definition the_field :: "'a option \<Rightarrow> code + 'a" where
  "the_field x = (case x of None \<Rightarrow> Inl ''KeyError'' | Some v \<Rightarrow> Inr v)"

definition truthy :: "ustr option \<Rightarrow> bool" where
  "truthy x \<longleftrightarrow> x \<noteq> None \<and> x \<noteq> Some []"

section \<open>Validation of one record\<close>

definition parse_opt :: "ustr option \<Rightarrow> code + timestamp option" where
  "parse_opt x = (case x of None \<Rightarrow> Inr None | Some t \<Rightarrow> bindE (parse_rfc3339 t) (\<lambda>v. Inr (Some v)))"

definition record_json :: "reconciliation_record \<Rightarrow> json" where
  "record_json r = JObj (reconciliation_record_members r)"

definition IMMUTABLE_EVIDENCE_FIELDS :: "string list" where
  "IMMUTABLE_EVIDENCE_FIELDS =
    [''schemaVersion'', ''reconciliationId'', ''actionId'', ''requestId'', ''decisionId'', ''correlationId'',
     ''authorizationIdempotencyKey'', ''clientId'', ''action'', ''targetKind'', ''clientScopeHash'',
     ''authoritativeScopeHash'', ''outcome'', ''reasonCode'', ''observedAt'', ''batchId'', ''batchSequence'',
     ''deliveryPolicy'', ''extensions'']"

definition evidence_body :: "reconciliation_record \<Rightarrow> json" where
  "evidence_body r =
    JObj (concat (map (\<lambda>field. case lookup (reconciliation_record_members r) field of
                                None \<Rightarrow> [] | Some v \<Rightarrow> [(lit field, v)]) IMMUTABLE_EVIDENCE_FIELDS))"

definition body_hash_unchecked :: "unicode \<Rightarrow> (bytes \<Rightarrow> ustr) \<Rightarrow> reconciliation_record \<Rightarrow> code + ustr" where
  "body_hash_unchecked U H r =
    mapErr (\<lambda>_. ''evidence_invalid'') (canonical_hash U H (to_value [] (evidence_body r)))"

definition validate_schema :: "reconciliation_record \<Rightarrow> code + unit" where
  "validate_schema r =
    bindE (validate_structure (reconciliation_record_schema False r)) (\<lambda>_.
      validate_extension_numbers (record_json r))"

definition validate_record_size :: "unicode \<Rightarrow> reconciliation_record \<Rightarrow> code + unit" where
  "validate_record_size U r =
    mapErr (\<lambda>c. if c = ''input_too_large'' \<or> c = ''string_too_large'' then ''record_too_large'' else ''record_invalid'')
      (bindE (canonical_json U (to_value [] (record_json r))) (\<lambda>_. Inr ()))"

definition before :: "timestamp option \<Rightarrow> timestamp option \<Rightarrow> bool" where
  "before a b \<longleftrightarrow> (case (a, b) of (Some x, Some y) \<Rightarrow> timestamp_order x y < 0 | _ \<Rightarrow> False)"

definition not_after :: "timestamp option \<Rightarrow> timestamp option \<Rightarrow> bool" where
  "not_after a b \<longleftrightarrow> (case (a, b) of (Some x, Some y) \<Rightarrow> timestamp_order x y \<le> 0 | _ \<Rightarrow> False)"

definition validate_acknowledged :: "unicode \<Rightarrow> (bytes \<Rightarrow> ustr) \<Rightarrow> reconciliation_record \<Rightarrow> code + unit" where
  "validate_acknowledged U H r =
    bindE (the_field (rr_acknowledgement r)) (\<lambda>ack.
    bindE (parse_rfc3339 (ak_acknowledged_at ack)) (\<lambda>_.
    if ak_reconciliation_id ack \<noteq> rr_reconciliation_id r then Inl ''acknowledgement_invalid''
    else bindE (body_hash_unchecked U H r) (\<lambda>h.
    if ak_evidence_hash ack \<noteq> h then Inl ''acknowledgement_invalid''
    else bindE (the_field (rr_acknowledged_at r)) (\<lambda>stamp.
         bindE (same_instant (ak_acknowledged_at ack) stamp) (\<lambda>same. guardE same ''acknowledgement_invalid'')))))"

definition validate_reconciliation_document :: "unicode \<Rightarrow> (bytes \<Rightarrow> ustr) \<Rightarrow> reconciliation_record \<Rightarrow> code + unit" where
  "validate_reconciliation_document U H r =
    bindE (validate_record_size U r) (\<lambda>_.
    bindE (validate_schema r) (\<lambda>_.
    bindE (parse_rfc3339 (rr_observed_at r)) (\<lambda>observed_at.
    bindE (parse_opt (rr_last_attempt_at r)) (\<lambda>last_attempt_at.
    bindE (parse_opt (rr_next_attempt_at r)) (\<lambda>next_attempt_at.
    bindE (parse_opt (rr_acknowledged_at r)) (\<lambda>acknowledged_at.
    bindE (parse_opt (rr_discarded_at r)) (\<lambda>discarded_at.
    let policy = rr_delivery_policy r; attempt_count = rr_attempt_count r; disposition = rr_delivery_disposition r in
    if dp_base_delay_seconds policy > dp_max_delay_seconds policy \<or> dp_max_total_attempts policy < dp_max_attempts policy
    then Inl ''retry_policy_invalid''
    else if attempt_count > dp_max_total_attempts policy then Inl ''attempt_limit_exceeded''
    else if disposition = AUTOMATIC \<and> attempt_count > dp_max_attempts policy then Inl ''automatic_attempt_limit_exceeded''
    else if disposition = MANUAL_INTERVENTION \<and> attempt_count < dp_max_attempts policy then Inl ''manual_state_invalid''
    else if disposition = AUTOMATIC \<and> rr_state r = RS_PENDING \<and> attempt_count \<ge> dp_max_attempts policy
    then Inl ''manual_intervention_required''
    else if rr_state r = RS_RETRY_WAIT \<and> attempt_count \<ge> dp_max_attempts policy then Inl ''manual_intervention_required''
    else if (attempt_count = 0) = (last_attempt_at \<noteq> None) then Inl ''attempt_state_invalid''
    else if before last_attempt_at (Some observed_at) then Inl ''timestamp_order_invalid''
    else if not_after next_attempt_at last_attempt_at then Inl ''timestamp_order_invalid''
    else if before acknowledged_at last_attempt_at then Inl ''timestamp_order_invalid''
    else if before discarded_at (Some observed_at) then Inl ''timestamp_order_invalid''
    else if rr_state r = RS_ACKNOWLEDGED then validate_acknowledged U H r
    else Inr ())))))))"

definition reconciliation_body_hash :: "unicode \<Rightarrow> (bytes \<Rightarrow> ustr) \<Rightarrow> reconciliation_record \<Rightarrow> code + ustr" where
  "reconciliation_body_hash U H r =
    bindE (validate_reconciliation_document U H r) (\<lambda>_. body_hash_unchecked U H r)"

definition reconciliation_state_digest :: "unicode \<Rightarrow> (bytes \<Rightarrow> ustr) \<Rightarrow> reconciliation_record \<Rightarrow> code + ustr" where
  "reconciliation_state_digest U H r =
    bindE (validate_reconciliation_document U H r) (\<lambda>_.
      mapErr (\<lambda>_. ''state_invalid'') (canonical_hash U H (to_value [] (record_json r))))"

section \<open>Contexts and authority\<close>

definition get_partition :: "reconciliation_record \<Rightarrow> trusted_context \<Rightarrow> code + record_partition" where
  "get_partition r ctx =
    (case map_of (record_partitions ctx) (rr_reconciliation_id r) of
       None \<Rightarrow> Inl ''record_context_mismatch''
     | Some p \<Rightarrow> if authenticated_tenant ctx \<noteq> tenant_partition p then Inl ''tenant_context_mismatch'' else Inr p)"

definition require_owner_context :: "reconciliation_record \<Rightarrow> trusted_context \<Rightarrow> code + record_partition" where
  "require_owner_context r ctx =
    bindE (get_partition r ctx) (\<lambda>p.
      if authenticated_subject ctx \<noteq> owner_subject p then Inl ''subject_context_mismatch'' else Inr p)"

definition require_user_or_organization_authority ::
    "reconciliation_record \<Rightarrow> trusted_context \<Rightarrow> discard_authority_type \<Rightarrow> code \<Rightarrow> code + record_partition" where
  "require_user_or_organization_authority r ctx authority_type failure_code =
    bindE (get_partition r ctx) (\<lambda>p.
      case authority_type of
        AUTHENTICATED_USER \<Rightarrow> if authenticated_subject ctx \<noteq> owner_subject p then Inl failure_code else Inr p
      | ORGANIZATION_RETENTION_POLICY \<Rightarrow>
          if \<not> truthy (organization_retention_authority ctx) then Inl failure_code else Inr p)"

definition resolve_duplicate_reconciliation ::
    "unicode \<Rightarrow> (bytes \<Rightarrow> ustr) \<Rightarrow> reconciliation_record \<Rightarrow> reconciliation_record \<Rightarrow> trusted_context \<Rightarrow> code + reconciliation_record" where
  "resolve_duplicate_reconciliation U H existing proposed ctx =
    bindE (validate_reconciliation_document U H existing) (\<lambda>_.
    bindE (validate_reconciliation_document U H proposed) (\<lambda>_.
    bindE (require_owner_context existing ctx) (\<lambda>_.
    if rr_reconciliation_id existing \<noteq> rr_reconciliation_id proposed then Inl ''idempotency_conflict''
    else bindE (body_hash_unchecked U H existing) (\<lambda>a.
         bindE (body_hash_unchecked U H proposed) (\<lambda>b.
           if a \<noteq> b then Inl ''idempotency_conflict'' else Inr existing)))))"

section \<open>Retry schedule\<close>

definition retry_delay_seconds :: "int \<Rightarrow> delivery_policy \<Rightarrow> code + int" where
  "retry_delay_seconds attempt_count policy =
    (let base = dp_base_delay_seconds policy; maximum = dp_max_delay_seconds policy;
         max_attempts = dp_max_attempts policy; max_total_attempts = dp_max_total_attempts policy in
     if attempt_count < 1 then Inl ''retry_policy_invalid''
     else if base < 1 \<or> maximum < base \<or> base > 3600 \<or> maximum > 86400 \<or> max_attempts < 1 \<or> max_attempts > 100 \<or>
             max_total_attempts < max_attempts \<or> max_total_attempts > 100 \<or> attempt_count > max_total_attempts
     then Inl ''retry_policy_invalid''
     else let exponent = min (attempt_count - 1) 63 in Inr (min (base * 2 ^ nat exponent) maximum))"

definition validated_retry_policy :: "int \<Rightarrow> delivery_policy \<Rightarrow> code + int \<times> delivery_policy" where
  "validated_retry_policy attempt_count policy =
    bindE (retry_delay_seconds attempt_count policy) (\<lambda>_. Inr (attempt_count, policy))"

definition next_attempt_at :: "ustr \<Rightarrow> int \<Rightarrow> delivery_policy \<Rightarrow> code + ustr" where
  "next_attempt_at failed_at attempt_count policy =
    bindE (validated_retry_policy attempt_count policy) (\<lambda>(attempt_count, policy).
    if attempt_count \<ge> dp_max_attempts policy then Inl ''manual_intervention_required''
    else bindE (retry_delay_seconds attempt_count policy) (\<lambda>delay. add_seconds failed_at delay))"

section \<open>Transitions\<close>

definition require_same_evidence ::
    "unicode \<Rightarrow> (bytes \<Rightarrow> ustr) \<Rightarrow> reconciliation_record \<Rightarrow> reconciliation_record \<Rightarrow> code + unit" where
  "require_same_evidence U H current proposed =
    (if rr_reconciliation_id current \<noteq> rr_reconciliation_id proposed then Inl ''transition_invalid''
     else bindE (body_hash_unchecked U H current) (\<lambda>a.
          bindE (body_hash_unchecked U H proposed) (\<lambda>b. guardE (a = b) ''transition_invalid'')))"

definition same_attempt_history :: "reconciliation_record \<Rightarrow> reconciliation_record \<Rightarrow> code + bool" where
  "same_attempt_history current proposed =
    bindE (case (rr_last_attempt_at current, rr_last_attempt_at proposed) of
             (None, None) \<Rightarrow> Inr True
           | (Some a, Some b) \<Rightarrow> same_instant a b
           | _ \<Rightarrow> Inr False) (\<lambda>same_last.
      Inr (rr_attempt_count proposed = rr_attempt_count current \<and> same_last \<and>
           rr_delivery_disposition proposed = rr_delivery_disposition current \<and>
           rr_manual_reason_code proposed = rr_manual_reason_code current))"

definition require_same_attempt_history :: "reconciliation_record \<Rightarrow> reconciliation_record \<Rightarrow> code + unit" where
  "require_same_attempt_history current proposed =
    bindE (same_attempt_history current proposed) (\<lambda>same. guardE same ''transition_history_invalid'')"

text \<open>\<open>_compare_timestamps\<close> of two texts.\<close>

definition compare_timestamps :: "ustr \<Rightarrow> ustr \<Rightarrow> code + int" where
  "compare_timestamps a b =
    bindE (parse_rfc3339 a) (\<lambda>x. bindE (parse_rfc3339 b) (\<lambda>y. Inr (timestamp_order x y)))"

definition not_before :: "ustr \<Rightarrow> ustr option \<Rightarrow> code \<Rightarrow> code + unit" where
  "not_before now other failure =
    (case other of
       None \<Rightarrow> Inr ()
     | Some t \<Rightarrow> bindE (compare_timestamps now t) (\<lambda>c. guardE (\<not> c < 0) failure))"

definition validate_send_transition :: "reconciliation_record \<Rightarrow> reconciliation_record \<Rightarrow> ustr \<Rightarrow> code + unit" where
  "validate_send_transition current proposed now =
    (if rr_delivery_disposition current \<noteq> AUTOMATIC then Inl ''manual_retry_required''
     else if rr_attempt_count current \<ge> dp_max_attempts (rr_delivery_policy current) then Inl ''attempt_limit_reached''
     else
       bindE (not_before now (rr_last_attempt_at current) ''timestamp_order_invalid'') (\<lambda>_.
       bindE (if rr_state current = RS_RETRY_WAIT
              then bindE (the_field (rr_next_attempt_at current)) (\<lambda>due. not_before now (Some due) ''retry_not_due'')
              else Inr ()) (\<lambda>_.
       if rr_attempt_count proposed \<noteq> rr_attempt_count current + 1 then Inl ''transition_invalid''
       else if rr_delivery_disposition proposed \<noteq> AUTOMATIC \<or> rr_manual_reason_code proposed \<noteq> None
       then Inl ''transition_history_invalid''
       else bindE (the_field (rr_last_attempt_at proposed)) (\<lambda>last.
            bindE (same_instant last now) (\<lambda>same. guardE same ''transition_invalid'')))))"

definition validate_retry_transition :: "reconciliation_record \<Rightarrow> reconciliation_record \<Rightarrow> ustr \<Rightarrow> code + unit" where
  "validate_retry_transition current proposed now =
    (if rr_attempt_count current \<ge> dp_max_attempts (rr_delivery_policy current) then Inl ''manual_intervention_required''
     else
       bindE (the_field (rr_last_attempt_at current)) (\<lambda>last.
       bindE (not_before now (Some last) ''timestamp_order_invalid'') (\<lambda>_.
       bindE (require_same_attempt_history current proposed) (\<lambda>_.
       bindE (next_attempt_at now (rr_attempt_count current) (rr_delivery_policy current)) (\<lambda>expected.
       bindE (the_field (rr_next_attempt_at proposed)) (\<lambda>due.
       bindE (same_instant due expected) (\<lambda>same. guardE same ''retry_schedule_invalid'')))))))"

definition validate_acknowledgement_transition ::
    "unicode \<Rightarrow> (bytes \<Rightarrow> ustr) \<Rightarrow> reconciliation_record \<Rightarrow> reconciliation_record \<Rightarrow> ustr \<Rightarrow> server_receipt option
      \<Rightarrow> record_partition \<Rightarrow> code + unit" where
  "validate_acknowledgement_transition U H current proposed now receipt part =
    (case receipt of
       None \<Rightarrow> Inl ''server_acknowledgement_required''
     | Some s \<Rightarrow>
         bindE (the_field (rr_acknowledgement proposed)) (\<lambda>ack.
         if ack \<noteq> public_acknowledgement s then Inl ''acknowledgement_invalid''
         else if sr_tenant_partition s \<noteq> tenant_partition part \<or> sr_client_id s \<noteq> rr_client_id current
         then Inl ''receipt_context_mismatch''
         else
           bindE (require_same_attempt_history current proposed) (\<lambda>_.
           if ak_reconciliation_id ack \<noteq> rr_reconciliation_id current then Inl ''acknowledgement_invalid''
           else bindE (body_hash_unchecked U H current) (\<lambda>h.
           if ak_evidence_hash ack \<noteq> h then Inl ''acknowledgement_invalid''
           else bindE (the_field (rr_acknowledged_at proposed)) (\<lambda>stamp.
                bindE (same_instant stamp (ak_acknowledged_at ack)) (\<lambda>same.
                if \<not> same then Inl ''acknowledgement_invalid''
                else bindE (compare_timestamps stamp now) (\<lambda>c. guardE (\<not> c > 0) ''acknowledgement_invalid'')))))))"

definition validate_discard_transition :: "reconciliation_record \<Rightarrow> reconciliation_record \<Rightarrow> ustr \<Rightarrow> code + unit" where
  "validate_discard_transition current proposed now =
    bindE (require_same_attempt_history current proposed) (\<lambda>_.
    bindE (case rr_last_attempt_at current of
             None \<Rightarrow> Inr ()
           | Some t \<Rightarrow> bindE (the_field (rr_discarded_at proposed)) (\<lambda>stamp. not_before stamp (Some t) ''timestamp_order_invalid'')) (\<lambda>_.
    bindE (the_field (rr_discarded_at proposed)) (\<lambda>stamp.
    bindE (compare_timestamps stamp now) (\<lambda>c. guardE (\<not> c > 0) ''discard_authorization_invalid''))))"

definition validate_exhaustion_transition :: "reconciliation_record \<Rightarrow> reconciliation_record \<Rightarrow> ustr \<Rightarrow> code + unit" where
  "validate_exhaustion_transition current proposed now =
    (if rr_attempt_count current < dp_max_attempts (rr_delivery_policy current) then Inl ''transition_invalid''
     else if rr_attempt_count proposed \<noteq> rr_attempt_count current then Inl ''transition_history_invalid''
     else
       bindE (the_field (rr_last_attempt_at proposed)) (\<lambda>a.
       bindE (the_field (rr_last_attempt_at current)) (\<lambda>b.
       bindE (same_instant a b) (\<lambda>same.
       if \<not> same \<or> rr_delivery_disposition proposed \<noteq> MANUAL_INTERVENTION \<or> rr_manual_reason_code proposed \<noteq> Some MANUAL_REASON
       then Inl ''transition_history_invalid''
       else not_before now (Some b) ''timestamp_order_invalid''))))"

datatype transition_result = Applied | Idempotent

definition require_digest ::
    "unicode \<Rightarrow> (bytes \<Rightarrow> ustr) \<Rightarrow> reconciliation_record \<Rightarrow> ustr \<Rightarrow> code + unit" where
  "require_digest U H current expected_state_digest =
    bindE (reconciliation_state_digest U H current) (\<lambda>d. guardE (expected_state_digest = d) ''concurrent_transition'')"

definition validate_move ::
    "unicode \<Rightarrow> (bytes \<Rightarrow> ustr) \<Rightarrow> reconciliation_record \<Rightarrow> reconciliation_record \<Rightarrow> ustr \<Rightarrow> server_receipt option
      \<Rightarrow> record_partition \<Rightarrow> code + unit" where
  "validate_move U H current proposed now receipt part =
    (case (rr_state current, rr_state proposed) of
       (RS_PENDING, RS_SENDING) \<Rightarrow> validate_send_transition current proposed now
     | (RS_RETRY_WAIT, RS_SENDING) \<Rightarrow> validate_send_transition current proposed now
     | (RS_SENDING, RS_RETRY_WAIT) \<Rightarrow> validate_retry_transition current proposed now
     | (RS_SENDING, RS_PENDING) \<Rightarrow>
         if rr_delivery_disposition proposed = MANUAL_INTERVENTION then validate_exhaustion_transition current proposed now
         else
           bindE (the_field (rr_last_attempt_at current)) (\<lambda>last.
           bindE (not_before now (Some last) ''timestamp_order_invalid'') (\<lambda>_.
             require_same_attempt_history current proposed))
     | (RS_SENDING, RS_ACKNOWLEDGED) \<Rightarrow> validate_acknowledgement_transition U H current proposed now receipt part
     | (RS_PENDING, RS_DISCARDED) \<Rightarrow> validate_discard_transition current proposed now
     | _ \<Rightarrow> Inl ''transition_invalid'')"

definition validate_reconciliation_transition ::
    "unicode \<Rightarrow> (bytes \<Rightarrow> ustr) \<Rightarrow> reconciliation_record \<Rightarrow> reconciliation_record \<Rightarrow> ustr \<Rightarrow> ustr \<Rightarrow> trusted_context
      \<Rightarrow> server_receipt option \<Rightarrow> code + transition_result" where
  "validate_reconciliation_transition U H current proposed expected_state_digest now ctx receipt =
    bindE (validate_reconciliation_document U H current) (\<lambda>_.
    bindE (get_partition current ctx) (\<lambda>part.
    if is_terminal (rr_state current) then
      bindE (if rr_state current = RS_DISCARDED
             then bindE (the_field (rr_discard current)) (\<lambda>d.
                    require_user_or_organization_authority current ctx (di_authority_type d) ''discard_authorization_required'')
             else require_owner_context current ctx) (\<lambda>_.
      bindE (require_digest U H current expected_state_digest) (\<lambda>_.
        if current = proposed then Inr Idempotent else Inl ''terminal_state''))
    else
      bindE (validate_reconciliation_document U H proposed) (\<lambda>_.
      bindE (if rr_state current = RS_PENDING \<and> rr_state proposed = RS_DISCARDED
             then bindE (the_field (rr_discard proposed)) (\<lambda>d.
                    require_user_or_organization_authority current ctx (di_authority_type d) ''discard_authorization_required'')
             else require_owner_context current ctx) (\<lambda>_.
      bindE (require_digest U H current expected_state_digest) (\<lambda>_.
      if current = proposed then Inr Idempotent
      else
        bindE (parse_rfc3339 now) (\<lambda>_.
        bindE (require_same_evidence U H current proposed) (\<lambda>_.
        bindE (validate_move U H current proposed now receipt part) (\<lambda>_. Inr Applied))))))))"

definition validate_manual_retry_transition ::
    "unicode \<Rightarrow> (bytes \<Rightarrow> ustr) \<Rightarrow> reconciliation_record \<Rightarrow> reconciliation_record \<Rightarrow> ustr \<Rightarrow> ustr \<Rightarrow> trusted_context
      \<Rightarrow> code + transition_result" where
  "validate_manual_retry_transition U H current proposed expected_state_digest now ctx =
    bindE (validate_reconciliation_document U H current) (\<lambda>_.
    bindE (get_partition current ctx) (\<lambda>part.
    if authenticated_subject ctx \<noteq> owner_subject part \<and> \<not> truthy (organization_retention_authority ctx)
    then Inl ''manual_retry_authorization_required''
    else
      bindE (require_digest U H current expected_state_digest) (\<lambda>_.
      if rr_state current \<noteq> RS_PENDING \<or> rr_delivery_disposition current \<noteq> MANUAL_INTERVENTION
      then Inl ''manual_retry_required''
      else if rr_attempt_count current \<ge> dp_max_total_attempts (rr_delivery_policy current)
      then Inl ''attempt_limit_reached''
      else
        bindE (validate_reconciliation_document U H proposed) (\<lambda>_.
        bindE (require_same_evidence U H current proposed) (\<lambda>_.
        if rr_state proposed \<noteq> RS_SENDING \<or> rr_delivery_disposition proposed \<noteq> MANUAL_INTERVENTION \<or>
           rr_manual_reason_code proposed \<noteq> rr_manual_reason_code current \<or>
           rr_attempt_count proposed \<noteq> rr_attempt_count current + 1
        then Inl ''transition_history_invalid''
        else
          bindE (the_field (rr_last_attempt_at proposed)) (\<lambda>last.
          bindE (same_instant last now) (\<lambda>same.
          if \<not> same then Inl ''transition_history_invalid''
          else
            bindE (not_before now (rr_last_attempt_at current) ''timestamp_order_invalid'') (\<lambda>_. Inr Applied))))))))"

definition recover_after_restart ::
    "unicode \<Rightarrow> (bytes \<Rightarrow> ustr) \<Rightarrow> reconciliation_record \<Rightarrow> ustr \<Rightarrow> ustr \<Rightarrow> trusted_context \<Rightarrow> code + reconciliation_record" where
  "recover_after_restart U H current expected_state_digest now ctx =
    bindE (validate_reconciliation_document U H current) (\<lambda>_.
    bindE (require_owner_context current ctx) (\<lambda>_.
    bindE (require_digest U H current expected_state_digest) (\<lambda>_.
    if rr_state current \<noteq> RS_SENDING then Inl ''transition_invalid''
    else
      let pending = current\<lparr>rr_state := RS_PENDING\<rparr>;
          proposed = (if rr_delivery_disposition current = MANUAL_INTERVENTION \<or>
                         rr_attempt_count current \<ge> dp_max_attempts (rr_delivery_policy current)
                      then pending\<lparr>rr_delivery_disposition := MANUAL_INTERVENTION, rr_manual_reason_code := Some MANUAL_REASON\<rparr>
                      else pending) in
      bindE (validate_reconciliation_transition U H current proposed expected_state_digest now ctx None) (\<lambda>_.
        Inr proposed))))"

section \<open>Ordered batches\<close>

definition checkpoint_valid :: "batch_checkpoint \<Rightarrow> bool" where
  "checkpoint_valid cp \<longleftrightarrow>
    0 \<le> expected_next_sequence cp \<and>
    list_all (\<lambda>(sequence, _). 0 \<le> sequence \<and> sequence < expected_next_sequence cp) (completed_prefix cp)"

fun validate_records :: "unicode \<Rightarrow> (bytes \<Rightarrow> ustr) \<Rightarrow> reconciliation_record list \<Rightarrow> trusted_context \<Rightarrow> code + unit" where
  "validate_records U H [] ctx = Inr ()"
| "validate_records U H (r # rs) ctx =
    bindE (validate_reconciliation_document U H r) (\<lambda>_.
    bindE (require_owner_context r ctx) (\<lambda>_. validate_records U H rs ctx))"

definition batch_shape :: "reconciliation_record list \<Rightarrow> batch_checkpoint \<Rightarrow> bool" where
  "batch_shape rs cp \<longleftrightarrow>
    (let batch_ids = remdups (map rr_batch_id rs); sequences = map rr_batch_sequence rs in
     length batch_ids = 1 \<and> cp_batch_id cp \<in> set batch_ids \<and>
     distinct (map rr_reconciliation_id rs) \<and> distinct sequences \<and> sequences = sort sequences \<and>
     sequences = [hd sequences .. hd sequences + int (length sequences) - 1])"

fun select_due :: "batch_checkpoint \<Rightarrow> timestamp \<Rightarrow> int \<Rightarrow> bool \<Rightarrow> reconciliation_record list \<Rightarrow> reconciliation_record list
      \<Rightarrow> code + reconciliation_record list" where
  "select_due cp trusted_now limit active_seen selected [] = Inr selected"
| "select_due cp trusted_now limit active_seen selected (r # rs) =
    (if is_terminal (rr_state r) then
       (if active_seen \<or> rr_state r \<noteq> RS_ACKNOWLEDGED \<or> rr_batch_sequence r \<ge> expected_next_sequence cp \<or>
           map_of (completed_prefix cp) (rr_batch_sequence r) \<noteq> Some (rr_reconciliation_id r)
        then Inl ''batch_checkpoint_mismatch''
        else select_due cp trusted_now limit active_seen selected rs)
     else if \<not> active_seen \<and> rr_batch_sequence r \<noteq> expected_next_sequence cp then Inl ''batch_checkpoint_mismatch''
     else if rr_delivery_disposition r = MANUAL_INTERVENTION then Inr selected
     else if rr_state r = RS_SENDING then Inr selected
     else
       bindE (if rr_state r = RS_RETRY_WAIT
              then bindE (the_field (rr_next_attempt_at r)) (\<lambda>due.
                   bindE (parse_rfc3339 due) (\<lambda>t. Inr (timestamp_order trusted_now t < 0)))
              else Inr False) (\<lambda>blocked.
       if blocked then Inr selected
       else
         let selected' = selected @ [r] in
         if int (length selected') = limit then Inr selected'
         else select_due cp trusted_now limit True selected' rs))"

definition ordered_batch_resume ::
    "unicode \<Rightarrow> (bytes \<Rightarrow> ustr) \<Rightarrow> reconciliation_record list \<Rightarrow> ustr \<Rightarrow> int \<Rightarrow> trusted_context \<Rightarrow> batch_checkpoint option
      \<Rightarrow> code + reconciliation_record list" where
  "ordered_batch_resume U H records now limit ctx checkpoint =
    (if limit < 1 then Inl ''batch_invalid''
     else if int (length records) > limit then Inl ''batch_limit_exceeded''
     else case checkpoint of
       None \<Rightarrow> Inl ''batch_checkpoint_required''
     | Some cp \<Rightarrow>
         if \<not> checkpoint_valid cp then Inl ''batch_checkpoint_mismatch''
         else
           bindE (parse_rfc3339 now) (\<lambda>trusted_now.
           if records = [] then Inr []
           else
             bindE (validate_records U H records ctx) (\<lambda>_.
             if \<not> batch_shape records cp then Inl ''batch_invalid''
             else select_due cp trusted_now limit False [] records)))"

end
