(* ===== verification/Digest_Binding.thy ===== *)
theory Digest_Binding
  imports Documents
begin

text \<open>
  What equal canonical digests say about two documents: member by member, the same strings and
  the same numbers.  The lemmas lift the contract of the canonical encoding
  (\<open>canonical_encoding\<close>) from whole values to the members of a document, so that the
  compare-and-swap digests and the evidence and scope hashes can be used field by field.
\<close>

definition pmean :: "unicode \<Rightarrow> nat \<Rightarrow> pyval \<Rightarrow> rat cjson \<Rightarrow> bool" where
  "pmean U d v m \<longleftrightarrow> (\<exists>j w. cost U d v = Some (j, w) \<and> meaning U j = Inr m)"

lemma canonical_bytes_pmean:
  assumes "unshared v" "canonical_json U v = Inr x"
  obtains m where "pmean U 0 v m" "py_meaning U v = Inr m"
proof -
  obtain j c where j: "snapshot_value U v = Inr j" "denote U j = Inr c" using canonical_json_parts [OF assms(2)] by metis
  then obtain w where "cost U 0 v = Some (j, w)" using snapshot_iff_cost [OF assms(1)] by blast
  then show thesis using that [of "map_cjson dec_value c"] j by (simp add: pmean_def meaning_def py_meaning_def)
qed

lemma meaning_object:
  assumes "normal_keys U fs" "meaning U (JObj fs) = Inr m"
  obtains ms where "m = CObj ms" "distinct (map fst ms)"
    "\<forall>k mv. (k, mv) \<in> set ms \<longleftrightarrow> (\<exists>v. (k, v) \<in> set fs \<and> v \<noteq> JAbsent \<and> meaning U v = Inr mv)"
    "\<forall>k v. (k, v) \<in> set fs \<longrightarrow> v \<noteq> JAbsent \<longrightarrow> isOk (meaning U v)"
proof -
  let ?gs = "sort_key fst (filter (\<lambda>p. snd p \<noteq> JAbsent) fs)"
  let ?f = "\<lambda>p. bindE (nfc U ''invalid_string'' (fst p)) (\<lambda>k. bindE (denote U (snd p)) (\<lambda>c. Inr (k, c)))"
  have nf: "normalized_fields U [] fs = Inr (filter (\<lambda>p. snd p \<noteq> JAbsent) fs)"
    using normalized_fields_normal [of U "[]" fs] assms(1) by simp
  obtain c where c: "denote U (JObj fs) = Inr c" "m = map_cjson dec_value c"
    using assms(2) by (auto simp: meaning_def elim!: bindE_InrE)
  then obtain cs where cs: "mapE ?f ?gs = Inr cs" "c = CObj cs"
    by (auto simp: nf elim!: bindE_InrE)
  have all: "list_all2 (\<lambda>p q. ?f p = Inr q) ?gs cs" using cs(1) by (simp only: mapE_Inr_iff)
  have step: "?f p = Inr q \<longleftrightarrow> denote U (snd p) = Inr (snd q) \<and> fst q = fst p" if "p \<in> set ?gs" for p q
    using assms(1) that by (cases q; cases "denote U (snd p)") (auto simp: normal_keys_def)
  have rel: "list_all2 (\<lambda>p q. denote U (snd p) = Inr (snd q) \<and> fst q = fst p) ?gs cs"
    by (rule list.rel_mono_strong [OF all]) (use step in blast)
  then have keys: "map fst cs = map fst ?gs" by (induction rule: list_all2_induct) auto
  have mem: "(k, x) \<in> set cs \<longleftrightarrow> (\<exists>v. (k, v) \<in> set fs \<and> v \<noteq> JAbsent \<and> denote U v = Inr x)" for k x
  proof -
    have "(k, x) \<in> set cs \<longleftrightarrow> (\<exists>v. (k, v) \<in> set ?gs \<and> denote U v = Inr x)"
      using rel by (induction rule: list_all2_induct) auto
    then show ?thesis by auto
  qed
  have ok: "isOk (denote U v)" if h: "(k, v) \<in> set fs" "v \<noteq> JAbsent" for k v
  proof -
    have "(k, v) \<in> set ?gs" using h by simp
    moreover have "(k, v) \<in> set ?gs \<longrightarrow> (\<exists>x. denote U v = Inr x)" using rel by (induction rule: list_all2_induct) auto
    ultimately show ?thesis by (auto simp: isOk_def)
  qed
  have "m = CObj (map (map_prod id (map_cjson dec_value)) cs)" using c(2) cs(2) by (simp add: map_prod_def)
  moreover have "distinct (map fst (map (map_prod id (map_cjson dec_value)) cs))"
    using keys assms(1) by (simp add: comp_def normal_keys_def distinct_map inj_on_def)
  moreover have "\<forall>k mv. (k, mv) \<in> set (map (map_prod id (map_cjson dec_value)) cs) \<longleftrightarrow>
      (\<exists>v. (k, v) \<in> set fs \<and> v \<noteq> JAbsent \<and> meaning U v = Inr mv)"
  proof (intro allI)
    fix k mv
    have "(k, mv) \<in> set (map (map_prod id (map_cjson dec_value)) cs) \<longleftrightarrow> (\<exists>x. (k, x) \<in> set cs \<and> mv = map_cjson dec_value x)"
      by force
    also have "\<dots> \<longleftrightarrow> (\<exists>v. (k, v) \<in> set fs \<and> v \<noteq> JAbsent \<and> (\<exists>x. denote U v = Inr x \<and> mv = map_cjson dec_value x))"
      unfolding mem by blast
    finally show "(k, mv) \<in> set (map (map_prod id (map_cjson dec_value)) cs) \<longleftrightarrow>
        (\<exists>v. (k, v) \<in> set fs \<and> v \<noteq> JAbsent \<and> meaning U v = Inr mv)"
      unfolding meaning_def bindE_Inr_iff by (metis Inr_inject)
  qed
  moreover have "\<forall>k v. (k, v) \<in> set fs \<longrightarrow> v \<noteq> JAbsent \<longrightarrow> isOk (meaning U v)"
    using ok by (fastforce simp: meaning_def isOk_def bindE_def split: sum.splits)
  ultimately show thesis by (rule that)
qed

definition norm_key :: "unicode \<Rightarrow> pykey \<Rightarrow> code + ustr" where
  "norm_key U k = (case k of KStr raw \<Rightarrow> nfc U ''invalid_string'' raw | KOther \<Rightarrow> Inl ''invalid_object_key'')"

lemma norm_key_KStr [simp]: "norm_key U (KStr raw) = nfc U ''invalid_string'' raw"
  by (simp add: norm_key_def)

lemma item_cost_parts:
  "item_cost U d (rk, v) = Some ((k, j), c) \<Longrightarrow> norm_key U rk = Inr k \<and> (\<exists>w. cost U (d + 1) v = Some (j, w))"
  by (auto simp: item_cost_def norm_key_def split: pykey.splits sum.splits option.splits)

lemma cost_absent: "cost U e v = Some (JAbsent, c) \<longleftrightarrow> v = PAbsent \<and> c = 5"
  by (cases v) (auto split: option.splits sum.splits if_splits)

text \<open>The members of a dictionary that has a meaning.\<close>

lemma pmean_dict:
  assumes "unicode_laws U" "pmean U d (PMap i kvs) m"
  obtains ms where "m = CObj ms" "distinct (map fst ms)" "distinct (map (\<lambda>p. norm_key U (fst p)) kvs)"
    "\<forall>rk v. (rk, v) \<in> set kvs \<longrightarrow> v \<noteq> PAbsent \<longrightarrow>
       (\<exists>k mv. norm_key U rk = Inr k \<and> pmean U (d + 1) v mv \<and> (k, mv) \<in> set ms)"
    "\<forall>k mv. (k, mv) \<in> set ms \<longrightarrow>
       (\<exists>rk v. (rk, v) \<in> set kvs \<and> v \<noteq> PAbsent \<and> norm_key U rk = Inr k \<and> pmean U (d + 1) v mv)"
proof -
  obtain fs w where fs: "cost_items U d kvs = Some (fs, w)" "distinct (map fst fs)" "meaning U (JObj fs) = Inr m"
    using assms(2) by (auto simp: pmean_def split: if_splits option.splits prod.splits)
  have n: "normal_keys U fs" using cost_items_normal [OF assms(1) fs(1,2)] .
  have items: "\<forall>p \<in> set kvs. item_cost U d p \<noteq> None" "fs = map (\<lambda>p. fst (the (item_cost U d p))) kvs"
    using fs(1) unfolding cost_items_alt by (auto split: if_splits)
  have item: "\<exists>k j c w. item_cost U d (rk, v) = Some ((k, j), c) \<and> norm_key U rk = Inr k \<and> cost U (d + 1) v = Some (j, w)"
    if h: "(rk, v) \<in> set kvs" for rk v
    proof -
    obtain k j c where "item_cost U d (rk, v) = Some ((k, j), c)" using bspec [OF items(1) h] by (metis not_None_eq surj_pair)
    then show ?thesis using item_cost_parts by blast
  qed
  obtain ms where ms: "m = CObj ms" "distinct (map fst ms)"
    "\<forall>k mv. (k, mv) \<in> set ms \<longleftrightarrow> (\<exists>v. (k, v) \<in> set fs \<and> v \<noteq> JAbsent \<and> meaning U v = Inr mv)"
    "\<forall>k v. (k, v) \<in> set fs \<longrightarrow> v \<noteq> JAbsent \<longrightarrow> isOk (meaning U v)"
    by (rule meaning_object [OF n fs(3)])
  have "map (\<lambda>p. norm_key U (fst p)) kvs = map Inr (map fst fs)"
    unfolding items(2) list.map_comp by (rule map_cong [OF refl]) (use item in force)
  then have dist: "distinct (map (\<lambda>p. norm_key U (fst p)) kvs)" using fs(2) by (simp add: distinct_map inj_on_def)
  show thesis
  proof (rule that [OF ms(1,2) dist], goal_cases)
    case 1
    show ?case
    proof (intro allI impI)
      fix rk v
      assume 1: "(rk, v) \<in> set kvs" "v \<noteq> PAbsent"
    obtain k j c w where c: "item_cost U d (rk, v) = Some ((k, j), c)" "norm_key U rk = Inr k" "cost U (d + 1) v = Some (j, w)"
      using item [OF 1(1)] by blast
    then have f: "(k, j) \<in> set fs" using items(2) 1(1) by force
    have "j \<noteq> JAbsent" using c(3) 1(2) cost_absent by blast
    moreover obtain mv where "meaning U j = Inr mv" using ms(4) f calculation by (auto simp: isOk_iff)
    ultimately show "\<exists>k mv. norm_key U rk = Inr k \<and> pmean U (d + 1) v mv \<and> (k, mv) \<in> set ms"
        using c f ms(3) unfolding pmean_def by blast
    qed
  next
    case 2
    show ?case
    proof (intro allI impI)
      fix k mv
      assume "(k, mv) \<in> set ms"
    then obtain j where j: "(k, j) \<in> set fs" "j \<noteq> JAbsent" "meaning U j = Inr mv" using ms(3) by blast
    then obtain rk v where v: "(rk, v) \<in> set kvs" "(k, j) = fst (the (item_cost U d (rk, v)))"
      unfolding items(2) by auto
    obtain k' j' c w where c: "item_cost U d (rk, v) = Some ((k', j'), c)" "norm_key U rk = Inr k'" "cost U (d + 1) v = Some (j', w)"
      using item [OF v(1)] by blast
    then have "k' = k" "j' = j" using v(2) by simp_all
    moreover have "v \<noteq> PAbsent" using c(3) calculation j(2) by auto
    ultimately show "\<exists>rk v. (rk, v) \<in> set kvs \<and> v \<noteq> PAbsent \<and> norm_key U rk = Inr k \<and> pmean U (d + 1) v mv"
        using c v(1) j unfolding pmean_def by blast
    qed
  qed
qed

section \<open>Documents that mean the same\<close>

definition agree :: "unicode \<Rightarrow> json \<Rightarrow> json \<Rightarrow> bool" where
  "agree U a b \<longleftrightarrow> (\<exists>d p q m. pmean U d (to_value p a) m \<and> pmean U d (to_value q b) m)"

lemma agree_sym: "agree U a b \<Longrightarrow> agree U b a"
  unfolding agree_def by blast

lemma nfc_ascii: "unicode_laws U \<Longrightarrow> ascii s \<Longrightarrow> nfc U c s = Inr t \<Longrightarrow> t = s"
  by (auto simp: nfc_def unicode_laws_def Let_def split: if_splits)

lemma pmean_str:
  assumes "unicode_laws U" "pmean U d (PStr s) m" "ascii s"
  shows "m = CStr s"
proof -
  obtain n where n: "nfc U ''invalid_string'' s = Inr n" "meaning U (JStr n) = Inr m"
    using assms(2) by (auto simp: pmean_def split: sum.splits)
  then have "n = s" using nfc_ascii [OF assms(1,3)] by blast
  then show ?thesis using n by (simp add: meaning_def)
qed

lemma agree_str:
  assumes "unicode_laws U" "agree U (JStr s) (JStr t)" "ascii s" "ascii t"
  shows "s = t"
proof -
  obtain d m where "pmean U d (PStr s) m" "pmean U d (PStr t) m" using assms(2) by (auto simp: agree_def)
  then show ?thesis using pmean_str [OF assms(1)] assms(3,4) by blast
qed

lemma agree_int: "agree U (JInt i) (JInt j) \<Longrightarrow> i = j"
  unfolding agree_def pmean_def
  by (auto simp: meaning_def int_decimal_def dec_value_def split: sum.splits if_splits elim!: bindE_InrE)

lemma to_value_absent [simp]: "to_value p v = PAbsent \<longleftrightarrow> v = JAbsent"
  by (cases v) auto

definition ascii_keys :: "(ustr \<times> json) list \<Rightarrow> bool" where
  "ascii_keys kvs \<longleftrightarrow> (\<forall>kv \<in> set kvs. ascii (fst kv))"

lemma distinct_mapI: "distinct (map f xs) \<Longrightarrow> distinct xs"
  by (simp add: distinct_map)

lemma lookup_unique: "distinct (map fst kvs) \<Longrightarrow> (lit k, v) \<in> set kvs \<Longrightarrow> lookup kvs k = Some v"
  by (induction kvs k rule: lookup.induct) force+

lemma object_items:
  "set (map (\<lambda>(i, kv). (KStr (fst kv), to_value (p @ [i]) (snd kv))) (enumerate 0 kvs)) =
    {(KStr k, to_value (p @ [i]) v) | i k v. i < length kvs \<and> kvs ! i = (k, v)}"
  (is "set (map ?f _) = ?R")
proof (rule set_eqI)
  fix x
  have "x \<in> set (map ?f (enumerate 0 kvs)) \<longleftrightarrow> (\<exists>i < length kvs. x = ?f (i, kvs ! i))"
    unfolding in_set_conv_nth length_map length_enumerate by (auto simp: nth_enumerate_eq)
  also have "\<dots> \<longleftrightarrow> x \<in> ?R" by (auto simp: split_beta) (metis prod.collapse)
  finally show "x \<in> set (map ?f (enumerate 0 kvs)) \<longleftrightarrow> x \<in> ?R" .
qed

text \<open>Two objects that mean the same have the same members, and these mean the same.\<close>

lemma agree_member:
  assumes "unicode_laws U" "agree U (JObj kvs) (JObj kvs')" "ascii_keys kvs" "ascii_keys kvs'"
    "lookup kvs k = Some v" "v \<noteq> JAbsent"
  obtains v' where "lookup kvs' k = Some v'" "agree U v v'"
proof -
  let ?items = "\<lambda>p kvs. map (\<lambda>(i, kv). (KStr (fst kv), to_value (p @ [i]) (snd kv))) (enumerate 0 kvs)"
  obtain d p q m where "pmean U d (PMap p (?items p kvs)) m" "pmean U d (PMap q (?items q kvs')) m"
    using assms(2) by (auto simp: agree_def)
  note dicts = pmean_dict [OF assms(1) this(1)] pmean_dict [OF assms(1) this(2)]
  have key: "t = s" if "ascii s" "nfc U ''invalid_string'' s = Inr t" for s t
    using nfc_ascii [OF assms(1)] that by blast
  obtain ms where ms: "m = CObj ms" "distinct (map fst ms)" "distinct (map (\<lambda>p. norm_key U (fst p)) (?items p kvs))"
    "\<forall>rk v. (rk, v) \<in> set (?items p kvs) \<longrightarrow> v \<noteq> PAbsent \<longrightarrow>
       (\<exists>k mv. norm_key U rk = Inr k \<and> pmean U (d + 1) v mv \<and> (k, mv) \<in> set ms)"
    "\<forall>k mv. (k, mv) \<in> set ms \<longrightarrow>
       (\<exists>rk v. (rk, v) \<in> set (?items p kvs) \<and> v \<noteq> PAbsent \<and> norm_key U rk = Inr k \<and> pmean U (d + 1) v mv)"
    by (rule dicts(1))
  obtain ms' where ms': "m = CObj ms'" "distinct (map fst ms')" "distinct (map (\<lambda>p. norm_key U (fst p)) (?items q kvs'))"
    "\<forall>rk v. (rk, v) \<in> set (?items q kvs') \<longrightarrow> v \<noteq> PAbsent \<longrightarrow>
       (\<exists>k mv. norm_key U rk = Inr k \<and> pmean U (d + 1) v mv \<and> (k, mv) \<in> set ms')"
    "\<forall>k mv. (k, mv) \<in> set ms' \<longrightarrow>
       (\<exists>rk v. (rk, v) \<in> set (?items q kvs') \<and> v \<noteq> PAbsent \<and> norm_key U rk = Inr k \<and> pmean U (d + 1) v mv)"
    by (rule dicts(2))
  have "(lit k, v) \<in> set kvs" using lookup_in [OF assms(5)] .
  then obtain i where i: "i < length kvs" "kvs ! i = (lit k, v)" by (metis in_set_conv_nth)
  then have mem: "(KStr (lit k), to_value (p @ [i]) v) \<in> set (?items p kvs)" unfolding object_items by blast
  obtain k1 mv where mv: "nfc U ''invalid_string'' (lit k) = Inr k1" "pmean U (d + 1) (to_value (p @ [i]) v) mv" "(k1, mv) \<in> set ms"
    using ms(4) [rule_format, OF mem] assms(6) unfolding norm_key_KStr to_value_absent by blast
  have "ascii (lit k)" using assms(3) lookup_in [OF assms(5)] by (force simp: ascii_keys_def)
  then have k1: "k1 = lit k" using key mv(1) by blast
  obtain rk x where x: "(rk, x) \<in> set (?items q kvs')" "x \<noteq> PAbsent" "norm_key U rk = Inr k1" "pmean U (d + 1) x mv"
    using ms'(5) [rule_format, of k1 mv] mv(3) ms(1) ms'(1) by blast
  then obtain i' k' v' where v': "i' < length kvs'" "kvs' ! i' = (k', v')" "rk = KStr k'" "x = to_value (q @ [i']) v'"
    unfolding object_items by blast
  then have m': "(k', v') \<in> set kvs'" by (metis nth_mem)
  then have "ascii k'" using assms(4) by (force simp: ascii_keys_def)
  then have "k' = lit k" using key [of k' k1] x(3) v'(3) k1 by simp
  moreover have "distinct (map fst kvs')"
  proof -
    have "map (\<lambda>p. norm_key U (fst p)) (?items q kvs') = map (\<lambda>kv. norm_key U (KStr (fst kv))) kvs'"
      by (rule nth_equalityI) (auto simp: nth_enumerate_eq)
    then have "distinct (map (\<lambda>s. norm_key U (KStr s)) (map fst kvs'))" using ms'(3) by (simp add: comp_def)
    then show ?thesis by (rule distinct_mapI)
  qed
  ultimately have "lookup kvs' k = Some v'" using lookup_unique m' by blast
  moreover have "agree U v v'" using mv(2) x(4) v'(4) unfolding agree_def by blast
  ultimately show thesis by (rule that)
qed

lemma agree_lookup:
  assumes "unicode_laws U" "agree U (JObj kvs) (JObj kvs')" "ascii_keys kvs" "ascii_keys kvs'"
    "lookup kvs k \<noteq> Some JAbsent" "lookup kvs' k \<noteq> Some JAbsent"
  shows "rel_option (agree U) (lookup kvs k) (lookup kvs' k)"
proof (cases "lookup kvs k")
  case None
  then have "lookup kvs' k = None"
    using agree_member [OF assms(1) agree_sym [OF assms(2)] assms(4,3), of k] assms(6) by (metis not_None_eq)
  then show ?thesis using None by simp
next
  case (Some v)
  then obtain v' where "lookup kvs' k = Some v'" "agree U v v'"
    using agree_member [OF assms(1-4) Some] assms(5) by blast
  then show ?thesis using Some by simp
qed

text \<open>
  Equal canonical digests: the two values mean the same, unless their canonical bytes are a
  collision of the digest.
\<close>

definition no_collision :: "unicode \<Rightarrow> (bytes \<Rightarrow> ustr) \<Rightarrow> json \<Rightarrow> json \<Rightarrow> bool" where
  "no_collision U H a b \<longleftrightarrow>
    (\<forall>x y. canonical_json U (to_value [] a) = Inr x \<longrightarrow> canonical_json U (to_value [] b) = Inr y \<longrightarrow> H x = H y \<longrightarrow> x = y)"

lemma inj_no_collision: "inj H \<Longrightarrow> no_collision U H a b"
  by (auto simp: no_collision_def dest: injD)

lemma hash_agree:
  assumes "no_collision U H a b" "canonical_hash U H (to_value [] a) = Inr h" "canonical_hash U H (to_value [] b) = Inr h"
  shows "agree U a b"
proof -
  obtain x y where x: "canonical_json U (to_value [] a) = Inr x" "h = lit ''sha256:'' @ H x"
    and y: "canonical_json U (to_value [] b) = Inr y" "h = lit ''sha256:'' @ H y"
    using assms(2,3) by (auto simp: canonical_hash_def elim!: bindE_InrE)
  then have "H x = H y" by simp
  then have xy: "x = y" using assms(1) x(1) y(1) unfolding no_collision_def by blast
  obtain m where m: "pmean U 0 (to_value [] a) m" "py_meaning U (to_value [] a) = Inr m"
    using canonical_bytes_pmean [OF to_value_unshared x(1)] .
  obtain n where n: "pmean U 0 (to_value [] b) n" "py_meaning U (to_value [] b) = Inr n"
    using canonical_bytes_pmean [OF to_value_unshared y(1)] .
  have "m = n" using cj.enc_iff [OF x(1) y(1)] xy m(2) n(2) by simp
  then show ?thesis using m(1) n(1) unfolding agree_def by blast
qed

section \<open>Members of a document\<close>

definition no_absent :: "(ustr \<times> json) list \<Rightarrow> bool" where
  "no_absent kvs \<longleftrightarrow> (\<forall>kv \<in> set kvs. snd kv \<noteq> JAbsent)"

lemma no_absent_lookup: "no_absent kvs \<Longrightarrow> lookup kvs k \<noteq> Some JAbsent"
  using lookup_in [of kvs k JAbsent] by (force simp: no_absent_def)

lemma no_absent_simps [simp]:
  "no_absent (xs @ ys) \<longleftrightarrow> no_absent xs \<and> no_absent ys" "no_absent (req k v) \<longleftrightarrow> v \<noteq> JAbsent"
  "no_absent (opt k f x) \<longleftrightarrow> all_opt (\<lambda>y. f y \<noteq> JAbsent) x"
  by (auto simp: no_absent_def req_def) (cases x; simp add: opt_def)+

text \<open>Decoding two members that mean the same.\<close>

lemma rel_str:
  "unicode_laws U \<Longrightarrow> rel_option (agree U) (Some (JStr s)) (Some (JStr t)) \<Longrightarrow> ascii s \<Longrightarrow> ascii t \<Longrightarrow> s = t"
  by (auto dest: agree_str)

lemma rel_str_opt:
  "unicode_laws U \<Longrightarrow> rel_option (agree U) (map_option JStr x) (map_option JStr y) \<Longrightarrow> all_opt ascii x \<Longrightarrow> all_opt ascii y \<Longrightarrow> x = y"
  by (cases x; cases y) (auto dest: agree_str)

lemma rel_int: "rel_option (agree U) (Some (JInt i)) (Some (JInt j)) \<Longrightarrow> i = j"
  by (auto dest: agree_int)

lemma rel_enum:
  assumes "unicode_laws U" "rel_option (agree U) (Some (JStr (f x))) (Some (JStr (f y)))" "\<And>z. ascii (f z)"
    "\<And>z. dec (JStr (f z)) = Inr z"
  shows "x = y"
  using rel_str [OF assms(1,2) assms(3,3)] assms(4) by (metis Inr_inject)

lemma all_opt_mono: "all_opt P x \<Longrightarrow> (\<And>y. P y \<Longrightarrow> Q y) \<Longrightarrow> all_opt Q x"
  by (cases x) simp_all

section \<open>ASCII texts\<close>

lemma ascii_lit_append: "ascii (a @ b) \<longleftrightarrow> ascii a \<and> ascii b"
  by (simp add: ascii_def)

definition ascii_string :: "string \<Rightarrow> bool" where
  "ascii_string s \<longleftrightarrow> list_all (\<lambda>c. of_char c < (128::nat)) s"

lemma ascii_lit [simp]: "ascii (lit s) \<longleftrightarrow> ascii_string s"
  by (simp add: ascii_def ascii_string_def lit_def list_all_iff)

lemma ascii_string_simps [simp]:
  "ascii_string []" "ascii_string (c # s) \<longleftrightarrow> of_char c < (128::nat) \<and> ascii_string s"
  by (simp_all add: ascii_string_def)

lemma ascii_split:
  assumes "take n s = lit p" "ascii_string p" "\<forall>c \<in> set (drop n s). c < 128"
  shows "ascii s"
proof -
  have "ascii (take n s)" using assms(1,2) by simp
  moreover have "ascii (drop n s)" using assms(3) by (simp add: ascii_def list_all_iff)
  ultimately have "ascii (take n s @ drop n s)" unfolding ascii_lit_append ..
  then show ?thesis by simp
qed

lemma class_ascii:
  "is_crockford c \<Longrightarrow> c < 128" "is_hex c \<Longrightarrow> c < 128" "is_digit c \<Longrightarrow> c < 128" "is_lower_alnum c \<Longrightarrow> c < 128"
  "is_lower c \<Longrightarrow> c < 128"
  by (auto simp: is_crockford_def is_hex_def is_digit_def is_lower_alnum_def is_lower_def is_upper_def)

lemma prefixed_ulid_ascii: "prefixed_ulid p s \<Longrightarrow> ascii_string p \<Longrightarrow> ascii s"
  by (rule ascii_split [of "length p"])
    (auto simp: prefixed_ulid_def ulid_body_def list_all_iff intro: class_ascii)

lemma sha256_ascii: "sha256_pattern s \<Longrightarrow> ascii s"
  by (rule ascii_split [of 7 _ "''sha256:''"]) (auto simp: sha256_pattern_def list_all_iff intro: class_ascii)

lemma split_on_elems: "c \<in> set s \<Longrightarrow> c \<noteq> d \<Longrightarrow> \<exists>p \<in> set (split_on d s). c \<in> set p"
proof (induction s)
  case (Cons x s)
  then show ?case by (cases "split_on d s") auto
qed simp

lemma reason_code_ascii:
  assumes "reason_code_pattern s"
  shows "ascii s"
  unfolding ascii_def list_all_iff
proof
  fix c
  assume c: "c \<in> set s"
  show "c < 128"
  proof (cases "c = 95")
    case False
    then obtain p where "p \<in> set (split_on 95 s)" "c \<in> set p" using split_on_elems c by blast
    then show ?thesis using assms class_ascii(4) by (auto simp: reason_code_pattern_def word_segments_def list_all_iff)
  qed simp
qed

lemma matches_ascii: "list_all2 matches t s \<Longrightarrow> list_all (\<lambda>k. k < 128) t \<Longrightarrow> ascii s"
  by (induction rule: list_all2_induct) (auto simp: ascii_def matches_def intro: class_ascii split: if_splits)

lemma zone_ascii: "zone_shape z \<Longrightarrow> ascii z"
  using matches_ascii [of zone_template "tl z"] by (cases z) (auto simp: zone_shape_def zone_template_def ascii_def)

lemma timestamp_ascii:
  assumes "timestamp_pattern s"
  shows "ascii s"
proof -
  obtain f z where fz: "list_all2 matches base_template (take 19 s)" "split_fraction (drop 19 s) = Some (f, z)" "zone_shape z"
    using assms by (auto simp: timestamp_pattern_def split: option.splits)
  have "ascii (take 19 s)" using matches_ascii [OF fz(1)] by (simp add: base_template_def)
  moreover have "ascii (drop 19 s)"
  proof (cases "drop 19 s")
    case (Cons c cs)
    have z: "ascii z" using zone_ascii [OF fz(3)] .
    show ?thesis
    proof (cases "c = 46")
      case True
      then have "z = dropWhile is_digit cs" using fz(2) Cons by (auto simp: split_fraction_def Let_def split: if_splits)
      then have "ascii (takeWhile is_digit cs @ dropWhile is_digit cs)"
        unfolding ascii_lit_append using z by (auto simp: ascii_def list_all_iff dest!: set_takeWhileD intro: class_ascii)
      then show ?thesis using Cons True by (simp add: ascii_def)
    next
      case False
      then show ?thesis using fz(2) Cons z by (simp add: split_fraction_def)
    qed
  qed (simp add: ascii_def)
  ultimately have "ascii (take 19 s @ drop 19 s)" unfolding ascii_lit_append ..
  then show ?thesis by simp
qed

lemma client_id_ascii: "client_id_pattern s \<Longrightarrow> ascii s"
  by (cases s) (auto simp: client_id_pattern_def headed_token_def ascii_def list_all_iff intro: class_ascii)

section \<open>Compare-and-swap machines\<close>

text \<open>
  The contract of a durable record that is replaced only under its revision digest:
  \<open>revision_ok r d\<close> says that \<open>d\<close> is the digest of \<open>r\<close>, an applied step carries the digest of the
  record it replaces and changes its state, and a digest determines the state of the record
  (for records whose bytes are \<open>told_apart\<close> by the digest).
\<close>

locale cas_machine =
  fixes revision_ok :: "'r \<Rightarrow> ustr \<Rightarrow> bool"
    and state :: "'r \<Rightarrow> 's"
    and applied :: "'r \<Rightarrow> 'r \<Rightarrow> ustr \<Rightarrow> bool"
    and told_apart :: "'r \<Rightarrow> 'r \<Rightarrow> bool"
  assumes applied_revision: "applied c p d \<Longrightarrow> revision_ok c d"
    and applied_moves: "applied c p d \<Longrightarrow> state p \<noteq> state c"
    and revision_state: "revision_ok c d \<Longrightarrow> revision_ok p d \<Longrightarrow> told_apart c p \<Longrightarrow> state c = state p"
begin

lemma stale_revision:
  assumes "applied c p d" "told_apart c p"
  shows "\<not> revision_ok p d"
  using applied_revision [OF assms(1)] applied_moves [OF assms(1)] revision_state assms(2) by metis

lemma single_winner:
  assumes "applied c p d" "told_apart c p"
  shows "\<not> applied p q d"
  using stale_revision [OF assms] applied_revision by blast

end

text \<open>Two concrete digests: one that tells all inputs apart, one of the length of SHA-256.\<close>

definition plain_digest :: "bytes \<Rightarrow> ustr" where "plain_digest x = x"

definition fixed_digest :: "bytes \<Rightarrow> ustr" where "fixed_digest x = lit (replicate 64 (CHR ''a''))"

lemma plain_no_collision [simp]: "no_collision U plain_digest a b"
  by (rule inj_no_collision) (simp add: plain_digest_def inj_def)

lemma sixty_four: "replicate 64 (97::nat) = [97, 97, 97, 97, 97, 97, 97, 97, 97, 97, 97, 97, 97, 97, 97, 97, 97, 97, 97, 97, 97, 97, 97, 97, 97, 97, 97, 97, 97, 97, 97, 97, 97, 97, 97, 97, 97, 97, 97, 97, 97, 97, 97, 97, 97, 97, 97, 97, 97, 97, 97, 97, 97, 97, 97, 97, 97, 97, 97, 97, 97, 97, 97, 97]"
  by code_simp

end
