(* ===== verification/Reconciliation_Safety.thy ===== *)
theory Reconciliation_Safety
  imports Reconciliation Digest_Binding
begin

text \<open>
  What the reconciliation state machine guarantees: the accepted transitions as a step
  relation and, over every sequence of accepted steps, the bound on deliveries, the finality of
  terminal states, the immutability of the evidence, the compare-and-swap discipline, the
  retry schedule, crash recovery and the order of batches.
\<close>

section \<open>Inversion of the validators\<close>

lemma isOk_if:
  "isOk (if b then Inl e else r) \<longleftrightarrow> \<not> b \<and> isOk r" "isOk (if b then r else Inr x) \<longleftrightarrow> (b \<longrightarrow> isOk r)"
  by simp_all

definition valid_record :: "unicode \<Rightarrow> (bytes \<Rightarrow> ustr) \<Rightarrow> reconciliation_record \<Rightarrow> bool" where
  "valid_record U H r \<longleftrightarrow> isOk (validate_reconciliation_document U H r)"

lemma valid_record_iff: "valid_record U H r \<longleftrightarrow> validate_reconciliation_document U H r = Inr ()"
  by (cases "validate_reconciliation_document U H r") (simp_all add: valid_record_def)

lemma parse_opt_None: "parse_opt x = Inr None \<longleftrightarrow> x = None"
  by (cases x) (auto simp: parse_opt_def elim!: bindE_InrE)

text \<open>The checks of a valid record, spelled out.\<close>

definition counters_ok :: "reconciliation_record \<Rightarrow> bool" where
  "counters_ok r \<longleftrightarrow>
    (let policy = rr_delivery_policy r; n = rr_attempt_count r; disposition = rr_delivery_disposition r in
     dp_base_delay_seconds policy \<le> dp_max_delay_seconds policy \<and> dp_max_attempts policy \<le> dp_max_total_attempts policy \<and>
     n \<le> dp_max_total_attempts policy \<and>
     (disposition = AUTOMATIC \<longrightarrow> n \<le> dp_max_attempts policy) \<and>
     (disposition = MANUAL_INTERVENTION \<longrightarrow> dp_max_attempts policy \<le> n) \<and>
     (disposition = AUTOMATIC \<and> rr_state r = RS_PENDING \<longrightarrow> n < dp_max_attempts policy) \<and>
     (rr_state r = RS_RETRY_WAIT \<longrightarrow> n < dp_max_attempts policy) \<and>
     (n = 0 \<longleftrightarrow> rr_last_attempt_at r = None))"

definition times_ok :: "reconciliation_record \<Rightarrow> bool" where
  "times_ok r \<longleftrightarrow>
    (\<exists>observed last next acked discarded.
       parse_rfc3339 (rr_observed_at r) = Inr observed \<and> parse_opt (rr_last_attempt_at r) = Inr last \<and>
       parse_opt (rr_next_attempt_at r) = Inr next \<and> parse_opt (rr_acknowledged_at r) = Inr acked \<and>
       parse_opt (rr_discarded_at r) = Inr discarded \<and>
       \<not> before last (Some observed) \<and> \<not> not_after next last \<and> \<not> before acked last \<and> \<not> before discarded (Some observed))"

lemma valid_record_parts:
  "valid_record U H r \<longleftrightarrow>
    isOk (validate_record_size U r) \<and> isOk (validate_schema r) \<and> counters_ok r \<and> times_ok r \<and>
    (rr_state r = RS_ACKNOWLEDGED \<longrightarrow> isOk (validate_acknowledged U H r))"
proof (cases "isOk (validate_record_size U r) \<and> isOk (validate_schema r)")
  case True
  then have s: "validate_record_size U r = Inr ()" "validate_schema r = Inr ()"
    by (cases "validate_record_size U r"; cases "validate_schema r"; simp)+
  show ?thesis
  proof (cases "isOk (parse_rfc3339 (rr_observed_at r)) \<and> isOk (parse_opt (rr_last_attempt_at r)) \<and>
      isOk (parse_opt (rr_next_attempt_at r)) \<and> isOk (parse_opt (rr_acknowledged_at r)) \<and> isOk (parse_opt (rr_discarded_at r))")
    case True
    then obtain obs l n a d where t: "parse_rfc3339 (rr_observed_at r) = Inr obs" "parse_opt (rr_last_attempt_at r) = Inr l"
      "parse_opt (rr_next_attempt_at r) = Inr n" "parse_opt (rr_acknowledged_at r) = Inr a" "parse_opt (rr_discarded_at r) = Inr d"
      by (auto simp: isOk_iff)
    have times: "times_ok r \<longleftrightarrow> \<not> before l (Some obs) \<and> \<not> not_after n l \<and> \<not> before a l \<and> \<not> before d (Some obs)"
      unfolding times_ok_def t by simp
    have l: "l = None \<longleftrightarrow> rr_last_attempt_at r = None" using t(2) by (metis Inr_inject parse_opt_None)
    show ?thesis
      unfolding times counters_ok_def valid_record_def validate_reconciliation_document_def s t Let_def bindE_simps isOk_if
        isOk_simps l not_less not_le de_Morgan_disj de_Morgan_conj
      by (simp, blast)
  next
    case False
    then have "\<not> times_ok r" unfolding times_ok_def by (metis isOk_simps(1))
    moreover have "\<not> valid_record U H r"
      using False unfolding valid_record_def validate_reconciliation_document_def isOk_bindE by (metis isOk_simps(1))
    ultimately show ?thesis by simp
  qed
next
  case False
  then show ?thesis
    unfolding valid_record_def validate_reconciliation_document_def isOk_bindE by (metis isOk_simps(1))
qed

lemma transition_cases:
  assumes "validate_reconciliation_transition U H c p d now ctx rc = Inr res"
  shows "valid_record U H c" "require_digest U H c d = Inr ()"
    "res = Idempotent \<Longrightarrow> p = c"
    "res = Applied \<Longrightarrow> c \<noteq> p \<and> \<not> is_terminal (rr_state c) \<and> valid_record U H p \<and> isOk (parse_rfc3339 now) \<and>
       require_same_evidence U H c p = Inr () \<and>
       (\<exists>part. get_partition c ctx = Inr part \<and> validate_move U H c p now rc part = Inr ())"
proof -
  obtain part where v: "validate_reconciliation_document U H c = Inr ()" and part: "get_partition c ctx = Inr part"
    and r: "(if is_terminal (rr_state c) then
      bindE (if rr_state c = RS_DISCARDED
             then bindE (the_field (rr_discard c)) (\<lambda>d.
                    require_user_or_organization_authority c ctx (di_authority_type d) ''discard_authorization_required'')
             else require_owner_context c ctx) (\<lambda>_.
      bindE (require_digest U H c d) (\<lambda>_.
        if c = p then Inr Idempotent else Inl ''terminal_state''))
    else
      bindE (validate_reconciliation_document U H p) (\<lambda>_.
      bindE (if rr_state c = RS_PENDING \<and> rr_state p = RS_DISCARDED
             then bindE (the_field (rr_discard p)) (\<lambda>d.
                    require_user_or_organization_authority c ctx (di_authority_type d) ''discard_authorization_required'')
             else require_owner_context c ctx) (\<lambda>_.
      bindE (require_digest U H c d) (\<lambda>_.
      if c = p then Inr Idempotent
      else
        bindE (parse_rfc3339 now) (\<lambda>_.
        bindE (require_same_evidence U H c p) (\<lambda>_.
        bindE (validate_move U H c p now rc part) (\<lambda>_. Inr Applied))))))) = Inr res"
    using assms unfolding validate_reconciliation_transition_def by (elim bindE_InrE) auto
  show "valid_record U H c" using v by (simp add: valid_record_iff)
  show "require_digest U H c d = Inr ()"
    using r by (cases "is_terminal (rr_state c)"; simp; elim bindE_InrE; simp)
  show "p = c" if "res = Idempotent"
    using r that by (cases "is_terminal (rr_state c)"; simp; elim bindE_InrE; auto split: if_splits elim!: bindE_InrE)
  show "c \<noteq> p \<and> \<not> is_terminal (rr_state c) \<and> valid_record U H p \<and> isOk (parse_rfc3339 now) \<and>
       require_same_evidence U H c p = Inr () \<and>
       (\<exists>part. get_partition c ctx = Inr part \<and> validate_move U H c p now rc part = Inr ())" if "res = Applied"
  proof (cases "is_terminal (rr_state c)")
    case True
    then show ?thesis using r that by (auto elim!: bindE_InrE split: if_splits)
  next
    case False
    then show ?thesis using r that part
      by (simp add: valid_record_iff) (elim bindE_InrE, auto split: if_splits elim!: bindE_InrE simp: isOk_def)
  qed
qed

definition is_send :: "reconciliation_record \<Rightarrow> reconciliation_record \<Rightarrow> bool" where
  "is_send c p \<longleftrightarrow> rr_state c \<noteq> RS_SENDING \<and> rr_state p = RS_SENDING"

lemma same_history_facts:
  assumes "require_same_attempt_history c p = Inr ()"
  shows "rr_attempt_count p = rr_attempt_count c" "rr_delivery_disposition p = rr_delivery_disposition c"
    "rr_manual_reason_code p = rr_manual_reason_code c" "rr_last_attempt_at p = None \<longleftrightarrow> rr_last_attempt_at c = None"
  using assms by (auto simp: require_same_attempt_history_def same_attempt_history_def elim!: bindE_InrE split: option.splits)

lemma move_cases:
  assumes "validate_move U H c p now rc part = Inr ()"
  obtains
    (send) "rr_state c = RS_PENDING \<or> rr_state c = RS_RETRY_WAIT" "rr_state p = RS_SENDING" "validate_send_transition c p now = Inr ()"
  | (retry) "rr_state c = RS_SENDING" "rr_state p = RS_RETRY_WAIT" "validate_retry_transition c p now = Inr ()"
  | (exhausted) "rr_state c = RS_SENDING" "rr_state p = RS_PENDING" "rr_delivery_disposition p = MANUAL_INTERVENTION"
      "validate_exhaustion_transition c p now = Inr ()"
  | (resumed) "rr_state c = RS_SENDING" "rr_state p = RS_PENDING" "rr_delivery_disposition p = AUTOMATIC"
      "require_same_attempt_history c p = Inr ()"
  | (acknowledged) "rr_state c = RS_SENDING" "rr_state p = RS_ACKNOWLEDGED"
      "validate_acknowledgement_transition U H c p now rc part = Inr ()"
  | (discarded) "rr_state c = RS_PENDING" "rr_state p = RS_DISCARDED" "validate_discard_transition c p now = Inr ()"
proof -
  have "rr_delivery_disposition p = AUTOMATIC \<or> rr_delivery_disposition p = MANUAL_INTERVENTION"
    by (cases "rr_delivery_disposition p") auto
  then show thesis
    using assms that unfolding validate_move_def
    by (cases "rr_state c"; cases "rr_state p") (auto split: if_splits elim!: bindE_InrE)
qed

lemma send_facts:
  assumes "validate_send_transition c p now = Inr ()"
  shows "rr_delivery_disposition c = AUTOMATIC" "rr_delivery_disposition p = AUTOMATIC"
    "rr_attempt_count p = rr_attempt_count c + 1" "rr_attempt_count c < dp_max_attempts (rr_delivery_policy c)"
    "rr_state c = RS_RETRY_WAIT \<Longrightarrow> \<exists>due. rr_next_attempt_at c = Some due \<and> not_before now (Some due) ''retry_not_due'' = Inr ()"
    "not_before now (rr_last_attempt_at c) ''timestamp_order_invalid'' = Inr ()"
    "\<exists>last. rr_last_attempt_at p = Some last \<and> same_instant last now = Inr True"
  using assms unfolding validate_send_transition_def
  by (auto split: if_splits option.splits elim!: bindE_InrE simp: the_field_def not_le)

lemma retry_facts:
  assumes "validate_retry_transition c p now = Inr ()"
  shows "require_same_attempt_history c p = Inr ()" "rr_attempt_count c < dp_max_attempts (rr_delivery_policy c)"
    "\<exists>expected due. next_attempt_at now (rr_attempt_count c) (rr_delivery_policy c) = Inr expected \<and>
       rr_next_attempt_at p = Some due \<and> same_instant due expected = Inr True"
  using assms unfolding validate_retry_transition_def
  by (auto split: if_splits option.splits elim!: bindE_InrE simp: the_field_def not_le)

lemma exhaustion_facts:
  assumes "validate_exhaustion_transition c p now = Inr ()"
  shows "rr_attempt_count p = rr_attempt_count c" "dp_max_attempts (rr_delivery_policy c) \<le> rr_attempt_count c"
  using assms unfolding validate_exhaustion_transition_def
  by (auto split: if_splits elim!: bindE_InrE)

lemma acknowledgement_facts:
  assumes "validate_acknowledgement_transition U H c p now rc part = Inr ()"
  obtains s h where "rc = Some s" "rr_acknowledgement p = Some (public_acknowledgement s)"
    "sr_tenant_partition s = tenant_partition part" "sr_client_id s = rr_client_id c"
    "sr_reconciliation_id s = rr_reconciliation_id c" "body_hash_unchecked U H c = Inr h" "sr_evidence_hash s = h"
    "require_same_attempt_history c p = Inr ()"
  using assms that unfolding validate_acknowledgement_transition_def
  by (auto split: option.splits if_splits elim!: bindE_InrE simp: the_field_def public_acknowledgement_def)

lemma discard_facts:
  "validate_discard_transition c p now = Inr () \<Longrightarrow> require_same_attempt_history c p = Inr ()"
  unfolding validate_discard_transition_def by (auto elim!: bindE_InrE)

lemma move_count:
  assumes "validate_move U H c p now rc part = Inr ()"
  shows "rr_attempt_count p = rr_attempt_count c + (if is_send c p then 1 else 0) \<and> rr_state p \<noteq> rr_state c"
  using assms
proof (cases rule: move_cases)
  case send
  then show ?thesis using send_facts(3) by (auto simp: is_send_def)
next
  case acknowledged
  have "require_same_attempt_history c p = Inr ()" using acknowledgement_facts [OF acknowledged(3)] by blast
  then show ?thesis using acknowledged same_history_facts(1) by (simp add: is_send_def)
qed (auto simp: is_send_def dest: retry_facts(1) exhaustion_facts(1) discard_facts same_history_facts(1))

lemma manual_cases:
  assumes "validate_manual_retry_transition U H c p d now ctx = Inr res"
  shows "valid_record U H c" "valid_record U H p" "res = Applied" "rr_state c = RS_PENDING" "rr_state p = RS_SENDING"
    "require_digest U H c d = Inr ()" "require_same_evidence U H c p = Inr ()"
    "rr_attempt_count p = rr_attempt_count c + 1" "rr_delivery_disposition c = MANUAL_INTERVENTION"
    "rr_attempt_count c < dp_max_total_attempts (rr_delivery_policy c)"
  using assms unfolding validate_manual_retry_transition_def valid_record_iff
  by (elim bindE_InrE; auto split: if_splits elim!: bindE_InrE)+

section \<open>Sequences of accepted steps\<close>

inductive step :: "unicode \<Rightarrow> (bytes \<Rightarrow> ustr) \<Rightarrow> reconciliation_record \<Rightarrow> reconciliation_record \<Rightarrow> bool" for U H where
  transition: "validate_reconciliation_transition U H c p d now ctx rc = Inr res \<Longrightarrow> step U H c p"
| manual_retry: "validate_manual_retry_transition U H c p d now ctx = Inr res \<Longrightarrow> step U H c p"

text \<open>\<open>delivery U H r n q\<close>: accepted steps lead from \<open>r\<close> to \<open>q\<close> and \<open>n\<close> of them start an upload.\<close>

inductive delivery :: "unicode \<Rightarrow> (bytes \<Rightarrow> ustr) \<Rightarrow> reconciliation_record \<Rightarrow> nat \<Rightarrow> reconciliation_record \<Rightarrow> bool" for U H r where
  start: "delivery U H r 0 r"
| next_step: "delivery U H r n c \<Longrightarrow> step U H c p \<Longrightarrow> delivery U H r (if is_send c p then Suc n else n) p"

inductive_cases stepE: "step U H c p"

lemma step_facts:
  assumes "step U H c p"
  shows "valid_record U H c" "valid_record U H p"
    "rr_attempt_count p = rr_attempt_count c + (if is_send c p then 1 else 0)"
    "p = c \<or> (require_same_evidence U H c p = Inr () \<and> rr_state p \<noteq> rr_state c \<and> \<not> is_terminal (rr_state c))"
proof -
  have "valid_record U H c \<and> valid_record U H p \<and> rr_attempt_count p = rr_attempt_count c + (if is_send c p then 1 else 0) \<and>
      (p = c \<or> (require_same_evidence U H c p = Inr () \<and> rr_state p \<noteq> rr_state c \<and> \<not> is_terminal (rr_state c)))"
    using assms
  proof (cases rule: step.cases)
    case (transition d now ctx rc res)
    note t = transition_cases [OF transition]
    show ?thesis
    proof (cases res)
      case Idempotent
      then show ?thesis using t(1,3) by (simp add: is_send_def)
    next
      case Applied
      then show ?thesis using t(1) t(4) move_count by blast
    qed
  next
    case (manual_retry d now ctx res)
    note m = manual_cases [OF manual_retry]
    then show ?thesis by (simp add: is_send_def is_terminal_def)
  qed
  then show "valid_record U H c" "valid_record U H p"
    "rr_attempt_count p = rr_attempt_count c + (if is_send c p then 1 else 0)"
    "p = c \<or> (require_same_evidence U H c p = Inr () \<and> rr_state p \<noteq> rr_state c \<and> \<not> is_terminal (rr_state c))"
    by blast+
qed

lemma delivery_count:
  assumes "delivery U H r n q" "valid_record U H r"
  shows "valid_record U H q \<and> rr_attempt_count q = rr_attempt_count r + int n"
  using assms by (induction rule: delivery.induct) (auto dest: step_facts(2,3))

lemma delivery_terminal:
  assumes "delivery U H r n q" "is_terminal (rr_state r)"
  shows "q = r \<and> n = 0"
  using assms(1)
proof (induction rule: delivery.induct)
  case (next_step n c p)
  then have "p = c" using step_facts(4) assms(2) by blast
  then show ?case using next_step by (simp add: is_send_def)
qed simp

end
