(* ===== verification/Reconciliation_Evidence.thy ===== *)
theory Reconciliation_Evidence
  imports Reconciliation_Safety
begin

text \<open>
  The evidence of a reconciliation record is immutable: equal evidence hashes mean equal
  evidence fields, and every accepted step keeps the hash.
\<close>

section \<open>Evidence hashes bind the evidence fields\<close>

definition same_evidence :: "reconciliation_record \<Rightarrow> reconciliation_record \<Rightarrow> bool" where
  "same_evidence r q \<longleftrightarrow>
    rr_schema_version r = rr_schema_version q \<and> rr_reconciliation_id r = rr_reconciliation_id q \<and>
    rr_action_id r = rr_action_id q \<and> rr_request_id r = rr_request_id q \<and> rr_decision_id r = rr_decision_id q \<and>
    rr_correlation_id r = rr_correlation_id q \<and>
    rr_authorization_idempotency_key r = rr_authorization_idempotency_key q \<and> rr_client_id r = rr_client_id q \<and>
    rr_action r = rr_action q \<and> rr_target_kind r = rr_target_kind q \<and> rr_client_scope_hash r = rr_client_scope_hash q \<and>
    rr_authoritative_scope_hash r = rr_authoritative_scope_hash q \<and> rr_outcome r = rr_outcome q \<and>
    rr_reason_code r = rr_reason_code q \<and> rr_observed_at r = rr_observed_at q \<and> rr_batch_id r = rr_batch_id q \<and>
    rr_batch_sequence r = rr_batch_sequence q \<and> rr_delivery_policy r = rr_delivery_policy q \<and>
    rr_extensions r = rr_extensions q"

definition pick :: "(ustr \<times> json) list \<Rightarrow> string list \<Rightarrow> (ustr \<times> json) list" where
  "pick kvs fs = concat (map (\<lambda>f. case lookup kvs f of None \<Rightarrow> [] | Some v \<Rightarrow> [(lit f, v)]) fs)"

lemma lookup_pick: "lookup (pick kvs fs) k = (if k \<in> set fs then lookup kvs k else None)"
  by (induction fs) (auto simp: pick_def split: option.splits)

lemma pick_ascii: "list_all ascii_string fs \<Longrightarrow> ascii_keys (pick kvs fs)"
  by (auto simp: pick_def ascii_keys_def list_all_iff split: option.splits)

lemma evidence_body_pick: "evidence_body r = JObj (pick (reconciliation_record_members r) IMMUTABLE_EVIDENCE_FIELDS)"
  by (simp add: evidence_body_def pick_def)

lemma members_no_absent:
  "reconciliation_record_schema fmt r \<Longrightarrow> no_absent (reconciliation_record_members r)"
  by (cases "rr_extensions r")
    (auto simp: reconciliation_record_members_def reconciliation_record_schema_def empty_extensions_def all_opt_def
      split: option.splits)

lemma enum_ascii [simp]:
  "ascii (action_name_value a)" "ascii (target_kind_value k)" "ascii (reconciliation_outcome_value oc)"
  "ascii (reconciliation_state_value st)"
  by (cases a, simp_all) (cases k, simp_all, cases oc, simp_all, cases st, simp_all)

lemma policy_agree:
  assumes "unicode_laws U" "agree U (JObj (delivery_policy_members a)) (JObj (delivery_policy_members b))"
  shows "a = b"
proof -
  have k: "ascii_keys (delivery_policy_members x)" "lookup (delivery_policy_members x) k \<noteq> Some JAbsent" for x k
    by (simp_all add: delivery_policy_members_def ascii_keys_def req_def)
  note field = agree_lookup [OF assms k(1) k(1) k(2) k(2)]
  show ?thesis
    using field [of "''maxAttempts''"] field [of "''maxTotalAttempts''"] field [of "''baseDelaySeconds''"] field [of "''maxDelaySeconds''"]
    by (simp add: delivery_policy_members_def) (auto dest: agree_int intro: delivery_policy.equality)
qed

definition evidence_ascii :: "reconciliation_record \<Rightarrow> bool" where
  "evidence_ascii r \<longleftrightarrow>
    ascii (rr_schema_version r) \<and> ascii (rr_reconciliation_id r) \<and> ascii (rr_action_id r) \<and> ascii (rr_request_id r) \<and>
    ascii (rr_correlation_id r) \<and> ascii (rr_authorization_idempotency_key r) \<and> ascii (rr_client_id r) \<and>
    ascii (rr_reason_code r) \<and> ascii (rr_observed_at r) \<and> ascii (rr_batch_id r) \<and> all_opt ascii (rr_decision_id r) \<and>
    all_opt ascii (rr_client_scope_hash r) \<and> all_opt ascii (rr_authoritative_scope_hash r)"

lemma schema_ascii: "reconciliation_record_schema fmt r \<Longrightarrow> evidence_ascii r"
  unfolding reconciliation_record_schema_def evidence_ascii_def class_eval RFC3339Timestamp_ok_def
  by (elim conjE, intro conjI)
    (simp | erule prefixed_ulid_ascii, simp | erule reason_code_ascii | erule client_id_ascii | erule timestamp_ascii |
      (erule all_opt_mono, erule sha256_ascii) | (erule all_opt_mono, erule prefixed_ulid_ascii, simp))+

lemma evidence_agree:
  assumes "unicode_laws U" "agree U (evidence_body r) (evidence_body q)" "reconciliation_record_schema fmt r"
    "reconciliation_record_schema fmt q" "f \<in> set IMMUTABLE_EVIDENCE_FIELDS"
  shows "rel_option (agree U) (lookup (reconciliation_record_members r) f) (lookup (reconciliation_record_members q) f)"
proof -
  have k: "ascii_keys (pick kvs IMMUTABLE_EVIDENCE_FIELDS)" for kvs
    by (rule pick_ascii) (simp add: IMMUTABLE_EVIDENCE_FIELDS_def)
  have l: "lookup (pick (reconciliation_record_members x) IMMUTABLE_EVIDENCE_FIELDS) f = lookup (reconciliation_record_members x) f" for x
    using assms(5) by (simp add: lookup_pick)
  have n: "lookup (reconciliation_record_members r) f \<noteq> Some JAbsent" "lookup (reconciliation_record_members q) f \<noteq> Some JAbsent"
    using members_no_absent assms(3,4) no_absent_lookup by blast+
  show ?thesis
    using agree_lookup [OF assms(1) assms(2) [unfolded evidence_body_pick] k k, of f] n unfolding l by blast
qed

lemma record_lookup [simp]:
  "lookup (reconciliation_record_members r) ''schemaVersion'' = Some (JStr (rr_schema_version r))"
  "lookup (reconciliation_record_members r) ''reconciliationId'' = Some (JStr (rr_reconciliation_id r))"
  "lookup (reconciliation_record_members r) ''actionId'' = Some (JStr (rr_action_id r))"
  "lookup (reconciliation_record_members r) ''requestId'' = Some (JStr (rr_request_id r))"
  "lookup (reconciliation_record_members r) ''decisionId'' = map_option JStr (rr_decision_id r)"
  "lookup (reconciliation_record_members r) ''correlationId'' = Some (JStr (rr_correlation_id r))"
  "lookup (reconciliation_record_members r) ''authorizationIdempotencyKey'' = Some (JStr (rr_authorization_idempotency_key r))"
  "lookup (reconciliation_record_members r) ''clientId'' = Some (JStr (rr_client_id r))"
  "lookup (reconciliation_record_members r) ''action'' = Some (JStr (action_name_value (rr_action r)))"
  "lookup (reconciliation_record_members r) ''targetKind'' = Some (JStr (target_kind_value (rr_target_kind r)))"
  "lookup (reconciliation_record_members r) ''clientScopeHash'' = map_option JStr (rr_client_scope_hash r)"
  "lookup (reconciliation_record_members r) ''authoritativeScopeHash'' = map_option JStr (rr_authoritative_scope_hash r)"
  "lookup (reconciliation_record_members r) ''outcome'' = Some (JStr (reconciliation_outcome_value (rr_outcome r)))"
  "lookup (reconciliation_record_members r) ''reasonCode'' = Some (JStr (rr_reason_code r))"
  "lookup (reconciliation_record_members r) ''observedAt'' = Some (JStr (rr_observed_at r))"
  "lookup (reconciliation_record_members r) ''batchId'' = Some (JStr (rr_batch_id r))"
  "lookup (reconciliation_record_members r) ''batchSequence'' = Some (JInt (rr_batch_sequence r))"
  "lookup (reconciliation_record_members r) ''deliveryPolicy'' = Some (JObj (delivery_policy_members (rr_delivery_policy r)))"
  "lookup (reconciliation_record_members r) ''extensions'' = rr_extensions r"
  "lookup (reconciliation_record_members r) ''state'' = Some (JStr (reconciliation_state_value (rr_state r)))"
  by (simp_all add: reconciliation_record_members_def option.map_ident)

lemma evidence_field_names [simp]:
  "''schemaVersion'' \<in> set IMMUTABLE_EVIDENCE_FIELDS"
  "''reconciliationId'' \<in> set IMMUTABLE_EVIDENCE_FIELDS"
  "''actionId'' \<in> set IMMUTABLE_EVIDENCE_FIELDS"
  "''requestId'' \<in> set IMMUTABLE_EVIDENCE_FIELDS"
  "''decisionId'' \<in> set IMMUTABLE_EVIDENCE_FIELDS"
  "''correlationId'' \<in> set IMMUTABLE_EVIDENCE_FIELDS"
  "''authorizationIdempotencyKey'' \<in> set IMMUTABLE_EVIDENCE_FIELDS"
  "''clientId'' \<in> set IMMUTABLE_EVIDENCE_FIELDS"
  "''action'' \<in> set IMMUTABLE_EVIDENCE_FIELDS"
  "''targetKind'' \<in> set IMMUTABLE_EVIDENCE_FIELDS"
  "''clientScopeHash'' \<in> set IMMUTABLE_EVIDENCE_FIELDS"
  "''authoritativeScopeHash'' \<in> set IMMUTABLE_EVIDENCE_FIELDS"
  "''outcome'' \<in> set IMMUTABLE_EVIDENCE_FIELDS"
  "''reasonCode'' \<in> set IMMUTABLE_EVIDENCE_FIELDS"
  "''observedAt'' \<in> set IMMUTABLE_EVIDENCE_FIELDS"
  "''batchId'' \<in> set IMMUTABLE_EVIDENCE_FIELDS"
  "''batchSequence'' \<in> set IMMUTABLE_EVIDENCE_FIELDS"
  "''deliveryPolicy'' \<in> set IMMUTABLE_EVIDENCE_FIELDS"
  "''extensions'' \<in> set IMMUTABLE_EVIDENCE_FIELDS"
  by (simp_all add: IMMUTABLE_EVIDENCE_FIELDS_def)

lemma evidence_fields:
  assumes "unicode_laws U" "agree U (evidence_body r) (evidence_body q)" "reconciliation_record_schema fmt r"
    "reconciliation_record_schema fmt q"
  shows "same_evidence r q"
proof -
  note field = evidence_agree [OF assms]
  have a: "evidence_ascii r" "evidence_ascii q" using schema_ascii assms(3,4) by blast+
  have req: "rr_schema_version r = rr_schema_version q" "rr_reconciliation_id r = rr_reconciliation_id q"
    "rr_action_id r = rr_action_id q" "rr_request_id r = rr_request_id q" "rr_correlation_id r = rr_correlation_id q"
    "rr_authorization_idempotency_key r = rr_authorization_idempotency_key q" "rr_client_id r = rr_client_id q"
    "rr_reason_code r = rr_reason_code q" "rr_observed_at r = rr_observed_at q" "rr_batch_id r = rr_batch_id q"
    using a field [of "''schemaVersion''"] field [of "''reconciliationId''"] field [of "''actionId''"] field [of "''requestId''"]
      field [of "''correlationId''"] field [of "''authorizationIdempotencyKey''"] field [of "''clientId''"]
      field [of "''reasonCode''"] field [of "''observedAt''"] field [of "''batchId''"]
    by (simp_all add: evidence_ascii_def agree_str [OF assms(1)])
  have opts: "rr_decision_id r = rr_decision_id q" "rr_client_scope_hash r = rr_client_scope_hash q"
    "rr_authoritative_scope_hash r = rr_authoritative_scope_hash q"
    by (rule rel_str_opt [OF assms(1)]; use a field [of "''decisionId''"] field [of "''clientScopeHash''"] field [of "''authoritativeScopeHash''"]
      in \<open>simp add: evidence_ascii_def\<close>)+
  have enums: "rr_action r = rr_action q" "rr_target_kind r = rr_target_kind q" "rr_outcome r = rr_outcome q"
    using rel_enum [OF assms(1), of action_name_value "rr_action r" "rr_action q" ActionName] field [of "''action''"]
      rel_enum [OF assms(1), of target_kind_value "rr_target_kind r" "rr_target_kind q" TargetKind] field [of "''targetKind''"]
      rel_enum [OF assms(1), of reconciliation_outcome_value "rr_outcome r" "rr_outcome q" ReconciliationOutcome] field [of "''outcome''"]
    by simp_all
  have seq: "rr_batch_sequence r = rr_batch_sequence q" "rr_delivery_policy r = rr_delivery_policy q"
    using field [of "''batchSequence''"] field [of "''deliveryPolicy''"]
    by (simp_all add: agree_int policy_agree [OF assms(1)])
  have ext: "rr_extensions r = rr_extensions q"
    using field [of "''extensions''"] assms(3,4)
    by (cases "rr_extensions r"; cases "rr_extensions q") (simp_all add: reconciliation_record_schema_def empty_extensions_def)
  show ?thesis unfolding same_evidence_def using req opts enums seq ext by blast
qed

end
