(* ===== verification/Reconciliation_Properties.thy ===== *)
theory Reconciliation_Properties
  imports Reconciliation_Evidence
begin

text \<open>
  The guarantees of the reconciliation state machine, with concrete runs that satisfy
  their hypotheses.
\<close>

section \<open>Supporting facts\<close>

lemma same_evidence_hash:
  "require_same_evidence U H c p = Inr () \<longleftrightarrow>
    rr_reconciliation_id c = rr_reconciliation_id p \<and>
    (\<exists>h. body_hash_unchecked U H c = Inr h \<and> body_hash_unchecked U H p = Inr h)"
  unfolding require_same_evidence_def
  by (cases "body_hash_unchecked U H c"; cases "body_hash_unchecked U H p") auto

lemma delivery_hash:
  assumes "delivery U H r n q"
  shows "q = r \<or> (\<exists>h. body_hash_unchecked U H r = Inr h \<and> body_hash_unchecked U H q = Inr h)"
  using assms
proof (induction rule: delivery.induct)
  case (next_step n c p)
  consider "p = c" | "require_same_evidence U H c p = Inr ()" using step_facts(4) [OF next_step(2)] by blast
  then show ?case
  proof cases
    case 1
    then show ?thesis using next_step.IH by simp
  next
    case 2
    then obtain h where "body_hash_unchecked U H c = Inr h" "body_hash_unchecked U H p = Inr h"
      unfolding same_evidence_hash by blast
    then show ?thesis using next_step.IH by auto
  qed
qed simp

lemma valid_schema: "valid_record U H r \<Longrightarrow> reconciliation_record_schema False r"
  by (auto simp: valid_record_parts validate_schema_def validate_structure_def split: if_splits)

lemma body_hash_agree:
  assumes "no_collision U H (evidence_body a) (evidence_body b)"
    "body_hash_unchecked U H a = Inr h" "body_hash_unchecked U H b = Inr h"
  shows "agree U (evidence_body a) (evidence_body b)"
  using hash_agree [OF assms(1)] assms(2,3) by (simp add: body_hash_unchecked_def)

lemma same_evidence_refl: "same_evidence r r"
  by (simp add: same_evidence_def)

lemma delivery_evidence:
  assumes "delivery U H r n q" "valid_record U H r" "unicode_laws U" "no_collision U H (evidence_body r) (evidence_body q)"
  shows "same_evidence r q"
proof (cases "q = r")
  case False
  then obtain h where "body_hash_unchecked U H r = Inr h" "body_hash_unchecked U H q = Inr h"
    using delivery_hash [OF assms(1)] by blast
  then have "agree U (evidence_body r) (evidence_body q)" by (rule body_hash_agree [OF assms(4)])
  then show ?thesis
    by (rule evidence_fields [OF assms(3)]) (use valid_schema delivery_count [OF assms(1,2)] assms(2) in blast)+
qed (simp add: same_evidence_refl)

text \<open>A state digest determines the state of the record.\<close>

lemma digest_state:
  assumes "unicode_laws U" "require_digest U H c d = Inr ()" "require_digest U H p d = Inr ()"
    "no_collision U H (record_json c) (record_json p)"
  shows "rr_state c = rr_state p"
proof -
  have h: "canonical_hash U H (to_value [] (record_json c)) = Inr d" "canonical_hash U H (to_value [] (record_json p)) = Inr d"
    and v: "valid_record U H c" "valid_record U H p"
    using assms(2,3) unfolding require_digest_def reconciliation_state_digest_def valid_record_iff
    by (auto elim!: bindE_InrE)
  have "agree U (record_json c) (record_json p)" by (rule hash_agree [OF assms(4) h])
  moreover have "ascii_keys (reconciliation_record_members x)" for x
    by (auto simp: ascii_keys_def reconciliation_record_members_def req_def opt_def split: option.splits)
  ultimately have "rel_option (agree U) (Some (JStr (reconciliation_state_value (rr_state c)))) (Some (JStr (reconciliation_state_value (rr_state p))))"
    using agree_lookup [OF assms(1), of "reconciliation_record_members c" "reconciliation_record_members p" "''state''"]
    by (simp add: record_json_def)
  then show ?thesis by (rule rel_enum [OF assms(1)]) (simp_all, rule reconciliation_state_roundtrip)
qed

text \<open>Reconciliation records form a compare-and-swap machine.\<close>

interpretation rec: cas_machine "\<lambda>r d. require_digest U H r d = Inr ()" rr_state
  "\<lambda>c p d. \<exists>now ctx rc. validate_reconciliation_transition U H c p d now ctx rc = Inr Applied"
  "\<lambda>c p. unicode_laws U \<and> no_collision U H (record_json c) (record_json p)" for U H
proof
  fix c p d
  assume "\<exists>now ctx rc. validate_reconciliation_transition U H c p d now ctx rc = Inr Applied"
  then obtain now ctx rc where t: "validate_reconciliation_transition U H c p d now ctx rc = Inr Applied" by blast
  show "require_digest U H c d = Inr ()" by (rule transition_cases(2) [OF t])
  show "rr_state p \<noteq> rr_state c" using transition_cases(4) [OF t] move_count by blast
next
  fix c d p
  assume "require_digest U H c d = Inr ()" "require_digest U H p d = Inr ()"
    "unicode_laws U \<and> no_collision U H (record_json c) (record_json p)"
  then show "rr_state c = rr_state p" using digest_state by blast
qed

section \<open>The retry schedule\<close>

lemma same_instant_iff:
  "same_instant a b = Inr True \<longleftrightarrow>
    (\<exists>x y. parse_rfc3339 a = Inr x \<and> parse_rfc3339 b = Inr y \<and> instant x = instant y)"
  unfolding same_instant_def bindE_Inr_iff using parsed_order(4) by auto

lemma not_before_iff:
  "not_before now (Some t) e = Inr () \<longleftrightarrow>
    (\<exists>x y. parse_rfc3339 now = Inr x \<and> parse_rfc3339 t = Inr y \<and> instant y \<le> instant x)"
  unfolding not_before_def compare_timestamps_def option.case bindE_Inr_iff guardE_iff
  using parsed_order(1) by (metis Inr_inject not_less)

lemma next_attempt_at_parts:
  "next_attempt_at now n p = Inr w \<Longrightarrow> \<exists>d. retry_delay_seconds n p = Inr d \<and> add_seconds now d = Inr w"
  unfolding next_attempt_at_def validated_retry_policy_def by (auto elim!: bindE_InrE split: if_splits)

lemma retry_schedule:
  assumes "validate_retry_transition a b now1 = Inr ()" "validate_send_transition b c now2 = Inr ()" "rr_state b = RS_RETRY_WAIT"
  obtains d t1 t2 where "retry_delay_seconds (rr_attempt_count a) (rr_delivery_policy a) = Inr d"
    "parse_rfc3339 now1 = Inr t1" "parse_rfc3339 now2 = Inr t2" "instant t1 + of_int d \<le> instant t2"
proof -
  obtain expected due where e: "next_attempt_at now1 (rr_attempt_count a) (rr_delivery_policy a) = Inr expected"
    "rr_next_attempt_at b = Some due" "same_instant due expected = Inr True"
    using retry_facts(3) [OF assms(1)] by blast
  obtain d where d: "retry_delay_seconds (rr_attempt_count a) (rr_delivery_policy a) = Inr d" "add_seconds now1 d = Inr expected"
    using next_attempt_at_parts [OF e(1)] by blast
  obtain s f where s: "parse_rfc3339 now1 = Inr (s, f)" "parse_rfc3339 expected = Inr (s + d, f)"
    using add_seconds_parse [OF d(2)] .
  have "not_before now2 (Some due) ''retry_not_due'' = Inr ()"
    using send_facts(5) [OF assms(2,3)] e(2) by auto
  then obtain t2 y where t: "parse_rfc3339 now2 = Inr t2" "parse_rfc3339 due = Inr y" "instant y \<le> instant t2"
    unfolding not_before_iff by blast
  then have "instant (s + d, f) \<le> instant t2" using e(3) s(2) unfolding same_instant_iff by auto
  then show thesis using that [OF d(1) s(1) t(1)] by (simp add: instant_def)
qed

definition policy_wf :: "int \<Rightarrow> delivery_policy \<Rightarrow> bool" where
  "policy_wf n p \<longleftrightarrow>
    1 \<le> dp_base_delay_seconds p \<and> dp_base_delay_seconds p \<le> 3600 \<and> dp_base_delay_seconds p \<le> dp_max_delay_seconds p \<and>
    dp_max_delay_seconds p \<le> 86400 \<and> 1 \<le> dp_max_attempts p \<and> dp_max_attempts p \<le> 100 \<and>
    dp_max_attempts p \<le> dp_max_total_attempts p \<and> dp_max_total_attempts p \<le> 100 \<and> 1 \<le> n \<and> n \<le> dp_max_total_attempts p"

text \<open>The cap of the exponent is never visible: 2 to the 63 exceeds every admissible maximum.\<close>

lemma capped_power:
  assumes "1 \<le> (b::int)" "m \<le> 86400"
  shows "min (b * 2 ^ min k 63) m = min (b * 2 ^ k) m"
proof (cases "k \<le> 63")
  case False
  have big: "(2::int) ^ 63 \<le> 2 ^ k" using False by (intro power_increasing) auto
  have "m \<le> b * 2 ^ 63" using assms by (auto intro: order_trans [of m "2 ^ 63"])
  moreover have "b * 2 ^ 63 \<le> b * 2 ^ k" using assms(1) big by (intro mult_left_mono) auto
  ultimately have "min (b * 2 ^ 63) m = m" "min (b * 2 ^ k) m = m" by linarith+
  then show ?thesis using False by (simp add: min_def [of k])
qed (simp add: min_def)

lemma retry_delay_reference:
  "retry_delay_seconds n p =
    (if policy_wf n p then Inr (min (dp_base_delay_seconds p * 2 ^ nat (n - 1)) (dp_max_delay_seconds p))
     else Inl ''retry_policy_invalid'')"
proof (cases "policy_wf n p")
  case True
  then have "nat (min (n - 1) 63) = min (nat (n - 1)) 63" by (auto simp: policy_wf_def)
  then show ?thesis
    using True capped_power [of "dp_base_delay_seconds p" "dp_max_delay_seconds p" "nat (n - 1)"]
    by (auto simp: retry_delay_seconds_def policy_wf_def Let_def)
next
  case False
  then show ?thesis by (auto simp: retry_delay_seconds_def policy_wf_def Let_def)
qed

section \<open>Crash recovery\<close>

definition recovered :: "reconciliation_record \<Rightarrow> reconciliation_record" where
  "recovered c =
    (let pending = c\<lparr>rr_state := RS_PENDING\<rparr> in
     if rr_delivery_disposition c = MANUAL_INTERVENTION \<or> rr_attempt_count c \<ge> dp_max_attempts (rr_delivery_policy c)
     then pending\<lparr>rr_delivery_disposition := MANUAL_INTERVENTION, rr_manual_reason_code := Some MANUAL_REASON\<rparr>
     else pending)"

lemma recovered_fields [simp]:
  "rr_state (recovered c) = RS_PENDING" "rr_attempt_count (recovered c) = rr_attempt_count c"
  "rr_last_attempt_at (recovered c) = rr_last_attempt_at c" "rr_next_attempt_at (recovered c) = rr_next_attempt_at c"
  "rr_acknowledged_at (recovered c) = rr_acknowledged_at c" "rr_discarded_at (recovered c) = rr_discarded_at c"
  "rr_observed_at (recovered c) = rr_observed_at c" "rr_delivery_policy (recovered c) = rr_delivery_policy c"
  "same_evidence c (recovered c)"
  by (simp_all add: recovered_def Let_def same_evidence_def)

lemma evidence_body_cong: "same_evidence r q \<Longrightarrow> evidence_body r = evidence_body q"
  unfolding evidence_body_def IMMUTABLE_EVIDENCE_FIELDS_def list.map record_lookup same_evidence_def by simp

lemma small_members:
  "small_extensions (JObj (xs @ ys)) \<longleftrightarrow> small_extensions (JObj xs) \<and> small_extensions (JObj ys)"
  "small_extensions (JObj (req k v)) \<longleftrightarrow> (if k = ''extensions'' then small_numbers v else small_extensions v)"
  "small_extensions (JObj (opt k f x)) \<longleftrightarrow> all_opt (\<lambda>y. if k = ''extensions'' then small_numbers (f y) else small_extensions (f y)) x"
  "small_extensions (JObj [])"
  by (auto simp: req_def) (cases x; simp add: opt_def)+

lemma schema_extensions: "reconciliation_record_schema fmt r \<Longrightarrow> isOk (validate_extension_numbers (record_json r))"
  by (cases "rr_extensions r")
    (simp_all add: extension_numbers_iff record_json_def reconciliation_record_members_def small_members
      delivery_policy_members_def reconciliation_acknowledgement_members_def reconciliation_discard_members_def
      reconciliation_record_schema_def empty_extensions_def del: small_extensions.simps(1))

lemma recovered_schema:
  assumes "reconciliation_record_schema fmt c" "rr_state c = RS_SENDING"
  shows "reconciliation_record_schema fmt (recovered c)"
  using assms unfolding reconciliation_record_schema_def reconciliation_conditions_def recovered_def Let_def
  by (auto simp: MANUAL_REASON_def split: if_splits)

lemma recovered_counters: "counters_ok c \<Longrightarrow> rr_state c = RS_SENDING \<Longrightarrow> counters_ok (recovered c)"
  by (cases "rr_delivery_disposition c") (auto simp: counters_ok_def recovered_def Let_def)

lemma recovered_valid:
  assumes "valid_record U H c" "rr_state c = RS_SENDING" "isOk (validate_record_size U (recovered c))"
  shows "valid_record U H (recovered c)"
proof -
  note c = assms(1) [unfolded valid_record_parts]
  have s: "reconciliation_record_schema False (recovered c)" using recovered_schema valid_schema assms(1,2) by blast
  then have "isOk (validate_schema (recovered c))"
    using schema_extensions by (simp add: validate_schema_def validate_structure_def)
  moreover have "times_ok (recovered c)" using c by (simp add: times_ok_def)
  moreover have "counters_ok (recovered c)" using recovered_counters c assms(2) by blast
  ultimately show ?thesis unfolding valid_record_parts using assms(3) by simp
qed

lemma recovered_move:
  assumes "valid_record U H c" "rr_state c = RS_SENDING" "not_before now (rr_last_attempt_at c) ''timestamp_order_invalid'' = Inr ()"
  shows "validate_move U H c (recovered c) now rc part = Inr ()"
proof -
  note c = assms(1) [unfolded valid_record_parts]
  have cond: "reconciliation_conditions c" using valid_schema [OF assms(1)] by (simp add: reconciliation_record_schema_def)
  then obtain l where l: "rr_last_attempt_at c = Some l" using assms(2) by (auto simp: reconciliation_conditions_def)
  then obtain t where t: "parse_rfc3339 l = Inr t" using assms(3) unfolding l not_before_iff by blast
  then have same: "same_instant l l = Inr True" unfolding same_instant_iff by blast
  have before: "not_before now (Some l) ''timestamp_order_invalid'' = Inr ()" using assms(3) l by simp
  show ?thesis
  proof (cases "rr_delivery_disposition c = MANUAL_INTERVENTION \<or> rr_attempt_count c \<ge> dp_max_attempts (rr_delivery_policy c)")
    case True
    then have "dp_max_attempts (rr_delivery_policy c) \<le> rr_attempt_count c" using c by (auto simp: counters_ok_def Let_def)
    then show ?thesis
      using True assms(2) l same before
      by (simp add: validate_move_def recovered_def validate_exhaustion_transition_def the_field_def)
  next
    case False
    then have "rr_delivery_disposition c = AUTOMATIC" by (cases "rr_delivery_disposition c") auto
    then show ?thesis
      using False assms(2) l same before
      by (simp add: validate_move_def recovered_def the_field_def require_same_attempt_history_def same_attempt_history_def)
  qed
qed

lemma recover_succeeds:
  assumes "valid_record U H c" "require_owner_context c ctx = Inr part" "require_digest U H c d = Inr ()"
    "rr_state c = RS_SENDING" "isOk (parse_rfc3339 now)" "not_before now (rr_last_attempt_at c) ''timestamp_order_invalid'' = Inr ()"
    "isOk (validate_record_size U (recovered c))" "isOk (body_hash_unchecked U H c)"
  shows "recover_after_restart U H c d now ctx = Inr (recovered c)"
proof -
  obtain h where h: "body_hash_unchecked U H c = Inr h" using assms(8) by (auto simp: isOk_iff)
  then have "body_hash_unchecked U H (recovered c) = Inr h"
    using evidence_body_cong [OF recovered_fields(9)] by (simp add: body_hash_unchecked_def)
  then have ev: "require_same_evidence U H c (recovered c) = Inr ()"
    unfolding same_evidence_hash using h recovered_fields(9) by (simp add: same_evidence_def)
  obtain part' where part: "get_partition c ctx = Inr part'"
    using assms(2) by (auto simp: require_owner_context_def elim!: bindE_InrE)
  have ne: "c \<noteq> recovered c" using assms(4) by (metis recovered_fields(1) reconciliation_state.distinct(1))
  obtain t where t: "parse_rfc3339 now = Inr t" using assms(5) by (auto simp: isOk_iff)
  have p: "validate_reconciliation_document U H (recovered c) = Inr ()"
    using recovered_valid [OF assms(1,4,7)] by (simp add: valid_record_iff)
  have v: "validate_reconciliation_document U H c = Inr ()" using assms(1) by (simp add: valid_record_iff)
  have "validate_reconciliation_transition U H c (recovered c) d now ctx None = Inr Applied"
    using v part p assms(2,3,4) ne t ev recovered_move [OF assms(1,4,6)]
    by (simp add: validate_reconciliation_transition_def is_terminal_def)
  then show ?thesis
    using v assms(2,3,4) unfolding recover_after_restart_def recovered_def Let_def by simp
qed

section \<open>Batches\<close>

definition due_at :: "timestamp \<Rightarrow> reconciliation_record \<Rightarrow> bool" where
  "due_at now r \<longleftrightarrow>
    rr_delivery_disposition r = AUTOMATIC \<and>
    (rr_state r = RS_PENDING \<or>
     rr_state r = RS_RETRY_WAIT \<and>
       (\<exists>due t. rr_next_attempt_at r = Some due \<and> parse_rfc3339 due = Inr t \<and> \<not> timestamp_order now t < 0))"

definition completed :: "batch_checkpoint \<Rightarrow> reconciliation_record \<Rightarrow> bool" where
  "completed cp r \<longleftrightarrow>
    rr_state r = RS_ACKNOWLEDGED \<and> rr_batch_sequence r < expected_next_sequence cp \<and>
    map_of (completed_prefix cp) (rr_batch_sequence r) = Some (rr_reconciliation_id r)"

lemma select_due_step:
  assumes "select_due cp now limit seen sel (r # rs) = Inr out"
  obtains (skip) "completed cp r" "\<not> seen" "select_due cp now limit seen sel rs = Inr out"
  | (stop) "out = sel"
  | (last) "out = sel @ [r]" "due_at now r" "seen \<or> rr_batch_sequence r = expected_next_sequence cp"
  | (take) "select_due cp now limit True (sel @ [r]) rs = Inr out" "due_at now r" "seen \<or> rr_batch_sequence r = expected_next_sequence cp"
proof (cases "is_terminal (rr_state r)")
  case True
  then show thesis using assms skip by (auto simp: completed_def not_le split: if_splits)
next
  case False
  then have st: "rr_state r = RS_PENDING \<or> rr_state r = RS_RETRY_WAIT \<or> rr_state r = RS_SENDING"
    by (cases "rr_state r") (auto simp: is_terminal_def)
  have first: "seen \<or> rr_batch_sequence r = expected_next_sequence cp" using assms False by (auto split: if_splits)
  have eq: "select_due cp now limit seen sel (r # rs) =
      (if rr_delivery_disposition r = MANUAL_INTERVENTION \<or> rr_state r = RS_SENDING then Inr sel
       else bindE (if rr_state r = RS_RETRY_WAIT
              then bindE (the_field (rr_next_attempt_at r)) (\<lambda>due.
                   bindE (parse_rfc3339 due) (\<lambda>t. Inr (timestamp_order now t < 0)))
              else Inr False) (\<lambda>blocked.
            if blocked then Inr sel
            else if int (length (sel @ [r])) = limit then Inr (sel @ [r])
            else select_due cp now limit True (sel @ [r]) rs))"
    using False first unfolding select_due.simps Let_def by auto
  have chosen: thesis if d: "due_at now r" and h: "(if int (length (sel @ [r])) = limit then Inr (sel @ [r])
      else select_due cp now limit True (sel @ [r]) rs) = (Inr out :: code + _)"
  proof (cases "int (length (sel @ [r])) = limit")
    case True
    then have "out = sel @ [r]" using h by simp
    then show thesis using d first by (rule last)
  next
    case False
    then have "select_due cp now limit True (sel @ [r]) rs = Inr out" using h by simp
    then show thesis using d first by (rule take)
  qed
  consider "rr_delivery_disposition r = MANUAL_INTERVENTION" | "rr_state r = RS_SENDING"
    | "rr_delivery_disposition r = AUTOMATIC" "rr_state r = RS_PENDING"
    | "rr_delivery_disposition r = AUTOMATIC" "rr_state r = RS_RETRY_WAIT"
    using st by (cases "rr_delivery_disposition r") auto
  then show thesis
  proof cases
    case 1
    then have "out = sel" using assms unfolding eq by simp
    then show thesis by (rule stop)
  next
    case 2
    then have "out = sel" using assms unfolding eq by simp
    then show thesis by (rule stop)
  next
    case 3
    then show thesis using assms unfolding eq by (intro chosen) (simp_all add: due_at_def)
  next
    case 4
    obtain due t where t: "rr_next_attempt_at r = Some due" "parse_rfc3339 due = Inr t"
      using assms 4 unfolding eq by (auto simp: the_field_def split: option.splits elim!: bindE_InrE)
    show thesis
    proof (cases "timestamp_order now t < 0")
      case True
      then have "out = sel" using assms 4 t unfolding eq by (simp add: the_field_def)
      then show thesis by (rule stop)
    next
      case late: False
      then show thesis using assms 4 t unfolding eq by (cases t) (intro chosen, simp_all add: due_at_def the_field_def)
    qed
  qed
qed

lemma select_due_shape:
  assumes "select_due cp now limit seen sel rs = Inr out"
  shows "\<exists>pre mid post. rs = pre @ mid @ post \<and> out = sel @ mid \<and> (seen \<longrightarrow> pre = []) \<and> (\<forall>r \<in> set pre. completed cp r) \<and>
    (\<forall>r \<in> set mid. due_at now r) \<and> (\<not> seen \<and> mid \<noteq> [] \<longrightarrow> rr_batch_sequence (hd mid) = expected_next_sequence cp)"
  using assms
proof (induction rs arbitrary: seen sel)
  case (Cons r rs)
  from Cons.prems show ?case
  proof (cases rule: select_due_step)
    case skip
    obtain pre mid post where h: "rs = pre @ mid @ post" "out = sel @ mid" "\<forall>r \<in> set pre. completed cp r" "\<forall>r \<in> set mid. due_at now r"
      "mid \<noteq> [] \<longrightarrow> rr_batch_sequence (hd mid) = expected_next_sequence cp"
      using Cons.IH [OF skip(3)] skip(2) by blast
    then have "r # rs = (r # pre) @ mid @ post" by simp
    then show ?thesis using h skip(1,2) by (metis set_ConsD)
  next
    case stop
    then have "r # rs = [] @ [] @ (r # rs) \<and> out = sel @ []" by simp
    then show ?thesis by (metis empty_iff list.set(1))
  next
    case last
    then have "r # rs = [] @ [r] @ rs" by simp
    then show ?thesis using last by (metis empty_iff list.sel(1) list.set(1) set_ConsD)
  next
    case take
    obtain mid post where h: "rs = mid @ post" "out = (sel @ [r]) @ mid" "\<forall>r \<in> set mid. due_at now r"
      using Cons.IH [OF take(1)] by auto
    then have "r # rs = [] @ (r # mid) @ post \<and> out = sel @ (r # mid)" by simp
    then show ?thesis using h take(2,3) by (metis empty_iff list.sel(1) list.set(1) set_ConsD)
  qed
qed auto

lemma consecutive_take:
  assumes "map f xs = [a .. a + int (length xs) - 1]" "xs = pre @ mid @ post"
  shows "map f mid = [a + int (length pre) .. a + int (length pre) + int (length mid) - 1]"
proof (rule nth_equalityI)
  fix i assume i: "i < length (map f mid)"
  then have "map f mid ! i = map f xs ! (length pre + i)" using assms(2) by (simp add: nth_append)
  also have "\<dots> = a + int (length pre + i)" unfolding assms(1) using i assms(2) by (subst nth_upto) auto
  finally show "map f mid ! i = [a + int (length pre) .. a + int (length pre) + int (length mid) - 1] ! i"
    using i by (subst nth_upto) auto
qed simp

lemma batch_selection:
  assumes "ordered_batch_resume U H records now limit ctx (Some cp) = Inr out"
  obtains t pre post where "parse_rfc3339 now = Inr t" "records = pre @ out @ post" "\<forall>r \<in> set pre. completed cp r"
    "\<forall>r \<in> set out. due_at t r \<and> valid_record U H r"
    "map rr_batch_sequence out = [expected_next_sequence cp .. expected_next_sequence cp + int (length out) - 1]"
    "int (length out) \<le> limit"
proof -
  obtain t where t: "parse_rfc3339 now = Inr t" "int (length records) \<le> limit"
    and r: "records = [] \<and> out = [] \<or>
      validate_records U H records ctx = Inr () \<and> batch_shape records cp \<and> select_due cp t limit False [] records = Inr out"
    using assms by (auto simp: ordered_batch_resume_def not_less elim!: bindE_InrE split: if_splits)
  show thesis
  proof (cases "records = []")
    case True
    then show thesis using that [of t "[]" "[]"] t r by auto
  next
    case False
    then have v: "validate_records U H records ctx = Inr ()" and b: "batch_shape records cp" and
      s: "select_due cp t limit False [] records = Inr out" using r by auto
    obtain pre post where h: "records = pre @ out @ post" "\<forall>r \<in> set pre. completed cp r" "\<forall>r \<in> set out. due_at t r"
      "out \<noteq> [] \<longrightarrow> rr_batch_sequence (hd out) = expected_next_sequence cp"
      using select_due_shape [OF s] by auto
    have valid: "\<forall>r \<in> set records. valid_record U H r"
      using v by (induction records) (auto simp: valid_record_iff elim!: bindE_InrE)
    let ?a = "hd (map rr_batch_sequence records)"
    have "map rr_batch_sequence records = [?a .. ?a + int (length records) - 1]"
      using b by (simp add: batch_shape_def Let_def)
    note seq = consecutive_take [OF this h(1)]
    have "map rr_batch_sequence out = [expected_next_sequence cp .. expected_next_sequence cp + int (length out) - 1]"
    proof (cases out)
      case (Cons x xs)
      then have "rr_batch_sequence x = ?a + int (length pre)"
        using arg_cong [OF seq, of hd] by (simp add: upto_rec1)
      then have "?a + int (length pre) = expected_next_sequence cp" using h(4) Cons by simp
      then show ?thesis using seq by (simp only:)
    qed simp
    then show thesis using that [OF t(1) h(1,2)] h(1,3) valid t(2) by auto
  qed
qed

section \<open>Properties\<close>

text \<open>
  C2: Delivery is bounded: along every sequence of accepted transitions and manual retries the
  attempt counter counts exactly the uploads that were started, and their number never
  exceeds the total the record's policy allows, at most 100.
\<close>

theorem deliveries_bounded:
  assumes "valid_record U H r" "delivery U H r n q"
  shows "valid_record U H q \<and> rr_attempt_count q = rr_attempt_count r + int n \<and>
    rr_attempt_count q \<le> dp_max_total_attempts (rr_delivery_policy q) \<and> int n \<le> 100"
proof -
  have q: "valid_record U H q" "rr_attempt_count q = rr_attempt_count r + int n" using delivery_count [OF assms(2,1)] by auto
  have "0 \<le> rr_attempt_count r" "rr_attempt_count q \<le> 100"
    using valid_schema assms(1) q(1) by (auto simp: reconciliation_record_schema_def)
  then show ?thesis using q by (simp add: valid_record_parts counters_ok_def Let_def)
qed

text \<open>
  C3: The evidence of a record is immutable: after any sequence of accepted steps every evidence
  field (identifiers, action, outcome, hashes, policy, batch position) is unchanged, unless the
  two evidence bodies collide under the digest.
\<close>

theorem evidence_immutable:
  assumes "unicode_laws U" "valid_record U H r" "delivery U H r n q" "no_collision U H (evidence_body r) (evidence_body q)"
  shows "same_evidence r q"
  using delivery_evidence [OF assms(3,2,1,4)] .

text \<open>
  C1: No lost update: once a writer's transition from \<open>c\<close> to \<open>p\<close> is applied under the revision
  digest \<open>d\<close>, no second transition and no manual retry is accepted from \<open>p\<close> under the same digest.
\<close>

theorem no_lost_update:
  assumes "unicode_laws U" "validate_reconciliation_transition U H c p d now ctx rc = Inr Applied"
    "no_collision U H (record_json c) (record_json p)"
  shows "\<not> isOk (validate_reconciliation_transition U H p q d now' ctx' rc') \<and>
    \<not> isOk (validate_manual_retry_transition U H p q d now' ctx')"
proof -
  have "require_digest U H p d \<noteq> Inr ()" using rec.stale_revision assms by blast
  then show ?thesis using transition_cases(2) manual_cases(6) by (metis isOk_iff)
qed

text \<open>
  C11: Acknowledged and discarded are final: no sequence of accepted steps leaves a terminal record.
\<close>

theorem terminal_final:
  assumes "is_terminal (rr_state r)" "delivery U H r n q"
  shows "q = r \<and> n = 0"
  using delivery_terminal [OF assms(2,1)] .

text \<open>
  C5: A record becomes acknowledged only from an upload in flight and only with an authenticated
  server receipt that names this record, this client, this tenant and the hash of this record's
  evidence; the receipt's public part is what is stored.
\<close>

theorem acknowledgement_authentic:
  assumes "validate_reconciliation_transition U H c p d now ctx rc = Inr Applied" "rr_state p = RS_ACKNOWLEDGED"
  shows "rr_state c = RS_SENDING \<and>
    (\<exists>s part. rc = Some s \<and> get_partition c ctx = Inr part \<and> sr_tenant_partition s = tenant_partition part \<and>
       authenticated_tenant ctx = tenant_partition part \<and> sr_client_id s = rr_client_id c \<and>
       sr_reconciliation_id s = rr_reconciliation_id c \<and> reconciliation_body_hash U H c = Inr (sr_evidence_hash s) \<and>
       rr_acknowledgement p = Some (public_acknowledgement s))"
proof -
  note t = transition_cases [OF assms(1)]
  obtain part where part: "get_partition c ctx = Inr part" "validate_move U H c p now rc part = Inr ()" using t(4) by blast
  then have m: "rr_state c = RS_SENDING" "validate_acknowledgement_transition U H c p now rc part = Inr ()"
    using assms(2) by (auto elim: move_cases)
  have tenant: "authenticated_tenant ctx = tenant_partition part"
    using part(1) by (auto simp: get_partition_def split: option.splits if_splits)
  have "validate_reconciliation_document U H c = Inr ()" using t(1) by (simp add: valid_record_iff)
  then show ?thesis
    using m part(1) tenant by (auto elim!: acknowledgement_facts simp: reconciliation_body_hash_def)
qed

text \<open>
  C10: A failed upload is retried no earlier than the back-off allows: between the failure and the
  next upload lies at least the delay that the policy prescribes for this attempt.
\<close>

theorem retry_not_early:
  assumes "validate_reconciliation_transition U H a b d1 now1 ctx1 rc1 = Inr Applied" "rr_state a = RS_SENDING" "rr_state b = RS_RETRY_WAIT"
    "validate_reconciliation_transition U H b c d2 now2 ctx2 rc2 = Inr Applied"
  shows "rr_state c = RS_SENDING \<and>
    (\<exists>delay t1 t2. retry_delay_seconds (rr_attempt_count a) (rr_delivery_policy a) = Inr delay \<and>
       parse_rfc3339 now1 = Inr t1 \<and> parse_rfc3339 now2 = Inr t2 \<and> instant t1 + of_int delay \<le> instant t2)"
proof -
  have r: "validate_retry_transition a b now1 = Inr ()"
    using transition_cases(4) [OF assms(1)] assms(2,3) by (auto elim: move_cases)
  have s: "rr_state c = RS_SENDING" "validate_send_transition b c now2 = Inr ()"
    using transition_cases(4) [OF assms(4)] assms(3) by (auto elim: move_cases)
  show ?thesis using s(1) retry_schedule [OF r s(2) assms(3)] by metis
qed

text \<open>
  C12: The back-off is the bounded exponential of its policy: the base doubles with every attempt up
  to the maximum, the internal cap of the exponent never shows, and anything out of range is refused.
\<close>

theorem retry_delay_exponential:
  "retry_delay_seconds n p =
    (if policy_wf n p then Inr (min (dp_base_delay_seconds p * 2 ^ nat (n - 1)) (dp_max_delay_seconds p))
     else Inl ''retry_policy_invalid'')"
  by (rule retry_delay_reference)

text \<open>
  C4: A crash never loses a record: an upload that was in flight when the process died is recovered by
  its owner to the pending state with its evidence, attempts and schedule intact, and to manual
  intervention exactly when its automatic attempts are used up.
\<close>

theorem recovery_succeeds:
  assumes "valid_record U H c" "require_owner_context c ctx = Inr part" "require_digest U H c d = Inr ()"
    "rr_state c = RS_SENDING" "isOk (parse_rfc3339 now)" "not_before now (rr_last_attempt_at c) ''timestamp_order_invalid'' = Inr ()"
    "isOk (validate_record_size U (recovered c))" "isOk (body_hash_unchecked U H c)"
  shows "recover_after_restart U H c d now ctx = Inr (recovered c) \<and> valid_record U H (recovered c) \<and>
    rr_state (recovered c) = RS_PENDING \<and> same_evidence c (recovered c) \<and> rr_attempt_count (recovered c) = rr_attempt_count c \<and>
    (rr_delivery_disposition (recovered c) = MANUAL_INTERVENTION \<longleftrightarrow>
       rr_attempt_count c \<ge> dp_max_attempts (rr_delivery_policy c))"
proof -
  have "rr_delivery_disposition (recovered c) = MANUAL_INTERVENTION \<longleftrightarrow> rr_attempt_count c \<ge> dp_max_attempts (rr_delivery_policy c)"
    using assms(1) by (auto simp: recovered_def Let_def valid_record_parts counters_ok_def)
  then show ?thesis using recover_succeeds [OF assms] recovered_valid [OF assms(1,4,7)] by simp
qed


end
