(* ===== verification/Reconciliation_Runs.thy ===== *)
theory Reconciliation_Runs
  imports Reconciliation_Properties
begin

text \<open>
  A concrete run of the reconciliation state machine: a record is sent, fails, waits and is
  sent again; its upload is recovered after a crash, or acknowledged.  The run instantiates
  the Unicode database and the digest by concrete functions and satisfies the hypotheses of
  the properties.
\<close>

section \<open>Records and trusted inputs\<close>

definition due_time :: ustr where "due_time = lit ''2026-01-02T03:04:08Z''"

definition sent :: reconciliation_record where
  "sent = sample_reconciliation\<lparr>rr_state := RS_SENDING, rr_attempt_count := 1, rr_last_attempt_at := Some sample_time\<rparr>"

definition waiting :: reconciliation_record where
  "waiting = sent\<lparr>rr_state := RS_RETRY_WAIT, rr_next_attempt_at := Some due_time\<rparr>"

definition resent :: reconciliation_record where
  "resent = sent\<lparr>rr_attempt_count := 2, rr_last_attempt_at := Some due_time\<rparr>"

definition receipt :: server_receipt where
  "receipt = \<lparr>sr_receipt_id = sample_id ''receipt_'', sr_reconciliation_id = sample_id ''recon_'', sr_evidence_hash = sample_digest,
     sr_acknowledged_at = sample_time, sr_tenant_partition = lit ''tenant'', sr_client_id = lit ''codex''\<rparr>"

definition acked :: reconciliation_record where
  "acked = sent\<lparr>rr_state := RS_ACKNOWLEDGED, rr_acknowledged_at := Some sample_time,
     rr_acknowledgement := Some (public_acknowledgement receipt)\<rparr>"

definition owner :: trusted_context where
  "owner = \<lparr>record_partitions = [(sample_id ''recon_'', \<lparr>tenant_partition = lit ''tenant'', owner_subject = lit ''ada''\<rparr>)],
     authenticated_tenant = lit ''tenant'', authenticated_subject = lit ''ada'', organization_retention_authority = None\<rparr>"

definition revision :: "(bytes \<Rightarrow> ustr) \<Rightarrow> reconciliation_record \<Rightarrow> ustr" where
  "revision H r = (case reconciliation_state_digest plain_unicode H r of Inr d \<Rightarrow> d | Inl _ \<Rightarrow> [])"

section \<open>Evaluation\<close>

lemma int_texts:
  "decimal_text (int_decimal 0) = Inr (lit ''0'')" "decimal_text (int_decimal 1) = Inr (lit ''1'')"
  "decimal_text (int_decimal 2) = Inr (lit ''2'')" "decimal_text (int_decimal 3) = Inr (lit ''3'')"
  "decimal_text (int_decimal 5) = Inr (lit ''5'')"
  by (simp_all add: decimal_text_def int_decimal_def lit_def strip_zeros.simps [of "Suc 0"] strip_zeros.simps [of "numeral n" for n]
    abs_context_def dec_le_def format_f_def digits10.simps MAX_SIGNIFICANT_DIGITS_def MIN_NORMALIZED_EXPONENT_def
    MAX_NORMALIZED_EXPONENT_def rstrip_def)

lemmas record_eval = record_json_def sample_reconciliation_def reconciliation_record_members_def req_def opt_def
  sample_policy_def delivery_policy_members_def reconciliation_acknowledgement_members_def sample_id_def sample_ulid_def
  sample_digest_def sample_time_def due_time_def enumerate_eq_zip plain_unicode_def json_eval int_texts

lemma bytes_sample: "isOk (canonical_json plain_unicode (to_value [] (record_json sample_reconciliation)))"
  by (simp add: record_eval)

lemma bytes_sent: "isOk (canonical_json plain_unicode (to_value [] (record_json sent)))"
  by (simp add: sent_def record_eval)

lemma bytes_waiting: "isOk (canonical_json plain_unicode (to_value [] (record_json waiting)))"
  by (simp add: waiting_def sent_def record_eval)

lemma bytes_resent: "isOk (canonical_json plain_unicode (to_value [] (record_json resent)))"
  by (simp add: resent_def sent_def record_eval)

lemma bytes_acked: "isOk (canonical_json plain_unicode (to_value [] (record_json acked)))"
  by (simp add: acked_def sent_def record_eval public_acknowledgement_def receipt_def sixty_four)

lemma bytes_recovered: "isOk (canonical_json plain_unicode (to_value [] (record_json (recovered sent))))"
  by (simp add: recovered_def sent_def record_eval)

lemma bytes_evidence: "isOk (canonical_json plain_unicode (to_value [] (evidence_body sample_reconciliation)))"
  by (simp add: evidence_body_def IMMUTABLE_EVIDENCE_FIELDS_def record_eval)

lemma time_texts:
  "parse_rfc3339 sample_time = Inr (1767323045, [])" "parse_rfc3339 due_time = Inr (1767323048, [])"
  "timestamp_pattern due_time" "is_rfc3339 due_time" "add_seconds sample_time 3 = Inr due_time"
  by code_simp+

lemma time_lengths: "length sample_time \<le> 128" "length due_time \<le> 128"
  by (simp_all add: sample_time_def due_time_def)

lemma due_time_ok [simp]: "RFC3339Timestamp_ok fmt due_time"
  using time_texts by (simp add: RFC3339Timestamp_ok_def due_time_def safe_text_def unsafe_char_def lit_def)

lemma time_orders:
  "timestamp_order (1767323045, []) (1767323045, []) = 0" "timestamp_order (1767323048, []) (1767323045, []) = 1"
  "timestamp_order (1767323048, []) (1767323048, []) = 0" "timestamp_order (1767323045, []) (1767323048, []) = -1"
  by code_simp+

lemma states:
  "rr_state sample_reconciliation = RS_PENDING" "rr_state sent = RS_SENDING" "rr_state waiting = RS_RETRY_WAIT"
  "rr_state resent = RS_SENDING" "rr_state acked = RS_ACKNOWLEDGED"
  by (simp_all add: sample_reconciliation_def sent_def waiting_def resent_def acked_def)

lemma run_schemas:
  "reconciliation_record_schema False sent" "reconciliation_record_schema False waiting"
  "reconciliation_record_schema False resent" "reconciliation_record_schema False acked"
  using sample_schemas(4) [of False] time_lengths
  by (simp_all add: reconciliation_record_schema_def sent_def waiting_def resent_def acked_def reconciliation_conditions_def
    sample_reconciliation_def reconciliation_acknowledgement_schema_def public_acknowledgement_def receipt_def
    class_eval target_kind_schema_def)

lemma valid_from_bytes:
  assumes "isOk (canonical_json plain_unicode (to_value [] (record_json r)))" "reconciliation_record_schema False r"
    "counters_ok r" "times_ok r" "rr_state r \<noteq> RS_ACKNOWLEDGED"
  shows "valid_record plain_unicode H r"
  using assms schema_extensions [OF assms(2)]
  by (auto simp: valid_record_parts validate_record_size_def validate_schema_def validate_structure_def isOk_iff)

lemma run_counters:
  "counters_ok sample_reconciliation" "counters_ok sent" "counters_ok waiting" "counters_ok resent" "counters_ok acked"
  by (simp_all add: counters_ok_def sample_reconciliation_def sample_policy_def sent_def waiting_def resent_def acked_def)

lemma run_times:
  "times_ok sample_reconciliation" "times_ok sent" "times_ok waiting" "times_ok resent" "times_ok acked"
  by (simp_all add: times_ok_def sample_reconciliation_def sent_def waiting_def resent_def acked_def parse_opt_def time_texts
    before_def not_after_def time_orders)

lemma run_valid:
  "valid_record plain_unicode H sample_reconciliation" "valid_record plain_unicode H sent"
  "valid_record plain_unicode H waiting" "valid_record plain_unicode H resent"
  using valid_from_bytes [OF bytes_sample sample_schemas(4)] valid_from_bytes [OF bytes_sent run_schemas(1)]
    valid_from_bytes [OF bytes_waiting run_schemas(2)] valid_from_bytes [OF bytes_resent run_schemas(3)]
    run_counters run_times states by simp_all

lemma run_evidence:
  "same_evidence sample_reconciliation sent" "same_evidence sent waiting" "same_evidence waiting resent" "same_evidence sent acked"
  by (simp_all add: same_evidence_def sent_def waiting_def resent_def acked_def)

lemma evidence_hash:
  "body_hash_unchecked plain_unicode H r = body_hash_unchecked plain_unicode H sample_reconciliation \<and>
   isOk (body_hash_unchecked plain_unicode H r)" if "r \<in> {sample_reconciliation, sent, waiting, resent, acked}"
proof -
  have "evidence_body r = evidence_body sample_reconciliation"
    using that run_evidence [THEN evidence_body_cong] by auto
  then show ?thesis using bytes_evidence
    by (auto simp: body_hash_unchecked_def canonical_hash_def isOk_iff)
qed

lemma same_evidence_step:
  assumes "c \<in> {sample_reconciliation, sent, waiting, resent, acked}" "p \<in> {sample_reconciliation, sent, waiting, resent, acked}"
  shows "require_same_evidence plain_unicode H c p = Inr ()"
proof -
  have "rr_reconciliation_id r = sample_id ''recon_''" if "r \<in> {sample_reconciliation, sent, waiting, resent, acked}" for r
    using that by (auto simp: sample_reconciliation_def sent_def waiting_def resent_def acked_def)
  then have "rr_reconciliation_id c = rr_reconciliation_id p" using assms by metis
  then show ?thesis
    unfolding same_evidence_hash using evidence_hash [OF assms(1), of H] evidence_hash [OF assms(2), of H]
    by (metis isOk_iff)
qed

lemma owner_context:
  assumes "rr_reconciliation_id r = sample_id ''recon_''"
  shows "require_owner_context r owner = Inr \<lparr>tenant_partition = lit ''tenant'', owner_subject = lit ''ada''\<rparr>"
    "get_partition r owner = Inr \<lparr>tenant_partition = lit ''tenant'', owner_subject = lit ''ada''\<rparr>"
  using assms by (simp_all add: require_owner_context_def get_partition_def owner_def)

lemma run_digest:
  assumes "valid_record plain_unicode H r"
  shows "require_digest plain_unicode H r (revision H r) = Inr ()"
proof -
  have "isOk (canonical_json plain_unicode (to_value [] (record_json r)))"
    using assms by (auto simp: valid_record_parts validate_record_size_def isOk_iff elim!: bindE_InrE)
  then have "isOk (reconciliation_state_digest plain_unicode H r)"
    using assms by (auto simp: reconciliation_state_digest_def valid_record_iff canonical_hash_def isOk_iff)
  then show ?thesis by (auto simp: require_digest_def revision_def isOk_iff)
qed

text \<open>A transition that passes each check is applied.\<close>

lemma transition_applied:
  assumes "valid_record U H c" "valid_record U H p" "require_owner_context c ctx = Inr part" "require_digest U H c d = Inr ()"
    "\<not> is_terminal (rr_state c)" "rr_state p \<noteq> RS_DISCARDED" "rr_state c \<noteq> rr_state p" "parse_rfc3339 now = Inr t"
    "require_same_evidence U H c p = Inr ()" "get_partition c ctx = Inr part" "validate_move U H c p now rc part = Inr ()"
  shows "validate_reconciliation_transition U H c p d now ctx rc = Inr Applied"
proof -
  have "c \<noteq> p" using assms(7) by blast
  then show ?thesis using assms by (simp add: validate_reconciliation_transition_def valid_record_iff)
qed

lemma run_moves:
  "validate_move U H sample_reconciliation sent sample_time rc part = Inr ()"
  "validate_move U H sent waiting sample_time rc part = Inr ()"
  "validate_move U H waiting resent due_time rc part = Inr ()"
  by (simp_all add: validate_move_def sample_reconciliation_def sample_policy_def sent_def waiting_def resent_def
    validate_send_transition_def validate_retry_transition_def not_before_def compare_timestamps_def time_texts time_orders
    the_field_def same_instant_def require_same_attempt_history_def same_attempt_history_def next_attempt_at_def
    validated_retry_policy_def retry_delay_seconds_def)

lemma run_ids:
  "rr_reconciliation_id sample_reconciliation = sample_id ''recon_''" "rr_reconciliation_id sent = sample_id ''recon_''"
  "rr_reconciliation_id waiting = sample_id ''recon_''" "rr_reconciliation_id resent = sample_id ''recon_''"
  by (simp_all add: sample_reconciliation_def sent_def waiting_def resent_def)

lemma run_transitions:
  "validate_reconciliation_transition plain_unicode H sample_reconciliation sent (revision H sample_reconciliation) sample_time owner None = Inr Applied"
  "validate_reconciliation_transition plain_unicode H sent waiting (revision H sent) sample_time owner None = Inr Applied"
  "validate_reconciliation_transition plain_unicode H waiting resent (revision H waiting) due_time owner None = Inr Applied"
  by (rule transition_applied [OF run_valid(1,2) owner_context(1) [OF run_ids(1)] run_digest [OF run_valid(1)] _ _ _ time_texts(1)
        same_evidence_step owner_context(2) [OF run_ids(1)] run_moves(1)], simp_all add: states is_terminal_def,
      rule transition_applied [OF run_valid(2,3) owner_context(1) [OF run_ids(2)] run_digest [OF run_valid(2)] _ _ _ time_texts(1)
        same_evidence_step owner_context(2) [OF run_ids(2)] run_moves(2)], simp_all add: states is_terminal_def,
      rule transition_applied [OF run_valid(3,4) owner_context(1) [OF run_ids(3)] run_digest [OF run_valid(3)] _ _ _ time_texts(2)
        same_evidence_step owner_context(2) [OF run_ids(3)] run_moves(3)], simp_all add: states is_terminal_def)

lemma run_delivery: "delivery plain_unicode H sample_reconciliation 2 resent"
proof -
  have s: "step plain_unicode H sample_reconciliation sent" "step plain_unicode H sent waiting" "step plain_unicode H waiting resent"
    using run_transitions step.transition by blast+
  have "delivery plain_unicode H sample_reconciliation (Suc 0) sent"
    using delivery.next_step [OF delivery.start s(1)] by (simp add: is_send_def states)
  from delivery.next_step [OF this s(2)] have "delivery plain_unicode H sample_reconciliation (Suc 0) waiting"
    by (simp add: is_send_def states)
  from delivery.next_step [OF this s(3)] show ?thesis by (simp add: is_send_def states eval_nat_numeral)
qed

section \<open>Witnesses\<close>

theorem deliveries_bounded_witness:
  "valid_record plain_unicode plain_digest resent \<and> rr_attempt_count resent = 2"
  using deliveries_bounded [OF run_valid(1) run_delivery, of plain_digest] by (simp add: sample_reconciliation_def)

theorem evidence_immutable_witness: "same_evidence sample_reconciliation resent"
  using evidence_immutable [OF plain_unicode_laws run_valid(1) run_delivery plain_no_collision] .

theorem no_lost_update_witness:
  "validate_reconciliation_transition plain_unicode plain_digest sample_reconciliation sent (revision plain_digest sample_reconciliation)
     sample_time owner None = Inr Applied \<and>
   \<not> isOk (validate_reconciliation_transition plain_unicode plain_digest sent waiting (revision plain_digest sample_reconciliation)
     sample_time owner None)"
  using no_lost_update [OF plain_unicode_laws run_transitions(1) plain_no_collision] run_transitions(1) by blast

theorem retry_not_early_witness:
  "\<exists>delay t1 t2. retry_delay_seconds 1 sample_policy = Inr delay \<and> parse_rfc3339 sample_time = Inr t1 \<and>
     parse_rfc3339 due_time = Inr t2 \<and> instant t1 + of_int delay \<le> instant t2"
  using retry_not_early [OF run_transitions(2) [of plain_digest] states(2,3) run_transitions(3) [of plain_digest]]
  by (simp add: sent_def sample_reconciliation_def)

theorem recovery_succeeds_witness:
  "recover_after_restart plain_unicode plain_digest sent (revision plain_digest sent) due_time owner = Inr (recovered sent)"
proof -
  have now: "not_before due_time (rr_last_attempt_at sent) ''timestamp_order_invalid'' = Inr ()" "isOk (parse_rfc3339 due_time)"
    by (simp_all add: sent_def not_before_def compare_timestamps_def time_texts time_orders)
  have size: "isOk (validate_record_size plain_unicode (recovered sent))"
    using bytes_recovered by (auto simp: validate_record_size_def isOk_iff)
  have hash: "isOk (body_hash_unchecked plain_unicode plain_digest sent)" using evidence_hash [of sent] by blast
  show ?thesis
    using recovery_succeeds [OF run_valid(2) owner_context(1) [OF run_ids(2)] run_digest [OF run_valid(2)] states(2) now(2,1) size hash]
    by blast
qed

definition first_batch :: batch_checkpoint where
  "first_batch = \<lparr>cp_batch_id = sample_id ''batch_'', expected_next_sequence = 0, completed_prefix = []\<rparr>"

lemma batch_example:
  "ordered_batch_resume plain_unicode plain_digest [sample_reconciliation] sample_time 4 owner (Some first_batch) = Inr [sample_reconciliation]"
  using run_valid(1) [of plain_digest] owner_context(1) [OF run_ids(1)]
  by (simp add: ordered_batch_resume_def first_batch_def checkpoint_valid_def time_texts valid_record_iff batch_shape_def
    states is_terminal_def) (simp add: sample_reconciliation_def)


lemma fixed_hash: "body_hash_unchecked plain_unicode fixed_digest r = Inr sample_digest"
  if "r \<in> {sample_reconciliation, sent, waiting, resent, acked}"
proof -
  obtain x where "canonical_json plain_unicode (to_value [] (evidence_body sample_reconciliation)) = Inr x"
    using bytes_evidence by (auto simp: isOk_iff)
  then have "body_hash_unchecked plain_unicode fixed_digest sample_reconciliation = Inr sample_digest"
    by (simp add: body_hash_unchecked_def canonical_hash_def fixed_digest_def sample_digest_def lit_append [symmetric])
  then show ?thesis using evidence_hash [OF that, of fixed_digest] by simp
qed

lemma acked_fields:
  "rr_acknowledgement acked = Some (public_acknowledgement receipt)" "rr_acknowledged_at acked = Some sample_time"
  "rr_reconciliation_id acked = sample_id ''recon_''" "rr_client_id sent = lit ''codex''"
  "ak_reconciliation_id (public_acknowledgement receipt) = sample_id ''recon_''"
  "ak_evidence_hash (public_acknowledgement receipt) = sample_digest"
  "ak_acknowledged_at (public_acknowledgement receipt) = sample_time"
  "sr_tenant_partition receipt = lit ''tenant''" "sr_client_id receipt = lit ''codex''"
  by (simp_all add: acked_def sent_def sample_reconciliation_def public_acknowledgement_def receipt_def)

lemma acked_valid: "valid_record plain_unicode fixed_digest acked"
proof -
  have "validate_acknowledged plain_unicode fixed_digest acked = Inr ()"
    using fixed_hash [of acked]
    by (simp add: validate_acknowledged_def the_field_def acked_fields time_texts same_instant_def time_orders)
  then show ?thesis
    using bytes_acked run_schemas(4) schema_extensions [OF run_schemas(4)] run_counters(5) run_times(5)
    by (auto simp: valid_record_parts validate_record_size_def validate_schema_def validate_structure_def isOk_iff)
qed

lemma acked_transition:
  "validate_reconciliation_transition plain_unicode fixed_digest sent acked (revision fixed_digest sent) sample_time owner (Some receipt) = Inr Applied"
proof -
  have "require_same_attempt_history sent acked = Inr ()"
    by (simp add: acked_def sent_def require_same_attempt_history_def same_attempt_history_def same_instant_def time_texts time_orders)
  then have ack: "validate_move plain_unicode fixed_digest sent acked sample_time (Some receipt) \<lparr>tenant_partition = lit ''tenant'', owner_subject = lit ''ada''\<rparr> = Inr ()"
    using fixed_hash [of sent]
    by (simp add: validate_move_def states validate_acknowledgement_transition_def the_field_def acked_fields run_ids time_texts
      same_instant_def time_orders compare_timestamps_def)
  show ?thesis
    by (rule transition_applied [OF run_valid(2) acked_valid owner_context(1) [OF run_ids(2)] run_digest [OF run_valid(2)] _ _ _ time_texts(1)
        same_evidence_step owner_context(2) [OF run_ids(2)] ack]) (simp_all add: states is_terminal_def)
qed

theorem acknowledgement_authentic_witness:
  "rr_state sent = RS_SENDING \<and> reconciliation_body_hash plain_unicode fixed_digest sent = Inr (sr_evidence_hash receipt)"
  using acknowledgement_authentic [OF acked_transition states(5)] by auto

theorem terminal_final_witness:
  "is_terminal (rr_state acked) \<and> (\<exists>n q. delivery plain_unicode fixed_digest acked n q \<and> q = acked \<and> n = 0)"
proof -
  have t: "is_terminal (rr_state acked)" by (simp add: states is_terminal_def)
  then show ?thesis using terminal_final [OF t delivery.start] delivery.start by blast
qed

end
