(* ===== verification/Approval.thy ===== *)
theory Approval
  imports Documents Digest_Binding
begin

text \<open>
  Approval records: the compare-and-swap transitions of \<open>protocol/reference/validate.py\<close>
  and the immutable view with its transition check of \<open>python/src/palonexus/approvals.py\<close>.
\<close>

section \<open>Equality of values\<close>

text \<open>
  Python's \<open>==\<close> on parsed values: dictionaries compare without order, and numbers by value, where
  \<open>True\<close> and \<open>False\<close> are the numbers 1 and 0.
\<close>

definition number_value :: "json \<Rightarrow> rat option" where
  "number_value v =
    (case v of
       JBool b \<Rightarrow> Some (if b then 1 else 0)
     | JInt i \<Rightarrow> Some (of_int i)
     | JDec d \<Rightarrow> (case d of Dec _ _ _ \<Rightarrow> Some (dec_value d) | DSpecial \<Rightarrow> None)
     | _ \<Rightarrow> None)"

fun py_eq :: "json \<Rightarrow> json \<Rightarrow> bool" where
  "py_eq (JObj xs) w \<longleftrightarrow>
    (case w of
       JObj ys \<Rightarrow>
         length xs = length ys \<and>
         (\<forall>x \<in> set xs. case map_of ys (fst x) of None \<Rightarrow> False | Some y \<Rightarrow> py_eq (snd x) y)
     | _ \<Rightarrow> False)"
| "py_eq (JArr xs) w \<longleftrightarrow> (case w of JArr ys \<Rightarrow> list_all2 py_eq xs ys | _ \<Rightarrow> False)"
| "py_eq (JStr s) w \<longleftrightarrow> w = JStr s"
| "py_eq JNull w \<longleftrightarrow> w = JNull"
| "py_eq JAbsent w \<longleftrightarrow> w = JAbsent"
| "py_eq v w \<longleftrightarrow> number_value v \<noteq> None \<and> number_value v = number_value w"

definition same_extensions :: "json option \<Rightarrow> json option \<Rightarrow> bool" where
  "same_extensions a b = rel_option py_eq a b"

section \<open>The reference state machine\<close>

definition approval_json :: "approval_record \<Rightarrow> json" where
  "approval_json r = JObj (approval_record_members r)"

definition approval_state_digest :: "unicode \<Rightarrow> (bytes \<Rightarrow> ustr) \<Rightarrow> approval_record \<Rightarrow> code + ustr" where
  "approval_state_digest U H d =
    bindE (validate_approval_document d) (\<lambda>_. canonical_hash U H (to_value [] (approval_json d)))"

definition same_creation :: "approval_record \<Rightarrow> approval_record \<Rightarrow> bool" where
  "same_creation a b \<longleftrightarrow>
    ap_schema_version a = ap_schema_version b \<and> ap_authorization_decision_id a = ap_authorization_decision_id b \<and>
    ap_action_id a = ap_action_id b \<and> ap_correlation_id a = ap_correlation_id b \<and>
    ap_authoritative_scope_hash a = ap_authoritative_scope_hash b \<and> ap_requester_ref a = ap_requester_ref b \<and>
    same_extensions (ap_extensions a) (ap_extensions b)"

definition resolve_duplicate_approval_creation :: "approval_record \<Rightarrow> approval_record \<Rightarrow> code + approval_record" where
  "resolve_duplicate_approval_creation existing proposed =
    bindE (validate_approval_document existing) (\<lambda>_.
    bindE (validate_approval_document proposed) (\<lambda>_.
    if ap_status existing \<noteq> AS_PENDING \<or> ap_status proposed \<noteq> AS_PENDING then Inl ''idempotency_conflict''
    else if \<not> same_creation existing proposed then Inl ''idempotency_conflict''
    else Inr existing))"

definition same_immutable :: "approval_record \<Rightarrow> approval_record \<Rightarrow> bool" where
  "same_immutable a b \<longleftrightarrow>
    ap_schema_version a = ap_schema_version b \<and> ap_approval_id a = ap_approval_id b \<and> ap_action_id a = ap_action_id b \<and>
    ap_correlation_id a = ap_correlation_id b \<and> ap_authoritative_scope_hash a = ap_authoritative_scope_hash b \<and>
    ap_requested_at a = ap_requested_at b \<and> ap_expires_at a = ap_expires_at b \<and> ap_requester_ref a = ap_requester_ref b \<and>
    ap_authorization_decision_id a = ap_authorization_decision_id b \<and> ap_creation_audit_ref a = ap_creation_audit_ref b \<and>
    same_extensions (ap_extensions a) (ap_extensions b)"

definition same_record :: "approval_record \<Rightarrow> approval_record \<Rightarrow> bool" where
  "same_record a b \<longleftrightarrow>
    a\<lparr>ap_extensions := None\<rparr> = b\<lparr>ap_extensions := None\<rparr> \<and> same_extensions (ap_extensions a) (ap_extensions b)"

definition same_terminal_identity :: "approval_record \<Rightarrow> approval_record \<Rightarrow> bool" where
  "same_terminal_identity a b \<longleftrightarrow>
    ap_status a = ap_status b \<and> ap_resolution_decision_id a = ap_resolution_decision_id b \<and>
    ap_resolution_reason_code a = ap_resolution_reason_code b \<and>
    ap_resolution_idempotency_key a = ap_resolution_idempotency_key b \<and> ap_reviewer_ref a = ap_reviewer_ref b"

datatype approval_result = ApprovalApplied | ApprovalIdempotent

definition validate_resolution :: "approval_record \<Rightarrow> ustr \<Rightarrow> code + approval_result" where
  "validate_resolution proposed now =
    bindE (parse_rfc3339 now) (\<lambda>trusted_now.
    bindE (case ap_decided_at proposed of None \<Rightarrow> Inl ''KeyError'' | Some t \<Rightarrow> parse_rfc3339 t) (\<lambda>decided_at.
    bindE (parse_rfc3339 (ap_expires_at proposed)) (\<lambda>expires_at.
    if timestamp_order decided_at trusted_now > 0 then Inl ''invalid_decision''
    else if ap_status proposed = AS_EXPIRED then
      (if timestamp_order trusted_now expires_at < 0 then Inl ''invalid_decision'' else Inr ApprovalApplied)
    else if timestamp_order trusted_now expires_at \<ge> 0 then Inl ''approval_expired''
    else Inr ApprovalApplied)))"

definition validate_approval_transition ::
    "unicode \<Rightarrow> (bytes \<Rightarrow> ustr) \<Rightarrow> approval_record \<Rightarrow> approval_record \<Rightarrow> ustr \<Rightarrow> ustr \<Rightarrow> code + approval_result" where
  "validate_approval_transition U H current proposed expected_state_digest now =
    bindE (validate_approval_document current) (\<lambda>_.
    bindE (validate_approval_structure_and_timestamps proposed) (\<lambda>_.
    if \<not> same_immutable current proposed then Inl ''idempotency_conflict''
    else
      bindE (approval_state_digest U H current) (\<lambda>d.
      if expected_state_digest \<noteq> d then Inl ''idempotency_conflict''
      else if ap_status current \<noteq> AS_PENDING then
        (if same_terminal_identity current proposed then Inr ApprovalIdempotent else Inl ''idempotency_conflict'')
      else
        bindE (validate_approval_document proposed) (\<lambda>_.
        if same_record current proposed then Inr ApprovalIdempotent
        else if ap_status proposed = AS_PENDING then Inl ''idempotency_conflict''
        else validate_resolution proposed now))))"

section \<open>The view of the SDK\<close>

text \<open>\<open>_parse_timestamp\<close> and \<open>_timestamp_order\<close> of the module are those of the reference; a failure is a \<open>ValueError\<close>.\<close>

definition parse_timestamp :: "ustr \<Rightarrow> code + timestamp" where
  "parse_timestamp v = mapErr (\<lambda>_. ''ValueError'') (parse_rfc3339 v)"

definition validate_record_timestamps :: "approval_record \<Rightarrow> code + unit" where
  "validate_record_timestamps value =
    bindE (parse_timestamp (ap_requested_at value)) (\<lambda>requested.
    bindE (parse_timestamp (ap_expires_at value)) (\<lambda>expires.
    if timestamp_order expires requested \<le> 0 then Inl ''ValueError''
    else if ap_status value = AS_PENDING then guardE (ap_decided_at value = None) ''ValueError''
    else case ap_decided_at value of
      None \<Rightarrow> Inl ''ValueError''
    | Some t \<Rightarrow>
        bindE (parse_timestamp t) (\<lambda>decided.
        if ap_status value = AS_EXPIRED then guardE (\<not> timestamp_order decided expires < 0) ''ValueError''
        else guardE (\<not> (timestamp_order decided requested < 0 \<or> timestamp_order decided expires \<ge> 0)) ''ValueError'')))"

record approval_view =
  av_action_id :: ustr
  av_approval_id :: ustr
  av_authorization_decision_id :: ustr
  av_authoritative_scope_hash :: ustr
  av_correlation_id :: ustr
  av_creation_audit_ref :: ustr
  av_decided_at :: "ustr option"
  av_expires_at :: ustr
  av_extensions_canonical :: bytes
  av_requested_at :: ustr
  av_requester_ref :: ustr
  av_resolution_audit_ref :: "ustr option"
  av_resolution_decision_id :: "ustr option"
  av_resolution_idempotency_key :: "ustr option"
  av_resolution_reason_code :: "ustr option"
  av_reviewer_ref :: "ustr option"
  av_status :: approval_status

definition extensions_value :: "json option \<Rightarrow> pyval" where
  "extensions_value x = (case x of None \<Rightarrow> PNone | Some j \<Rightarrow> to_value [] j)"

definition from_protocol :: "unicode \<Rightarrow> approval_record \<Rightarrow> code + approval_view" where
  "from_protocol U value =
    mapErr (\<lambda>_. ''InvalidDecision'')
      (bindE (ApprovalRecord_to_dict value) (\<lambda>_.
       bindE (validate_record_timestamps value) (\<lambda>_.
       bindE (canonical_json U (extensions_value (ap_extensions value))) (\<lambda>ext.
         Inr \<lparr>av_action_id = ap_action_id value, av_approval_id = ap_approval_id value,
              av_authorization_decision_id = ap_authorization_decision_id value,
              av_authoritative_scope_hash = ap_authoritative_scope_hash value, av_correlation_id = ap_correlation_id value,
              av_creation_audit_ref = ap_creation_audit_ref value, av_decided_at = ap_decided_at value,
              av_expires_at = ap_expires_at value, av_extensions_canonical = ext, av_requested_at = ap_requested_at value,
              av_requester_ref = ap_requester_ref value, av_resolution_audit_ref = ap_resolution_audit_ref value,
              av_resolution_decision_id = ap_resolution_decision_id value,
              av_resolution_idempotency_key = ap_resolution_idempotency_key value,
              av_resolution_reason_code = ap_resolution_reason_code value, av_reviewer_ref = ap_reviewer_ref value,
              av_status = ap_status value\<rparr>))))"

definition view_immutable :: "approval_view \<Rightarrow> approval_view \<Rightarrow> bool" where
  "view_immutable a b \<longleftrightarrow>
    av_approval_id a = av_approval_id b \<and> av_action_id a = av_action_id b \<and> av_correlation_id a = av_correlation_id b \<and>
    av_authoritative_scope_hash a = av_authoritative_scope_hash b \<and> av_requested_at a = av_requested_at b \<and>
    av_expires_at a = av_expires_at b \<and> av_requester_ref a = av_requester_ref b \<and>
    av_authorization_decision_id a = av_authorization_decision_id b \<and> av_creation_audit_ref a = av_creation_audit_ref b \<and>
    av_extensions_canonical a = av_extensions_canonical b"

definition validate_transition :: "approval_view \<Rightarrow> approval_view \<Rightarrow> code + unit" where
  "validate_transition expected current =
    (if \<not> view_immutable expected current then Inl ''ApprovalScopeMismatch''
     else if av_status expected = AS_PENDING then
       (if av_status current = AS_PENDING \<and> current \<noteq> expected then Inl ''InvalidDecision'' else Inr ())
     else if current \<noteq> expected then Inl ''InvalidDecision''
     else Inr ())"

end
