(* ===== verification/Approval_Properties.thy ===== *)
theory Approval_Properties
  imports Approval
begin

text \<open>
  What the approval transitions guarantee: a record is resolved at most once, in time, under its
  revision; the SDK accepts exactly the records the reference accepts, and a polled view never
  changes after it is terminal.
\<close>

section \<open>Inversion\<close>

lemma approval_transition_cases:
  assumes "validate_approval_transition U H c p d now = Inr res"
  shows "validate_approval_document c = Inr ()" "same_immutable c p" "approval_state_digest U H c = Inr d"
    "res = ApprovalIdempotent \<Longrightarrow> same_record c p \<or> ap_status c \<noteq> AS_PENDING \<and> same_terminal_identity c p"
    "res = ApprovalApplied \<Longrightarrow> ap_status c = AS_PENDING \<and> ap_status p \<noteq> AS_PENDING \<and>
       validate_approval_document p = Inr () \<and> validate_resolution p now = Inr ApprovalApplied"
proof -
  have r: "validate_resolution p now \<noteq> Inr ApprovalIdempotent"
    by (auto simp: validate_resolution_def elim!: bindE_InrE split: if_splits)
  obtain x d' where v: "validate_approval_document c = Inr ()" "validate_approval_structure_and_timestamps p = Inr x"
    "same_immutable c p" "approval_state_digest U H c = Inr d'" "d = d'"
    and k: "(if ap_status c \<noteq> AS_PENDING then
        (if same_terminal_identity c p then Inr ApprovalIdempotent else Inl ''idempotency_conflict'')
      else
        bindE (validate_approval_document p) (\<lambda>_.
        if same_record c p then Inr ApprovalIdempotent
        else if ap_status p = AS_PENDING then Inl ''idempotency_conflict''
        else validate_resolution p now)) = Inr res"
    using assms unfolding validate_approval_transition_def by (auto split: if_splits elim!: bindE_InrE)
  show "validate_approval_document c = Inr ()" "same_immutable c p" "approval_state_digest U H c = Inr d" using v by simp_all
  show "same_record c p \<or> ap_status c \<noteq> AS_PENDING \<and> same_terminal_identity c p" if "res = ApprovalIdempotent"
    using k that r by (auto split: if_splits elim!: bindE_InrE)
  show "ap_status c = AS_PENDING \<and> ap_status p \<noteq> AS_PENDING \<and> validate_approval_document p = Inr () \<and>
      validate_resolution p now = Inr ApprovalApplied" if "res = ApprovalApplied"
    using k that by (auto split: if_splits elim!: bindE_InrE)
qed

lemma approval_document_times:
  assumes "validate_approval_document r = Inr ()"
  obtains requested expires where "parse_rfc3339 (ap_requested_at r) = Inr requested" "parse_rfc3339 (ap_expires_at r) = Inr expires"
    "instant requested < instant expires"
    "ap_status r \<noteq> AS_PENDING \<longrightarrow> (\<exists>t decided. ap_decided_at r = Some t \<and> parse_rfc3339 t = Inr decided \<and>
       (if ap_status r = AS_EXPIRED then instant expires \<le> instant decided
        else instant requested \<le> instant decided \<and> instant decided < instant expires))"
proof -
  obtain a e x where p: "parse_rfc3339 (ap_requested_at r) = Inr a" "parse_rfc3339 (ap_expires_at r) = Inr e"
    and dec: "(if ap_status r \<noteq> AS_PENDING then (case ap_decided_at r of None \<Rightarrow> Inl ''KeyError''
        | Some t \<Rightarrow> bindE (parse_rfc3339 t) (\<lambda>x. Inr (Some x))) else Inr None) = Inr x"
    and g: "timestamp_order e a > 0"
    and k: "(case x of None \<Rightarrow> Inr () | Some t \<Rightarrow>
          if ap_status r = AS_EXPIRED then guardE (timestamp_order t e \<ge> 0) ''approval_expiry_order''
          else guardE (timestamp_order t a \<ge> 0 \<and> timestamp_order t e < 0) ''approval_expired'') = Inr ()"
    using assms unfolding validate_approval_document_def validate_approval_structure_and_timestamps_def
    by (auto elim!: bindE_InrE)
  have lt: "instant a < instant e" using g parsed_order(3) [OF p(2,1)] by simp
  show thesis
  proof (rule that [OF p lt], intro impI)
    assume s: "ap_status r \<noteq> AS_PENDING"
    then obtain t y where t: "ap_decided_at r = Some t" "parse_rfc3339 t = Inr y" "x = Some y"
      using dec by (auto split: option.splits elim!: bindE_InrE)
    note o1 = parsed_order [OF t(2) p(2)] and o2 = parsed_order [OF t(2) p(1)]
    have "if ap_status r = AS_EXPIRED then instant e \<le> instant y else instant a \<le> instant y \<and> instant y < instant e"
      using k t(3) o1(1) o2(1) by (auto split: if_splits)
    then show "\<exists>t decided. ap_decided_at r = Some t \<and> parse_rfc3339 t = Inr decided \<and>
       (if ap_status r = AS_EXPIRED then instant e \<le> instant decided
        else instant a \<le> instant decided \<and> instant decided < instant e)" using t by blast
  qed
qed

lemma resolution_times:
  assumes "validate_resolution p now = Inr ApprovalApplied"
  obtains n t decided expires where "parse_rfc3339 now = Inr n" "ap_decided_at p = Some t" "parse_rfc3339 t = Inr decided"
    "parse_rfc3339 (ap_expires_at p) = Inr expires" "instant decided \<le> instant n"
    "if ap_status p = AS_EXPIRED then instant expires \<le> instant n else instant n < instant expires"
proof -
  obtain n t y e where h: "parse_rfc3339 now = Inr n" "ap_decided_at p = Some t" "parse_rfc3339 t = Inr y"
    "parse_rfc3339 (ap_expires_at p) = Inr e"
    "\<not> timestamp_order y n > 0" "if ap_status p = AS_EXPIRED then \<not> timestamp_order n e < 0 else timestamp_order n e < 0"
    using assms unfolding validate_resolution_def
    by (auto elim!: bindE_InrE split: if_splits option.splits)
  then show thesis
    using that [OF h(1-4)] parsed_order(3) [OF h(3,1)] parsed_order(1) [OF h(1,4)] by (auto split: if_splits)
qed

section \<open>Revisions\<close>

lemma approval_keys: "ascii_keys (approval_record_members r)"
  by (auto simp: ascii_keys_def approval_record_members_def req_def opt_def split: option.splits)

lemma approval_status_lookup: "lookup (approval_record_members r) ''status'' = Some (JStr (approval_status_value (ap_status r)))"
  by (simp add: approval_record_members_def)

lemma approval_status_ascii: "ascii (approval_status_value st)"
  by (cases st) simp_all

lemma approval_digest_state:
  assumes "unicode_laws U" "approval_state_digest U H c = Inr d" "approval_state_digest U H p = Inr d"
    "no_collision U H (approval_json c) (approval_json p)"
  shows "ap_status c = ap_status p"
proof -
  have "canonical_hash U H (to_value [] (approval_json c)) = Inr d" "canonical_hash U H (to_value [] (approval_json p)) = Inr d"
    using assms(2,3) by (auto simp: approval_state_digest_def elim!: bindE_InrE)
  then have "agree U (approval_json c) (approval_json p)" by (rule hash_agree [OF assms(4)])
  then have "rel_option (agree U) (Some (JStr (approval_status_value (ap_status c)))) (Some (JStr (approval_status_value (ap_status p))))"
    using agree_lookup [OF assms(1) _ approval_keys approval_keys, of c p "''status''"]
    by (simp add: approval_json_def approval_status_lookup)
  then show ?thesis by (rule rel_enum [OF assms(1)]) (rule approval_status_ascii, rule approval_status_roundtrip)
qed

text \<open>Approval records form a compare-and-swap machine.\<close>

interpretation apr: cas_machine "\<lambda>r d. approval_state_digest U H r = Inr d" ap_status
  "\<lambda>c p d. \<exists>now. validate_approval_transition U H c p d now = Inr ApprovalApplied"
  "\<lambda>c p. unicode_laws U \<and> no_collision U H (approval_json c) (approval_json p)" for U H
proof
  fix c p d
  assume "\<exists>now. validate_approval_transition U H c p d now = Inr ApprovalApplied"
  then obtain now where t: "validate_approval_transition U H c p d now = Inr ApprovalApplied" by blast
  show "approval_state_digest U H c = Inr d" by (rule approval_transition_cases(3) [OF t])
  show "ap_status p \<noteq> ap_status c" using approval_transition_cases(5) [OF t] by simp
next
  fix c d p
  assume "approval_state_digest U H c = Inr d" "approval_state_digest U H p = Inr d"
    "unicode_laws U \<and> no_collision U H (approval_json c) (approval_json p)"
  then show "ap_status c = ap_status p" using approval_digest_state by blast
qed

section \<open>Histories\<close>

text \<open>
  \<open>history U H r n q\<close>: the store holds \<open>q\<close> after a sequence of accepted calls on \<open>r\<close>, \<open>n\<close> of them
  applied; an idempotent call leaves the stored record.
\<close>

inductive history :: "unicode \<Rightarrow> (bytes \<Rightarrow> ustr) \<Rightarrow> approval_record \<Rightarrow> nat \<Rightarrow> approval_record \<Rightarrow> bool" for U H r where
  created: "history U H r 0 r"
| resolved: "history U H r n c \<Longrightarrow> validate_approval_transition U H c p d now = Inr ApprovalApplied \<Longrightarrow> history U H r (Suc n) p"
| repeated: "history U H r n c \<Longrightarrow> validate_approval_transition U H c p d now = Inr ApprovalIdempotent \<Longrightarrow> history U H r n c"

lemma history_once:
  assumes "history U H r n q"
  shows "n = 0 \<and> q = r \<or>
    n = 1 \<and> same_immutable r q \<and> ap_status r = AS_PENDING \<and> ap_status q \<noteq> AS_PENDING \<and> validate_approval_document q = Inr ()"
  using assms
proof (induction rule: history.induct)
  case (resolved n c p d now)
  note t = approval_transition_cases(2,5) [OF resolved(2)]
  then show ?case using resolved.IH by auto
qed auto

section \<open>The two validators\<close>

lemma extension_value_small: "extension_value v \<Longrightarrow> small_numbers v"
proof (induction v rule: extension_value.induct)
  case (4 i)
  then have "nat \<bar>i\<bar> \<le> 10 ^ 308" by (simp add: extension_number_def int_decimal_def dec_le_def)
  then have "int (nat \<bar>i\<bar>) \<le> int (10 ^ 308)" by (simp only: of_nat_le_iff)
  then have "\<bar>i\<bar> \<le> 10 ^ 308" by (simp only: of_nat_power int_nat_eq abs_ge_zero if_True of_nat_numeral)
  moreover have "(10 :: int) ^ 308 \<le> EXTENSION_NUMBER_LIMIT" by (simp add: EXTENSION_NUMBER_LIMIT_def)
  ultimately have "\<bar>i\<bar> \<le> EXTENSION_NUMBER_LIMIT" by (rule order_trans)
  then show ?case by (simp only: small_numbers.simps abs_le_iff) auto
qed auto

lemma extensions_schema_small: "extensions_schema v \<Longrightarrow> small_numbers v"
  by (cases v) (auto simp: extensions_schema_def extension_value_small)

lemma approval_small:
  assumes "approval_record_schema fmt r"
  shows "validate_extension_numbers (JObj (approval_record_members r)) = Inr ()"
proof -
  have e: "\<forall>v. ap_extensions r = Some v \<longrightarrow> small_numbers v"
    using assms extensions_schema_small by (simp add: approval_record_schema_def all_opt_def split: option.splits)
  have "small_extensions (JObj (approval_record_members r))"
    using e by (auto simp: approval_record_members_def req_def opt_def split: option.splits)
  then show ?thesis using extension_numbers_iff [of "JObj (approval_record_members r)"]
    by (auto simp: isOk_iff)
qed

lemma approval_schema_mono: "approval_record_schema True r \<Longrightarrow> approval_record_schema False r"
  by (auto simp: approval_record_schema_def RFC3339Timestamp_ok_def all_opt_def split: option.splits)

lemma record_times_agree:
  assumes "approval_record_schema True r"
  shows "validate_record_timestamps r = Inr () \<longleftrightarrow> validate_approval_document r = Inr ()"
proof -
  have d: "ap_status r = AS_PENDING \<longleftrightarrow> ap_decided_at r = None"
    using assms by (auto simp: approval_record_schema_def split: if_splits)
  have s: "validate_structure (approval_record_schema False r) = Inr ()"
    using approval_schema_mono [OF assms] by (simp add: validate_structure_def)
  note defs = validate_record_timestamps_def validate_approval_document_def validate_approval_structure_and_timestamps_def
    parse_timestamp_def s approval_small [OF assms]
  show ?thesis
  proof (cases "ap_decided_at r")
    case None
    then show ?thesis using d unfolding defs
      by (cases "parse_rfc3339 (ap_requested_at r)"; cases "parse_rfc3339 (ap_expires_at r)") (auto simp: bindE_guardE)
  next
    case (Some t)
    then show ?thesis using d unfolding defs
      by (cases "parse_rfc3339 (ap_requested_at r)"; cases "parse_rfc3339 (ap_expires_at r)"; cases "parse_rfc3339 t")
        (auto simp: bindE_guardE)
  qed
qed

section \<open>A concrete resolution\<close>

definition half_way :: ustr where "half_way = lit ''2026-01-02T03:09:05Z''"

definition approved :: approval_record where
  "approved = sample_approval\<lparr>ap_status := AS_APPROVED, ap_reviewer_ref := Some (lit ''subject:grace''),
     ap_decided_at := Some half_way, ap_resolution_audit_ref := Some (sample_id ''audit_''),
     ap_resolution_decision_id := Some (sample_id ''dec_''), ap_resolution_reason_code := Some (lit ''approved''),
     ap_resolution_idempotency_key := Some (sample_id ''approval_'')\<rparr>"

lemma approval_times:
  "parse_rfc3339 sample_time = Inr (1767323045, [])" "parse_rfc3339 half_way = Inr (1767323345, [])"
  "parse_rfc3339 sample_later = Inr (1767323645, [])" "timestamp_pattern half_way" "is_rfc3339 half_way"
  by code_simp+

lemma half_way_ok [simp]: "RFC3339Timestamp_ok fmt half_way"
  using approval_times by (simp add: RFC3339Timestamp_ok_def half_way_def safe_text_def unsafe_char_def lit_def)

lemma approval_orders:
  "timestamp_order (1767323645, []) (1767323045, []) = 1" "timestamp_order (1767323345, []) (1767323645, []) = -1"
  "timestamp_order (1767323345, []) (1767323045, []) = 1" "timestamp_order (1767323345, []) (1767323345, []) = 0"
  by code_simp+

lemma approved_schema: "approval_record_schema fmt approved"
  using sample_schemas(2) [of fmt]
  by (simp add: approved_def approval_record_schema_def sample_approval_def class_eval PrincipalRef_ok_def principal_pattern_def
    headed_token_def reason_code_pattern_def word_segments_def token_char_def name_char_def text_eval)

lemma approved_documents: "validate_approval_document sample_approval = Inr ()" "validate_approval_document approved = Inr ()"
  using sample_schemas(2) [of False] approved_schema [of False] approval_small [OF sample_schemas(2)] approval_small [OF approved_schema]
  by (simp_all add: validate_approval_document_def validate_approval_structure_and_timestamps_def validate_structure_def)
    (simp_all add: sample_approval_def approved_def approval_times approval_orders)

lemmas approval_eval = approval_json_def sample_approval_def approval_record_members_def req_def opt_def sample_id_def sample_ulid_def
  sample_digest_def sample_time_def sample_later_def enumerate_eq_zip plain_unicode_def json_eval sixty_four

lemma approval_bytes: "isOk (canonical_json plain_unicode (to_value [] (approval_json sample_approval)))"
  by (simp add: approval_eval)

lemma approval_revision: "\<exists>d. approval_state_digest plain_unicode H sample_approval = Inr d"
  using approval_bytes by (auto simp: approval_state_digest_def approved_documents canonical_hash_def isOk_iff)

lemma approval_applied:
  assumes "approval_state_digest plain_unicode H sample_approval = Inr d"
  shows "validate_approval_transition plain_unicode H sample_approval approved d half_way = Inr ApprovalApplied"
proof -
  have "\<not> same_record sample_approval approved" by (simp add: same_record_def approved_def sample_approval_def)
  moreover have "same_immutable sample_approval approved"
    by (simp add: same_immutable_def same_extensions_def approved_def sample_approval_def)
  moreover have "isOk (validate_approval_structure_and_timestamps approved)"
    using approved_documents(2) by (auto simp: validate_approval_document_def isOk_iff elim!: bindE_InrE)
  moreover have "validate_resolution approved half_way = Inr ApprovalApplied"
    by (simp add: validate_resolution_def approved_def sample_approval_def approval_times approval_orders)
  ultimately show ?thesis
    using assms approved_documents
    by (auto simp: validate_approval_transition_def isOk_iff) (simp_all add: approved_def sample_approval_def)
qed

section \<open>Properties\<close>

text \<open>
  C22: An approval is resolved at most once: whatever sequence of transitions the store accepts, either the
  record is the one created, or exactly one resolution was applied, to a pending record, and the result is
  a valid terminal record with the same immutable fields.
\<close>

theorem approval_resolved_once:
  assumes "history U H r n q"
  shows "n = 0 \<and> q = r \<or>
    n = 1 \<and> same_immutable r q \<and> ap_status r = AS_PENDING \<and> ap_status q \<noteq> AS_PENDING \<and> validate_approval_document q = Inr ()"
  using history_once [OF assms] .

theorem approval_resolved_once_witness:
  "\<exists>q. history plain_unicode plain_digest sample_approval 1 q \<and> q \<noteq> sample_approval \<and> same_immutable sample_approval q"
proof -
  obtain d where d: "approval_state_digest plain_unicode plain_digest sample_approval = Inr d" using approval_revision by blast
  have "history plain_unicode plain_digest sample_approval (Suc 0) approved"
    using history.resolved [OF history.created approval_applied [OF d]] .
  then have "history plain_unicode plain_digest sample_approval 1 approved" by simp
  moreover have "approved \<noteq> sample_approval" by (simp add: approved_def sample_approval_def)
  ultimately show ?thesis using approval_resolved_once by blast
qed

text \<open>
  C26: A resolution that is applied is timely: it is not dated after the trusted clock; an expiry is recorded
  only when the clock has reached the expiry, and every other resolution is dated between the request and the
  expiry while the clock is still before the expiry.
\<close>

theorem approval_resolution_timely:
  assumes "validate_approval_transition U H c p d now = Inr ApprovalApplied"
  shows "\<exists>n t requested decided expires. parse_rfc3339 now = Inr n \<and> ap_decided_at p = Some t \<and> parse_rfc3339 t = Inr decided \<and>
    parse_rfc3339 (ap_requested_at c) = Inr requested \<and> parse_rfc3339 (ap_expires_at c) = Inr expires \<and>
    instant decided \<le> instant n \<and>
    (if ap_status p = AS_EXPIRED then instant expires \<le> instant decided
     else instant requested \<le> instant decided \<and> instant n < instant expires)"
proof -
  note t = approval_transition_cases(2,5) [OF assms]
  then have p: "validate_approval_document p = Inr ()" "ap_status p \<noteq> AS_PENDING" "validate_resolution p now = Inr ApprovalApplied" by simp_all
  have i: "ap_requested_at p = ap_requested_at c" "ap_expires_at p = ap_expires_at c" using t(1) by (simp_all add: same_immutable_def)
  show ?thesis
    by (rule approval_document_times [OF p(1)], rule resolution_times [OF p(3)]) (use p(2) i in \<open>auto split: if_splits\<close>)
qed

theorem approval_resolution_timely_witness:
  "\<exists>n t decided. parse_rfc3339 half_way = Inr n \<and> ap_decided_at approved = Some t \<and> parse_rfc3339 t = Inr decided \<and> instant decided \<le> instant n"
proof -
  obtain d where d: "approval_state_digest plain_unicode plain_digest sample_approval = Inr d" using approval_revision by blast
  show ?thesis using approval_resolution_timely [OF approval_applied [OF d]] by blast
qed

text \<open>
  C25: Two reviewers who read the same revision cannot both resolve an approval: after a resolution is applied,
  no further transition is accepted under the revision digest it was made with.
\<close>

theorem approval_single_winner:
  assumes "unicode_laws U" "validate_approval_transition U H c p d now = Inr ApprovalApplied"
    "no_collision U H (approval_json c) (approval_json p)"
  shows "\<not> isOk (validate_approval_transition U H p q d now')"
proof -
  have "approval_state_digest U H p \<noteq> Inr d" using apr.stale_revision assms by blast
  then show ?thesis using approval_transition_cases(3) by (metis isOk_iff)
qed

theorem approval_single_winner_witness:
  "\<exists>d. validate_approval_transition plain_unicode plain_digest sample_approval approved d half_way = Inr ApprovalApplied \<and>
    \<not> isOk (validate_approval_transition plain_unicode plain_digest approved approved d half_way)"
proof -
  obtain d where d: "approval_state_digest plain_unicode plain_digest sample_approval = Inr d" using approval_revision by blast
  show ?thesis
    using approval_applied [OF d] approval_single_winner [OF plain_unicode_laws approval_applied [OF d] plain_no_collision] by blast
qed

text \<open>
  C27: The SDK and the reference agree on approval records: a record that the generated class accepts passes the
  timestamp checks of the SDK exactly when the reference validator accepts it.
\<close>

theorem approval_validators_agree:
  assumes "ApprovalRecord_to_dict r = Inr j"
  shows "validate_record_timestamps r = Inr () \<longleftrightarrow> validate_approval_document r = Inr ()"
  using assms record_times_agree by (auto simp: ApprovalRecord_to_dict_def elim!: bindE_InrE split: if_splits)

theorem approval_validators_agree_witness: "validate_record_timestamps sample_approval = Inr ()"
  using approval_validators_agree [OF samples_ok(3)] approved_documents by simp

end
