(* ===== verification/Canonical_Scope.thy ===== *)
theory Canonical_Scope
  imports Digest_Binding
begin

text \<open>
  Resource and scope binding of \<open>protocol/reference/canonicalize.py\<close>: the resource hash of a
  target, the client scope of an action request and the authoritative scope with the trusted
  identity.  The functions work on parsed documents (\<open>json\<close>), as the code works on mappings.
  The lemmas show that equal scope hashes come from equal scopes.
\<close>

section \<open>Fields of a mapping\<close>

definition required_mapping :: "json option \<Rightarrow> code \<Rightarrow> code + (ustr \<times> json) list" where
  "required_mapping v code = (case v of Some (JObj kvs) \<Rightarrow> Inr kvs | _ \<Rightarrow> Inl code)"

definition required_string :: "unicode \<Rightarrow> (ustr \<times> json) list \<Rightarrow> string \<Rightarrow> code \<Rightarrow> code + ustr" where
  "required_string U kvs field code =
    (case lookup kvs field of Some (JStr s) \<Rightarrow> (if s = [] then Inl code else nfc U code s) | _ \<Rightarrow> Inl code)"

section \<open>Targets\<close>

definition resource_preimage :: "ustr \<Rightarrow> ustr \<Rightarrow> ustr \<Rightarrow> json" where
  "resource_preimage kind service resource =
    JObj (req ''preimageType'' (JStr (lit ''palonexus.resource'')) @ req ''preimageVersion'' (JStr (lit ''1'')) @
      req ''kind'' (JStr kind) @ req ''service'' (JStr service) @ req ''resource'' (JStr resource))"

definition resource_fields :: "unicode \<Rightarrow> (ustr \<times> json) list \<Rightarrow> code + ustr \<times> ustr \<times> ustr" where
  "resource_fields U v =
    bindE (required_string U v ''kind'' ''invalid_target_resource'') (\<lambda>kind.
    bindE (required_string U v ''service'' ''invalid_target_resource'') (\<lambda>service.
    bindE (required_string U v ''resource'' ''invalid_target_resource'') (\<lambda>resource.
      Inr (kind, service, resource))))"

definition resource_hash_input :: "unicode \<Rightarrow> json \<Rightarrow> code + json" where
  "resource_hash_input U target =
    bindE (required_mapping (Some target) ''invalid_target_resource'') (\<lambda>v.
    bindE (resource_fields U v) (\<lambda>(kind, service, resource). Inr (resource_preimage kind service resource)))"

definition computed_resource_hash :: "unicode \<Rightarrow> (bytes \<Rightarrow> ustr) \<Rightarrow> json \<Rightarrow> code + ustr" where
  "computed_resource_hash U H target =
    bindE (resource_hash_input U target) (\<lambda>v. canonical_hash U H (to_value [] v))"

definition target_members :: "ustr \<Rightarrow> ustr \<Rightarrow> ustr \<Rightarrow> ustr \<Rightarrow> (ustr \<times> json) list" where
  "target_members kind service resource h =
    req ''kind'' (JStr kind) @ req ''service'' (JStr service) @ req ''resource'' (JStr resource) @ req ''resourceHash'' (JStr h)"

record 'x prepared_resource =
  pr_resource :: ustr
  pr_execution :: 'x

definition build_target :: "unicode \<Rightarrow> (bytes \<Rightarrow> ustr) \<Rightarrow> ustr \<Rightarrow> ustr \<Rightarrow> 'x prepared_resource \<Rightarrow> code + json" where
  "build_target U H kind service prepared =
    bindE (nfc U ''invalid_target_resource'' kind) (\<lambda>k.
    bindE (nfc U ''invalid_target_resource'' service) (\<lambda>s.
    bindE (nfc U ''invalid_target_resource'' (pr_resource prepared)) (\<lambda>r.
    bindE (computed_resource_hash U H
        (JObj (req ''kind'' (JStr k) @ req ''service'' (JStr s) @ req ''resource'' (JStr r)))) (\<lambda>h.
      Inr (JObj (target_members k s r h))))))"

definition validated_target :: "unicode \<Rightarrow> (bytes \<Rightarrow> ustr) \<Rightarrow> json \<Rightarrow> code + json" where
  "validated_target U H target =
    bindE (required_mapping (Some target) ''invalid_target_resource'') (\<lambda>v.
    bindE (resource_fields U v) (\<lambda>(kind, service, resource).
    bindE (canonical_hash U H (to_value [] (resource_preimage kind service resource))) (\<lambda>expected.
      if lookup v ''resourceHash'' \<noteq> Some (JStr expected) then Inl ''resource_hash_mismatch''
      else Inr (JObj (target_members kind service resource expected)))))"

section \<open>Scopes\<close>

definition client_scope_json :: "ustr \<Rightarrow> ustr \<Rightarrow> ustr \<Rightarrow> ustr \<Rightarrow> ustr \<Rightarrow> ustr \<Rightarrow> ustr \<Rightarrow> ustr \<Rightarrow> ustr \<Rightarrow> json" where
  "client_scope_json adapter_id version task_id session_id action kind service h side_effect =
    JObj (req ''scopeType'' (JStr (lit ''client'')) @ req ''scopeVersion'' (JStr (lit ''1'')) @
      req ''adapter'' (JObj (req ''id'' (JStr adapter_id) @ req ''version'' (JStr version))) @
      req ''task'' (JObj (req ''taskId'' (JStr task_id) @ req ''sessionId'' (JStr session_id))) @
      req ''action'' (JStr action) @
      req ''target'' (JObj (req ''kind'' (JStr kind) @ req ''service'' (JStr service) @ req ''resourceHash'' (JStr h))) @
      req ''sideEffect'' (JStr side_effect))"

definition client_scope_input :: "unicode \<Rightarrow> (bytes \<Rightarrow> ustr) \<Rightarrow> json \<Rightarrow> code + json" where
  "client_scope_input U H action_request =
    bindE (required_mapping (Some action_request) ''invalid_client_scope'') (\<lambda>action.
    bindE (required_mapping (lookup action ''adapter'') ''invalid_client_scope'') (\<lambda>adapter.
    bindE (required_mapping (lookup action ''task'') ''invalid_client_scope'') (\<lambda>task.
    bindE (required_mapping (lookup action ''target'') ''invalid_client_scope'') (\<lambda>t.
    bindE (validated_target U H (JObj t)) (\<lambda>validated.
    bindE (required_mapping (Some validated) ''invalid_client_scope'') (\<lambda>target.
    bindE (required_string U adapter ''id'' ''invalid_client_scope'') (\<lambda>adapter_id.
    bindE (required_string U adapter ''version'' ''invalid_client_scope'') (\<lambda>version.
    bindE (required_string U task ''taskId'' ''invalid_client_scope'') (\<lambda>task_id.
    bindE (required_string U task ''sessionId'' ''invalid_client_scope'') (\<lambda>session_id.
    bindE (required_string U action ''action'' ''invalid_client_scope'') (\<lambda>act.
    bindE (required_string U target ''kind'' ''invalid_client_scope'') (\<lambda>kind.
    bindE (required_string U target ''service'' ''invalid_client_scope'') (\<lambda>service.
    bindE (required_string U target ''resourceHash'' ''invalid_client_scope'') (\<lambda>h.
    bindE (required_string U action ''sideEffect'' ''invalid_client_scope'') (\<lambda>side_effect.
      Inr (client_scope_json adapter_id version task_id session_id act kind service h side_effect))))))))))))))))"

definition trusted_fields :: "ustr list" where
  "trusted_fields = map lit [''tenantId'', ''actorId'', ''agentId'', ''delegationId'', ''clientId'']"

definition trusted_json :: "ustr \<Rightarrow> ustr \<Rightarrow> ustr \<Rightarrow> ustr option \<Rightarrow> ustr option \<Rightarrow> json" where
  "trusted_json tenant actor client agent delegation =
    JObj (req ''tenantId'' (JStr tenant) @ req ''actorId'' (JStr actor) @ req ''clientId'' (JStr client) @
      opt ''agentId'' JStr agent @ opt ''delegationId'' JStr delegation)"

definition present_string :: "unicode \<Rightarrow> (ustr \<times> json) list \<Rightarrow> string \<Rightarrow> code \<Rightarrow> code + ustr option" where
  "present_string U kvs field code =
    (if lookup kvs field = None then Inr None
     else bindE (required_string U kvs field code) (\<lambda>s. Inr (Some s)))"

definition trusted_scope :: "unicode \<Rightarrow> json \<Rightarrow> code + json" where
  "trusted_scope U trusted_context =
    bindE (required_mapping (Some trusted_context) ''invalid_authoritative_scope'') (\<lambda>trusted.
    bindE (guardE (set (map fst trusted) \<subseteq> set trusted_fields) ''invalid_authoritative_scope'') (\<lambda>_.
    bindE (required_string U trusted ''tenantId'' ''invalid_authoritative_scope'') (\<lambda>tenant.
    bindE (required_string U trusted ''actorId'' ''invalid_authoritative_scope'') (\<lambda>actor.
    bindE (required_string U trusted ''clientId'' ''invalid_authoritative_scope'') (\<lambda>client.
    bindE (present_string U trusted ''agentId'' ''invalid_authoritative_scope'') (\<lambda>agent.
    bindE (present_string U trusted ''delegationId'' ''invalid_authoritative_scope'') (\<lambda>delegation.
      Inr (trusted_json tenant actor client agent delegation))))))))"

definition authoritative_scope_input :: "unicode \<Rightarrow> (bytes \<Rightarrow> ustr) \<Rightarrow> json \<Rightarrow> json \<Rightarrow> code + json" where
  "authoritative_scope_input U H action_request trusted_context =
    bindE (client_scope_input U H action_request) (\<lambda>client.
    bindE (trusted_scope U trusted_context) (\<lambda>trusted.
      Inr (JObj (req ''scopeType'' (JStr (lit ''authoritative'')) @ req ''scopeVersion'' (JStr (lit ''1'')) @
        req ''clientScope'' client @ req ''trusted'' trusted))))"

definition client_scope_hash :: "unicode \<Rightarrow> (bytes \<Rightarrow> ustr) \<Rightarrow> json \<Rightarrow> code + ustr" where
  "client_scope_hash U H action_request =
    bindE (client_scope_input U H action_request) (\<lambda>v. canonical_hash U H (to_value [] v))"

definition authoritative_scope_hash :: "unicode \<Rightarrow> (bytes \<Rightarrow> ustr) \<Rightarrow> json \<Rightarrow> json \<Rightarrow> code + ustr" where
  "authoritative_scope_hash U H action_request trusted_context =
    bindE (authoritative_scope_input U H action_request trusted_context) (\<lambda>v. canonical_hash U H (to_value [] v))"

section \<open>Documents of normalised strings\<close>

fun tidy :: "unicode \<Rightarrow> json \<Rightarrow> bool" where
  "tidy U (JStr s) \<longleftrightarrow> nfc U ''invalid_string'' s = Inr s"
| "tidy U (JObj kvs) \<longleftrightarrow> distinct (map fst kvs) \<and> (\<forall>kv \<in> set kvs. ascii (fst kv) \<and> tidy U (snd kv))"
| "tidy U _ \<longleftrightarrow> False"

fun same_keys :: "json \<Rightarrow> json \<Rightarrow> bool" where
  "same_keys (JObj xs) w \<longleftrightarrow>
    (case w of JObj ys \<Rightarrow> map fst xs = map fst ys \<and> list_all2 (\<lambda>x y. same_keys (snd x) (snd y)) xs ys | _ \<Rightarrow> False)"
| "same_keys (JStr s) w \<longleftrightarrow> (case w of JStr _ \<Rightarrow> True | _ \<Rightarrow> False)"
| "same_keys _ _ \<longleftrightarrow> False"

lemma nfc_fixed: "unicode_laws U \<Longrightarrow> nfc U c x = Inr s \<Longrightarrow> nfc U c' s = Inr s"
  by (auto simp: nfc_def unicode_laws_def Let_def split: if_splits)

lemma ascii_is_lit: "ascii s \<Longrightarrow> \<exists>k. s = lit k"
proof -
  assume "ascii s"
  then have "lit (map char_of s) = s" by (induction s) (auto simp: lit_def ascii_def)
  then show ?thesis by metis
qed

lemma agree_tidy_str:
  assumes "agree U (JStr s) (JStr t)" "tidy U (JStr s)" "tidy U (JStr t)"
  shows "s = t"
  using assms by (auto simp: agree_def pmean_def meaning_def split: sum.splits elim!: bindE_InrE)

lemma tidy_keys: "tidy U (JObj kvs) \<Longrightarrow> ascii_keys kvs" "tidy U (JObj kvs) \<Longrightarrow> lookup kvs k \<noteq> Some JAbsent"
  using lookup_in [of kvs k JAbsent] by (force simp: ascii_keys_def)+

lemma agree_tidy:
  assumes "unicode_laws U" "agree U a b" "tidy U a" "tidy U b" "same_keys a b"
  shows "a = b"
  using assms(2-5)
proof (induction a arbitrary: b rule: json.induct)
  case (JStr s)
  then show ?case using agree_tidy_str by (auto split: json.splits)
next
  case (JObj xs)
  then obtain ys where b: "b = JObj ys" "map fst xs = map fst ys" "list_all2 (\<lambda>x y. same_keys (snd x) (snd y)) xs ys"
    by (auto split: json.splits)
  note t = JObj.prems(2) and u = JObj.prems(3) [unfolded b(1)] and ag = JObj.prems(1) [unfolded b(1)]
  have len: "length xs = length ys" using b(3) by (rule list_all2_lengthD)
  have "xs ! i = ys ! i" if i: "i < length xs" for i
  proof -
    have f: "fst (xs ! i) = fst (ys ! i)" using b(2) i len by (metis nth_map)
    have "ascii (fst (xs ! i))" using t i by simp
    then obtain k where k: "fst (xs ! i) = lit k" using ascii_is_lit by blast
    have m: "(lit k, snd (xs ! i)) \<in> set xs" "(lit k, snd (ys ! i)) \<in> set ys"
      using i len f k by (metis nth_mem prod.collapse)+
    then have "lookup xs k = Some (snd (xs ! i))" "lookup ys k = Some (snd (ys ! i))"
      using t u lookup_unique by simp_all
    then have "agree U (snd (xs ! i)) (snd (ys ! i))"
      using agree_lookup [OF assms(1) ag tidy_keys(1) [OF t] tidy_keys(1) [OF u] tidy_keys(2) [OF t] tidy_keys(2) [OF u], of k] by simp
    moreover have "same_keys (snd (xs ! i)) (snd (ys ! i))" using b(3) i by (simp add: list_all2_conv_all_nth)
    moreover have "tidy U (snd (xs ! i))" "tidy U (snd (ys ! i))" using t u i len by simp_all
    ultimately have "snd (xs ! i) = snd (ys ! i)"
      using JObj.IH [of "xs ! i" "snd (xs ! i)" "snd (ys ! i)"] i by (metis nth_mem snds.intros)
    then show ?thesis using f by (simp add: prod_eq_iff)
  qed
  then show ?case using len b(1) by (simp add: list_eq_iff_nth_eq)
qed auto

section \<open>Shape of the inputs\<close>

lemma required_string_nfc:
  "required_string U kvs f c = Inr s \<Longrightarrow> \<exists>x. lookup kvs f = Some (JStr x) \<and> x \<noteq> [] \<and> nfc U c x = Inr s"
  by (auto simp: required_string_def split: option.splits json.splits if_splits)

lemma required_string_tidy:
  assumes "unicode_laws U" "required_string U kvs f c = Inr s"
  shows "tidy U (JStr s)"
proof -
  obtain x where "nfc U c x = Inr s" using required_string_nfc [OF assms(2)] by blast
  then show ?thesis unfolding tidy.simps by (rule nfc_fixed [OF assms(1)])
qed

lemma present_string_tidy: "unicode_laws U \<Longrightarrow> present_string U kvs f c = Inr x \<Longrightarrow> all_opt (\<lambda>s. tidy U (JStr s)) x"
proof (cases "lookup kvs f = None")
  case False
  assume a: "unicode_laws U" "present_string U kvs f c = Inr x"
  then obtain s where s: "required_string U kvs f c = Inr s" "x = Some s"
    using False by (auto simp: present_string_def elim!: bindE_InrE)
  show ?thesis using required_string_tidy [OF a(1) s(1)] s(2) by simp
qed (simp add: present_string_def)

lemma lit_normal: "unicode_laws U \<Longrightarrow> ascii s \<Longrightarrow> length s \<le> 8192 \<Longrightarrow> nfc U c s = Inr s"
proof -
  assume a: "unicode_laws U" "ascii s" "length s \<le> 8192"
  have "scalars s" "utf8_len s = length s"
    using a(2) by (induction s) (auto simp: ascii_def scalars_def is_surrogate_def utf8_len_def utf8_char_def)
  moreover have "\<not> list_ex (unassigned U) s" using a(1,2) by (auto simp: unicode_laws_def ascii_def list_ex_iff list_all_iff)
  ultimately show ?thesis using a by (simp add: nfc_def unicode_laws_def MAX_STRING_BYTES_def)
qed

definition client_scope_shape :: "unicode \<Rightarrow> json \<Rightarrow> bool" where
  "client_scope_shape U v \<longleftrightarrow>
    (\<exists>a b c d e f g h i. v = client_scope_json a b c d e f g h i \<and> (\<forall>s \<in> {a, b, c, d, e, f, g, h, i}. tidy U (JStr s)))"

lemma client_scope_input_shape:
  assumes "unicode_laws U" "client_scope_input U H a = Inr v"
  shows "client_scope_shape U v"
proof -
  obtain ka kt kp kv a b c d e f g h i where r: "required_string U ka ''id'' ''invalid_client_scope'' = Inr a"
    "required_string U ka ''version'' ''invalid_client_scope'' = Inr b" "required_string U kt ''taskId'' ''invalid_client_scope'' = Inr c"
    "required_string U kt ''sessionId'' ''invalid_client_scope'' = Inr d" "required_string U kp ''action'' ''invalid_client_scope'' = Inr e"
    "required_string U kv ''kind'' ''invalid_client_scope'' = Inr f" "required_string U kv ''service'' ''invalid_client_scope'' = Inr g"
    "required_string U kv ''resourceHash'' ''invalid_client_scope'' = Inr h" "required_string U kp ''sideEffect'' ''invalid_client_scope'' = Inr i"
    and v: "v = client_scope_json a b c d e f g h i"
    using assms(2) unfolding client_scope_input_def bindE_Inr_iff by blast
  have "\<forall>s \<in> {a, b, c, d, e, f, g, h, i}. tidy U (JStr s)"
    using r [THEN required_string_tidy [OF assms(1)]] by blast
  then show ?thesis unfolding client_scope_shape_def using v by blast
qed

lemma tidy_lits: "unicode_laws U \<Longrightarrow> tidy U (JStr (lit ''client'')) \<and> tidy U (JStr (lit ''authoritative'')) \<and> tidy U (JStr (lit ''1'')) \<and>
    tidy U (JStr (lit ''palonexus.resource''))"
  by (simp add: lit_normal lit_def ascii_def)

lemma client_scope_tidy:
  assumes "unicode_laws U" "client_scope_shape U v"
  shows "tidy U v"
  using assms(2) tidy_lits [OF assms(1)] by (auto simp: client_scope_shape_def client_scope_json_def req_def)

lemma client_scope_keys: "client_scope_shape U v \<Longrightarrow> client_scope_shape U w \<Longrightarrow> same_keys v w"
  by (auto simp: client_scope_shape_def client_scope_json_def req_def)

lemma trusted_scope_shape:
  assumes "unicode_laws U" "trusted_scope U t = Inr v"
  obtains a b c d e where "v = trusted_json a b c d e" "tidy U v"
proof -
  obtain a b c d e where v: "v = trusted_json a b c d e" and t: "tidy U (JStr a)" "tidy U (JStr b)" "tidy U (JStr c)"
    "all_opt (\<lambda>s. tidy U (JStr s)) d" "all_opt (\<lambda>s. tidy U (JStr s)) e"
    using assms(2) required_string_tidy [OF assms(1)] present_string_tidy [OF assms(1)]
    unfolding trusted_scope_def bindE_Inr_iff by blast
  have "tidy U v" using t unfolding v trusted_json_def req_def opt_def by (auto split: option.splits)
  then show thesis using that v by blast
qed

lemma trusted_json_keys:
  assumes "unicode_laws U" "agree U (trusted_json a b c d e) (trusted_json a' b' c' d' e')"
    "tidy U (trusted_json a b c d e)" "tidy U (trusted_json a' b' c' d' e')"
  shows "same_keys (trusted_json a b c d e) (trusted_json a' b' c' d' e')"
proof -
  note l = agree_lookup [OF assms(1) assms(2) [unfolded trusted_json_def] tidy_keys(1) [OF assms(3) [unfolded trusted_json_def]]
    tidy_keys(1) [OF assms(4) [unfolded trusted_json_def]] tidy_keys(2) [OF assms(3) [unfolded trusted_json_def]]
    tidy_keys(2) [OF assms(4) [unfolded trusted_json_def]]]
  have "rel_option (agree U) (map_option JStr d) (map_option JStr d')" "rel_option (agree U) (map_option JStr e) (map_option JStr e')"
    using l [of "''agentId''"] l [of "''delegationId''"] by simp_all
  then show ?thesis
    by (cases d; cases d'; cases e; cases e') (auto simp: trusted_json_def req_def opt_def)
qed

lemma client_binding:
  assumes "unicode_laws U" "client_scope_input U H a = Inr v" "client_scope_input U H b = Inr w" "agree U v w"
  shows "v = w"
  using agree_tidy [OF assms(1,4)] client_scope_tidy [OF assms(1)] client_scope_keys
    client_scope_input_shape [OF assms(1,2)] client_scope_input_shape [OF assms(1,3)] by blast

lemma trusted_binding:
  assumes "unicode_laws U" "trusted_scope U a = Inr v" "trusted_scope U b = Inr w" "agree U v w"
  shows "v = w"
proof -
  obtain x1 x2 x3 x4 x5 where v: "v = trusted_json x1 x2 x3 x4 x5" "tidy U v" by (rule trusted_scope_shape [OF assms(1,2)])
  obtain y1 y2 y3 y4 y5 where w: "w = trusted_json y1 y2 y3 y4 y5" "tidy U w" by (rule trusted_scope_shape [OF assms(1,3)])
  have "same_keys v w" using trusted_json_keys [OF assms(1)] assms(4) v w by simp
  then show ?thesis using agree_tidy [OF assms(1,4) v(2) w(2)] by blast
qed

definition authoritative_json :: "json \<Rightarrow> json \<Rightarrow> (ustr \<times> json) list" where
  "authoritative_json c t =
    req ''scopeType'' (JStr (lit ''authoritative'')) @ req ''scopeVersion'' (JStr (lit ''1'')) @ req ''clientScope'' c @ req ''trusted'' t"

lemma authoritative_input_parts:
  assumes "authoritative_scope_input U H a t = Inr v"
  obtains c s where "client_scope_input U H a = Inr c" "trusted_scope U t = Inr s" "v = JObj (authoritative_json c s)"
  using assms by (auto simp: authoritative_scope_input_def authoritative_json_def elim!: bindE_InrE)

lemma authoritative_tidy:
  assumes "unicode_laws U" "client_scope_input U H a = Inr c" "trusted_scope U t = Inr s"
  shows "tidy U (JObj (authoritative_json c s))"
proof -
  have "tidy U c" using client_scope_tidy [OF assms(1) client_scope_input_shape [OF assms(1,2)]] .
  moreover have "tidy U s" by (rule trusted_scope_shape [OF assms(1,3)])
  ultimately show ?thesis using tidy_lits [OF assms(1)] by (simp add: authoritative_json_def req_def)
qed

lemma authoritative_binding:
  assumes "unicode_laws U" "authoritative_scope_input U H a t = Inr v" "authoritative_scope_input U H b u = Inr w" "agree U v w"
  shows "client_scope_input U H a = client_scope_input U H b \<and> trusted_scope U t = trusted_scope U u"
proof -
  obtain c s where v: "client_scope_input U H a = Inr c" "trusted_scope U t = Inr s" "v = JObj (authoritative_json c s)"
    by (rule authoritative_input_parts [OF assms(2)])
  obtain d r where w: "client_scope_input U H b = Inr d" "trusted_scope U u = Inr r" "w = JObj (authoritative_json d r)"
    by (rule authoritative_input_parts [OF assms(3)])
  have tv: "tidy U v" "tidy U w" using authoritative_tidy [OF assms(1)] v w by blast+
  note l = agree_lookup [OF assms(1) assms(4) [unfolded v(3) w(3)] tidy_keys(1) [OF tv(1) [unfolded v(3)]] tidy_keys(1) [OF tv(2) [unfolded w(3)]]
    tidy_keys(2) [OF tv(1) [unfolded v(3)]] tidy_keys(2) [OF tv(2) [unfolded w(3)]]]
  have "agree U c d" "agree U s r" using l [of "''clientScope''"] l [of "''trusted''"] by (simp_all add: authoritative_json_def)
  then have "c = d" "s = r" using client_binding [OF assms(1) v(1) w(1)] trusted_binding [OF assms(1) v(2) w(2)] by blast+
  then show ?thesis using v w by simp
qed

lemma scope_hash_binding:
  assumes "unicode_laws U" "authoritative_scope_hash U H a t = Inr h" "authoritative_scope_hash U H b u = Inr h"
    "\<forall>v w. authoritative_scope_input U H a t = Inr v \<longrightarrow> authoritative_scope_input U H b u = Inr w \<longrightarrow> no_collision U H v w"
  shows "client_scope_input U H a = client_scope_input U H b \<and> trusted_scope U t = trusted_scope U u"
proof -
  obtain v w where v: "authoritative_scope_input U H a t = Inr v" "canonical_hash U H (to_value [] v) = Inr h"
    and w: "authoritative_scope_input U H b u = Inr w" "canonical_hash U H (to_value [] w) = Inr h"
    using assms(2,3) unfolding authoritative_scope_hash_def bindE_Inr_iff by blast
  have "no_collision U H v w" using assms(4) v(1) w(1) by blast
  then have "agree U v w" using v(2) w(2) by (rule hash_agree)
  then show ?thesis by (rule authoritative_binding [OF assms(1) v(1) w(1)])
qed

lemma resource_fields_tidy:
  "unicode_laws U \<Longrightarrow> resource_fields U v = Inr (k, s, r) \<Longrightarrow> tidy U (JStr k) \<and> tidy U (JStr s) \<and> tidy U (JStr r)"
  unfolding resource_fields_def bindE_Inr_iff using required_string_tidy by blast

lemma resource_preimage_tidy:
  assumes "unicode_laws U" "tidy U (JStr k)" "tidy U (JStr s)" "tidy U (JStr r)"
  shows "tidy U (resource_preimage k s r)"
  using assms(2-4) tidy_lits [OF assms(1)] by (simp del: tidy.simps(1) add: resource_preimage_def req_def)

lemma resource_preimage_inj:
  assumes "unicode_laws U" "agree U (resource_preimage k s r) (resource_preimage k' s' r')"
    "tidy U (JStr k) \<and> tidy U (JStr s) \<and> tidy U (JStr r)" "tidy U (JStr k') \<and> tidy U (JStr s') \<and> tidy U (JStr r')"
  shows "k = k' \<and> s = s' \<and> r = r'"
proof -
  have keys: "same_keys (resource_preimage k s r) (resource_preimage k' s' r')"
    unfolding resource_preimage_def req_def by simp
  have "resource_preimage k s r = resource_preimage k' s' r'"
    by (rule agree_tidy [OF assms(1,2) _ _ keys]) (rule resource_preimage_tidy [OF assms(1)]; simp only: assms(3,4))+
  then show ?thesis unfolding resource_preimage_def req_def by simp
qed

lemma validated_target_parts:
  assumes "validated_target U H (JObj t) = Inr v"
  obtains k s r h where "resource_fields U t = Inr (k, s, r)" "canonical_hash U H (to_value [] (resource_preimage k s r)) = Inr h"
    "lookup t ''resourceHash'' = Some (JStr h)" "v = JObj (target_members k s r h)"
  using assms by (auto simp: validated_target_def required_mapping_def elim!: bindE_InrE split: if_splits)

lemma required_string_fixed:
  "unicode_laws U \<Longrightarrow> nfc U c x = Inr s \<Longrightarrow> lookup kvs f = Some (JStr s) \<Longrightarrow> s \<noteq> [] \<Longrightarrow> required_string U kvs f d = Inr s"
  by (simp add: required_string_def nfc_fixed)

lemma build_validated:
  assumes "unicode_laws U" "build_target U H kind service p = Inr t"
  shows "validated_target U H t = Inr t"
proof -
  obtain k s r h where n: "nfc U ''invalid_target_resource'' kind = Inr k" "nfc U ''invalid_target_resource'' service = Inr s"
      "nfc U ''invalid_target_resource'' (pr_resource p) = Inr r"
    and h: "computed_resource_hash U H (JObj (req ''kind'' (JStr k) @ req ''service'' (JStr s) @ req ''resource'' (JStr r))) = Inr h"
    and t: "t = JObj (target_members k s r h)"
    using assms(2) unfolding build_target_def bindE_Inr_iff by blast
  then have ne: "k \<noteq> [] \<and> s \<noteq> [] \<and> r \<noteq> []"
    by (auto simp: computed_resource_hash_def resource_hash_input_def required_mapping_def resource_fields_def required_string_def
      elim!: bindE_InrE split: if_splits)
  let ?t = "target_members k s r h" and ?u = "req ''kind'' (JStr k) @ req ''service'' (JStr s) @ req ''resource'' (JStr r)"
  have l: "lookup ?t ''kind'' = Some (JStr k)" "lookup ?t ''service'' = Some (JStr s)" "lookup ?t ''resource'' = Some (JStr r)"
    "lookup ?t ''resourceHash'' = Some (JStr h)" "lookup ?u ''kind'' = Some (JStr k)" "lookup ?u ''service'' = Some (JStr s)"
    "lookup ?u ''resource'' = Some (JStr r)"
    by (simp_all add: target_members_def)
  have f: "resource_fields U ?t = Inr (k, s, r)" "resource_fields U ?u = Inr (k, s, r)"
    unfolding resource_fields_def
    using ne required_string_fixed [OF assms(1) n(1)] required_string_fixed [OF assms(1) n(2)] required_string_fixed [OF assms(1) n(3)] l
    by simp_all
  show ?thesis
    using h f l(4) unfolding t by (simp add: validated_target_def computed_resource_hash_def resource_hash_input_def required_mapping_def)
qed

section \<open>A concrete action\<close>

definition sample_resource :: "ustr prepared_resource" where
  "sample_resource = \<lparr>pr_resource = lit ''path:/w/a'', pr_execution = lit ''/w/a''\<rparr>"

definition sample_target :: json where
  "sample_target =
    (case build_target plain_unicode plain_digest (lit ''local-action'') (lit ''workspace'') sample_resource of Inr t \<Rightarrow> t | Inl _ \<Rightarrow> JNull)"

definition scope_action :: "ustr \<Rightarrow> json" where
  "scope_action occurred =
    JObj (req ''adapter'' (JObj (req ''id'' (JStr (lit ''codex'')) @ req ''version'' (JStr (lit ''1.0'')))) @
      req ''task'' (JObj (req ''taskId'' (JStr (lit ''task_1'')) @ req ''sessionId'' (JStr (lit ''session_1'')))) @
      req ''action'' (JStr (lit ''file:write'')) @ req ''target'' (JObj (target_members (lit ''local-action'') (lit ''workspace'') (lit ''path:/w/a'') sample_digest)) @
      req ''sideEffect'' (JStr (lit ''write'')) @
      req ''occurredAt'' (JStr occurred))"

definition scope_identity :: json where
  "scope_identity = trusted_json (lit ''tenant'') (lit ''ada'') (lit ''codex'') (Some (lit ''agent'')) None"

lemmas scope_eval = enumerate_eq_zip plain_unicode_def json_eval plain_digest_def req_def opt_def

lemma sample_target_ok:
  "build_target plain_unicode plain_digest (lit ''local-action'') (lit ''workspace'') sample_resource = Inr sample_target"
proof -
  have "isOk (build_target plain_unicode plain_digest (lit ''local-action'') (lit ''workspace'') sample_resource)"
    by (simp add: build_target_def computed_resource_hash_def resource_hash_input_def resource_fields_def required_mapping_def
      required_string_def resource_preimage_def sample_resource_def canonical_hash_def scope_eval)
  then show ?thesis by (auto simp: sample_target_def isOk_iff)
qed

lemma build_target_members: "build_target U H kind service p = Inr t \<Longrightarrow> \<exists>k s r h. t = JObj (target_members k s r h)"
  unfolding build_target_def bindE_Inr_iff by blast

lemma annotated_target:
  assumes "validated_target U H (JObj (target_members k s r h)) = Inr v"
  shows "validated_target U H (JObj (target_members k s r h @ req ''note'' JNull)) = Inr v"
  using assms by (simp add: validated_target_def required_mapping_def resource_fields_def required_string_def target_members_def)

definition scope_target :: "(ustr \<times> json) list" where
  "scope_target = target_members (lit ''local-action'') (lit ''workspace'') (lit ''path:/w/a'') sample_digest"

definition scope_client :: json where
  "scope_client = client_scope_json (lit ''codex'') (lit ''1.0'') (lit ''task_1'') (lit ''session_1'') (lit ''file:write'')
    (lit ''local-action'') (lit ''workspace'') sample_digest (lit ''write'')"

lemma fixed_hash_ok: "isOk (canonical_json U v) \<Longrightarrow> canonical_hash U fixed_digest v = Inr sample_digest"
  by (auto simp: isOk_iff canonical_hash_def fixed_digest_def sample_digest_def lit_append [symmetric])

lemma scope_target_ok: "validated_target plain_unicode fixed_digest (JObj scope_target) = Inr (JObj scope_target)"
proof -
  have "isOk (canonical_json plain_unicode (to_value [] (resource_preimage (lit ''local-action'') (lit ''workspace'') (lit ''path:/w/a''))))"
    by (simp add: resource_preimage_def scope_eval)
  then have "canonical_hash plain_unicode fixed_digest (to_value [] (resource_preimage (lit ''local-action'') (lit ''workspace'') (lit ''path:/w/a''))) = Inr sample_digest"
    by (rule fixed_hash_ok)
  moreover have "resource_fields plain_unicode scope_target = Inr (lit ''local-action'', lit ''workspace'', lit ''path:/w/a'')"
    by (simp add: resource_fields_def required_string_def scope_target_def target_members_def) (simp add: scope_eval)
  ultimately show ?thesis
    by (simp add: validated_target_def required_mapping_def) (simp add: scope_target_def target_members_def)
qed

lemma scope_client_ok: "client_scope_input plain_unicode fixed_digest (scope_action x) = Inr scope_client"
proof -
  have d: "nfc plain_unicode c sample_digest = Inr sample_digest" for c
    by (simp add: sample_digest_def json_eval sixty_four plain_unicode_def)
  have e: "sample_digest \<noteq> []" by (simp add: sample_digest_def)
  show ?thesis
    unfolding client_scope_input_def scope_action_def scope_target_def [symmetric]
    by (simp add: required_mapping_def scope_target_ok)
      (simp add: required_string_def scope_target_def target_members_def d e, simp add: scope_client_def scope_eval)
qed

lemma scope_identity_ok: "trusted_scope plain_unicode scope_identity = Inr scope_identity"
  by (simp add: trusted_scope_def scope_identity_def trusted_json_def required_mapping_def required_string_def present_string_def
    trusted_fields_def) (simp add: scope_eval)

lemma scope_input_ok:
  "authoritative_scope_input plain_unicode fixed_digest (scope_action x) scope_identity = Inr (JObj (authoritative_json scope_client scope_identity))"
  by (simp add: authoritative_scope_input_def scope_client_ok scope_identity_ok authoritative_json_def)

lemma scope_hash_ok: "authoritative_scope_hash plain_unicode fixed_digest (scope_action x) scope_identity = Inr sample_digest"
proof -
  have "isOk (canonical_json plain_unicode (to_value [] (JObj (authoritative_json scope_client scope_identity))))"
    by (simp add: authoritative_json_def scope_client_def client_scope_json_def scope_identity_def trusted_json_def sample_digest_def
      sixty_four scope_eval)
  then show ?thesis by (simp add: authoritative_scope_hash_def scope_input_ok fixed_hash_ok)
qed

section \<open>Properties\<close>

text \<open>
  Building and checking a target agree: a target that \<open>build_target\<close> returns is accepted by
  \<open>validated_target\<close>, which returns it unchanged.
\<close>

theorem target_roundtrip:
  assumes "unicode_laws U" "build_target U H kind service p = Inr t"
  shows "validated_target U H t = Inr t"
  using build_validated [OF assms] .

theorem target_roundtrip_witness: "validated_target plain_unicode plain_digest sample_target = Inr sample_target"
  using target_roundtrip [OF plain_unicode_laws sample_target_ok] .

text \<open>
  A resource hash binds the whole target: two accepted targets with the same resource hash have the same
  kind, service and resource.
\<close>

theorem resource_binding:
  assumes "unicode_laws U" "validated_target U H (JObj s) = Inr v" "validated_target U H (JObj t) = Inr w"
    "lookup s ''resourceHash'' = lookup t ''resourceHash''"
    "\<forall>k l x y r q. no_collision U H (resource_preimage k x r) (resource_preimage l y q)"
  shows "v = w"
proof -
  obtain k x r h where v: "resource_fields U s = Inr (k, x, r)" "canonical_hash U H (to_value [] (resource_preimage k x r)) = Inr h"
    "lookup s ''resourceHash'' = Some (JStr h)" "v = JObj (target_members k x r h)" by (rule validated_target_parts [OF assms(2)])
  obtain l y q g where w: "resource_fields U t = Inr (l, y, q)" "canonical_hash U H (to_value [] (resource_preimage l y q)) = Inr g"
    "lookup t ''resourceHash'' = Some (JStr g)" "w = JObj (target_members l y q g)" by (rule validated_target_parts [OF assms(3)])
  have "h = g" using v(3) w(3) assms(4) by simp
  then have "agree U (resource_preimage k x r) (resource_preimage l y q)" using hash_agree v(2) w(2) assms(5) by blast
  then show ?thesis
    using resource_preimage_inj [OF assms(1) _ resource_fields_tidy [OF assms(1) v(1)] resource_fields_tidy [OF assms(1) w(1)]]
      v(4) w(4) \<open>h = g\<close> by simp
qed

theorem resource_binding_witness:
  "\<exists>s. validated_target plain_unicode plain_digest (JObj (s @ req ''note'' JNull)) = Inr sample_target \<and> sample_target = JObj s"
proof -
  obtain s where s: "sample_target = JObj s" "\<exists>k x r h. s = target_members k x r h" using build_target_members [OF sample_target_ok] by blast
  have t: "validated_target plain_unicode plain_digest (JObj s) = Inr sample_target"
    using build_validated [OF plain_unicode_laws sample_target_ok] s(1) by simp
  then obtain v where v: "validated_target plain_unicode plain_digest (JObj (s @ req ''note'' JNull)) = Inr v"
    using s(2) annotated_target by blast
  moreover have "lookup (s @ req ''note'' JNull) ''resourceHash'' = lookup s ''resourceHash''"
    using s(2) by (auto simp: target_members_def)
  ultimately have "v = sample_target" using resource_binding [OF plain_unicode_laws v t] by simp
  then show ?thesis using v s(1) by blast
qed

text \<open>
  C24: A scope hash binds the scope: two requests with the same authoritative scope hash have the same client scope
  (adapter, task, action, target and side effect) and the same trusted identity (tenant, actor, client, agent and
  delegation), so an approval for one cannot be used for another.
\<close>

theorem scope_binding:
  assumes "unicode_laws U" "authoritative_scope_hash U H a t = Inr h" "authoritative_scope_hash U H b u = Inr h"
    "\<forall>v w. authoritative_scope_input U H a t = Inr v \<longrightarrow> authoritative_scope_input U H b u = Inr w \<longrightarrow> no_collision U H v w"
  shows "client_scope_input U H a = client_scope_input U H b \<and> trusted_scope U t = trusted_scope U u"
  using scope_hash_binding [OF assms] .

theorem scope_binding_witness:
  "client_scope_input plain_unicode fixed_digest (scope_action sample_time) = client_scope_input plain_unicode fixed_digest (scope_action sample_later)"
proof -
  have "no_collision plain_unicode fixed_digest v v" for v by (simp add: no_collision_def)
  then show ?thesis
    using scope_binding [OF plain_unicode_laws scope_hash_ok [of sample_time] scope_hash_ok [of sample_later]] scope_input_ok by simp
qed

end
