(* ===== verification/Resume.thy ===== *)
theory Resume
  imports Canonical_Scope Approval_Properties
begin

text \<open>
  The fresh authorization attempt after an approval: \<open>validate_resume_attempt\<close> of
  \<open>protocol/reference/validate.py\<close>, which composes the document validators, the scope hashes
  and the approval record.  The property shows that an accepted attempt acts within the scope,
  the identity and the time that the reviewer approved.
\<close>

section \<open>Definitions\<close>

definition RESUME_STABLE_FIELDS :: "string list" where
  "RESUME_STABLE_FIELDS = [''actionId'', ''correlationId'', ''task'', ''action'', ''target'', ''sideEffect'']"

definition action_json :: "action_request \<Rightarrow> json" where
  "action_json a = JObj (action_request_members a)"

definition stable_fields_equal :: "action_request \<Rightarrow> action_request \<Rightarrow> bool" where
  "stable_fields_equal resumed original \<longleftrightarrow>
    list_all (\<lambda>f. rel_option py_eq (lookup (action_request_members resumed) f) (lookup (action_request_members original) f))
      RESUME_STABLE_FIELDS"

text \<open>Both scope hashes of an action; every canonicalisation error becomes one code.\<close>

definition scope_hashes :: "unicode \<Rightarrow> (bytes \<Rightarrow> ustr) \<Rightarrow> action_request \<Rightarrow> json \<Rightarrow> code + ustr \<times> ustr" where
  "scope_hashes U H a trusted =
    mapErr (\<lambda>_. ''approval_scope_mismatch'')
      (bindE (client_scope_hash U H (action_json a)) (\<lambda>c.
       bindE (authoritative_scope_hash U H (action_json a) trusted) (\<lambda>s. Inr (c, s))))"

definition decision_links :: "action_request \<Rightarrow> authorization_decision \<Rightarrow> approval_record \<Rightarrow> code + unit" where
  "decision_links original prior approval =
    (if dc_outcome prior \<noteq> DO_APPROVAL_REQUIRED \<or> rq_request_id original \<noteq> dc_request_id prior \<or>
        ap_authorization_decision_id approval \<noteq> dc_decision_id prior \<or> ap_creation_audit_ref approval \<noteq> dc_audit_ref prior
     then Inl ''invalid_request''
     else case dc_approval prior of
       None \<Rightarrow> Inl ''KeyError''
     | Some s \<Rightarrow>
         if ap_approval_id approval \<noteq> sm_approval_id s \<or> ap_expires_at approval \<noteq> sm_expires_at s then Inl ''invalid_request''
         else Inr ())"

definition validate_resume_attempt ::
    "unicode \<Rightarrow> (bytes \<Rightarrow> ustr) \<Rightarrow> action_request \<Rightarrow> authorization_decision \<Rightarrow> approval_record \<Rightarrow> action_request \<Rightarrow> json \<Rightarrow>
      ustr \<Rightarrow> code + unit" where
  "validate_resume_attempt U H original prior approval resumed trusted now =
    bindE (validate_action_document original) (\<lambda>_.
    bindE (validate_decision_document prior) (\<lambda>_.
    bindE (validate_approval_document approval) (\<lambda>_.
    bindE (validate_action_document resumed) (\<lambda>_.
    bindE (parse_rfc3339 now) (\<lambda>trusted_now.
    bindE (scope_hashes U H original trusted) (\<lambda>(original_client, original_authoritative).
    bindE (scope_hashes U H resumed trusted) (\<lambda>(resumed_client, resumed_authoritative).
    bindE (decision_links original prior approval) (\<lambda>_.
    if rq_correlation_id original \<noteq> dc_correlation_id prior \<or> ap_action_id approval \<noteq> rq_action_id original \<or>
       ap_correlation_id approval \<noteq> rq_correlation_id original \<or> original_client \<noteq> dc_client_scope_hash prior \<or>
       original_authoritative \<noteq> dc_authoritative_scope_hash prior \<or>
       ap_authoritative_scope_hash approval \<noteq> dc_authoritative_scope_hash prior
    then Inl ''approval_scope_mismatch''
    else if ap_status approval \<noteq> AS_APPROVED then
      (if ap_status approval = AS_EXPIRED then Inl ''approval_expired'' else Inl ''policy_denied'')
    else if rq_causation_id resumed \<noteq> Some (dc_decision_id prior) \<or>
       rq_resume_from_approval_id resumed \<noteq> Some (ap_approval_id approval) \<or>
       rq_request_id resumed = rq_request_id original \<or> rq_idempotency_key resumed = rq_idempotency_key original
    then Inl ''invalid_request''
    else if \<not> stable_fields_equal resumed original \<or> resumed_client \<noteq> original_client \<or> resumed_authoritative \<noteq> original_authoritative
    then Inl ''approval_scope_mismatch''
    else
      bindE (case ap_decided_at approval of None \<Rightarrow> Inl ''KeyError'' | Some t \<Rightarrow> parse_rfc3339 t) (\<lambda>decided_at.
      if timestamp_order decided_at trusted_now > 0 then Inl ''invalid_decision''
      else
        bindE (parse_rfc3339 (ap_expires_at approval)) (\<lambda>expires_at.
        if timestamp_order trusted_now expires_at \<ge> 0 then Inl ''approval_expired'' else Inr ()))))))))))"

section \<open>Inversion\<close>

lemma decision_links_iff:
  "decision_links original prior approval = Inr () \<longleftrightarrow>
    dc_outcome prior = DO_APPROVAL_REQUIRED \<and> rq_request_id original = dc_request_id prior \<and>
    ap_authorization_decision_id approval = dc_decision_id prior \<and> ap_creation_audit_ref approval = dc_audit_ref prior \<and>
    (\<exists>s. dc_approval prior = Some s \<and> ap_approval_id approval = sm_approval_id s \<and> ap_expires_at approval = sm_expires_at s)"
  by (auto simp: decision_links_def split: option.splits)

lemma scope_hashes_iff:
  "scope_hashes U H a t = Inr (c, s) \<longleftrightarrow>
    client_scope_hash U H (action_json a) = Inr c \<and> authoritative_scope_hash U H (action_json a) t = Inr s"
  by (auto simp: scope_hashes_def mapErr_def bindE_def split: sum.splits)

lemma resume_parts:
  assumes "validate_resume_attempt U H original prior approval resumed trusted now = Inr ()"
  obtains n c s t decided expires where "validate_approval_document approval = Inr ()" "parse_rfc3339 now = Inr n"
    "scope_hashes U H original trusted = Inr (c, s)" "scope_hashes U H resumed trusted = Inr (c, s)"
    "decision_links original prior approval = Inr ()"
    "c = dc_client_scope_hash prior" "s = dc_authoritative_scope_hash prior" "ap_authoritative_scope_hash approval = s"
    "ap_status approval = AS_APPROVED" "rq_causation_id resumed = Some (dc_decision_id prior)"
    "rq_resume_from_approval_id resumed = Some (ap_approval_id approval)"
    "rq_request_id resumed \<noteq> rq_request_id original" "rq_idempotency_key resumed \<noteq> rq_idempotency_key original"
    "ap_decided_at approval = Some t" "parse_rfc3339 t = Inr decided" "parse_rfc3339 (ap_expires_at approval) = Inr expires"
    "\<not> timestamp_order decided n > 0" "\<not> timestamp_order n expires \<ge> 0"
  using assms unfolding validate_resume_attempt_def
  by (auto elim!: bindE_InrE split: if_splits option.splits)

section \<open>A concrete attempt\<close>

definition other_id :: "string \<Rightarrow> ustr" where "other_id p = lit p @ lit ''01J5ABCDEFGHJKMNPQRSTVWXY1''"

definition resumed_action :: action_request where
  "resumed_action = sample_action\<lparr>rq_request_id := other_id ''req_'', rq_idempotency_key := other_id ''authz_'',
     rq_causation_id := Some (sample_id ''dec_''), rq_resume_from_approval_id := Some (sample_id ''apr_''), rq_occurred_at := half_way\<rparr>"

lemma other_id_ok [simp]: "prefixed_ulid ''req_'' (other_id ''req_'')" "prefixed_ulid ''authz_'' (other_id ''authz_'')"
  by (simp_all add: prefixed_ulid_def other_id_def ulid_body_def is_crockford_def text_eval)

lemma resumed_schema: "action_request_schema fmt resumed_action"
  using sample_action_schema [of fmt]
  by (simp add: action_request_schema_def resumed_action_def sample_action_def class_eval)

lemma numbers_ok: "small_extensions d \<Longrightarrow> validate_extension_numbers d = Inr ()"
  using extension_numbers_iff [of d] by (auto simp: isOk_iff)

lemmas member_eval = action_request_members_def adapter_members_def task_binding_members_def action_target_members_def
  action_context_members_def authorization_decision_members_def approval_summary_members_def cache_directive_members_def req_def opt_def

lemma resume_numbers:
  "small_extensions (JObj (action_request_members sample_action))" "small_extensions (JObj (action_request_members resumed_action))"
  "small_extensions (JObj (authorization_decision_members sample_decision))"
  by (simp_all add: sample_action_def resumed_action_def sample_decision_def member_eval)

lemma resume_documents: "validate_action_document sample_action = Inr ()" "validate_action_document resumed_action = Inr ()"
  "validate_decision_document sample_decision = Inr ()"
  using sample_action_schema [of False] resumed_schema [of False] sample_schemas(1) [of False] resume_numbers [THEN numbers_ok]
  by (simp_all add: validate_action_document_def validate_decision_document_def validate_structure_def)
    (simp_all add: sample_action_def resumed_action_def sample_decision_def approval_times approval_orders)

definition resume_client :: json where
  "resume_client = client_scope_json (lit ''codex'') (lit ''1.0.0'') (sample_id ''task_'') (sample_id ''session_'') (lit ''file:read'')
    (lit ''local-action'') (lit ''workspace.local'') sample_digest (lit ''read_only'')"

lemma resume_target_ok:
  "validated_target plain_unicode fixed_digest (JObj (action_target_members (rq_target sample_action))) =
    Inr (JObj (target_members (lit ''local-action'') (lit ''workspace.local'') (lit ''path:/src/main.py'') sample_digest))"
proof -
  have "isOk (canonical_json plain_unicode (to_value [] (resource_preimage (lit ''local-action'') (lit ''workspace.local'') (lit ''path:/src/main.py''))))"
    by (simp add: resource_preimage_def scope_eval)
  note h = fixed_hash_ok [OF this]
  have "resource_fields plain_unicode (action_target_members (rq_target sample_action)) =
      Inr (lit ''local-action'', lit ''workspace.local'', lit ''path:/src/main.py'')"
    by (simp add: resource_fields_def required_string_def sample_action_def action_target_members_def) (simp add: scope_eval)
  then show ?thesis
    using h by (simp add: validated_target_def required_mapping_def) (simp add: sample_action_def action_target_members_def)
qed

lemma resume_client_ok:
  assumes "rq_adapter a = rq_adapter sample_action" "rq_task a = rq_task sample_action" "rq_action a = rq_action sample_action"
    "rq_target a = rq_target sample_action" "rq_side_effect a = rq_side_effect sample_action"
  shows "client_scope_input plain_unicode fixed_digest (action_json a) = Inr resume_client"
proof -
  have d: "nfc plain_unicode c sample_digest = Inr sample_digest" for c
    by (simp add: sample_digest_def json_eval sixty_four plain_unicode_def)
  have e: "sample_digest \<noteq> []" "sample_id p \<noteq> []" for p by (simp_all add: sample_digest_def sample_id_def sample_ulid_def)
  show ?thesis
    unfolding client_scope_input_def action_json_def
    by (simp add: required_mapping_def action_request_members_def assms resume_target_ok)
      (simp add: required_string_def target_members_def adapter_members_def task_binding_members_def sample_action_def d e,
       simp add: resume_client_def sample_id_def sample_ulid_def scope_eval)
qed

lemma resume_input_ok:
  assumes "a \<in> {sample_action, resumed_action}"
  shows "authoritative_scope_input plain_unicode fixed_digest (action_json a) scope_identity =
    Inr (JObj (authoritative_json resume_client scope_identity))"
proof -
  have "client_scope_input plain_unicode fixed_digest (action_json a) = Inr resume_client"
    using assms by (auto intro!: resume_client_ok simp: resumed_action_def)
  then show ?thesis by (simp add: authoritative_scope_input_def scope_identity_ok authoritative_json_def)
qed

lemma resume_hashes_ok:
  assumes "a \<in> {sample_action, resumed_action}"
  shows "scope_hashes plain_unicode fixed_digest a scope_identity = Inr (sample_digest, sample_digest)"
proof -
  have "isOk (canonical_json plain_unicode (to_value [] resume_client))"
    by (simp add: resume_client_def client_scope_json_def sample_digest_def sample_id_def sample_ulid_def sixty_four scope_eval)
  moreover have "isOk (canonical_json plain_unicode (to_value [] (JObj (authoritative_json resume_client scope_identity))))"
    by (simp add: authoritative_json_def resume_client_def client_scope_json_def scope_identity_def trusted_json_def sample_digest_def
      sample_id_def sample_ulid_def sixty_four scope_eval)
  moreover have "client_scope_input plain_unicode fixed_digest (action_json a) = Inr resume_client"
    using assms by (auto intro!: resume_client_ok simp: resumed_action_def)
  ultimately show ?thesis
    unfolding scope_hashes_iff
    using resume_input_ok [OF assms] by (simp add: client_scope_hash_def authoritative_scope_hash_def fixed_hash_ok)
qed

lemma resume_stable: "stable_fields_equal resumed_action sample_action"
  by (simp add: stable_fields_equal_def RESUME_STABLE_FIELDS_def resumed_action_def sample_action_def action_request_members_def)
    (simp add: member_eval)

lemma resume_accepted:
  "validate_resume_attempt plain_unicode fixed_digest sample_action sample_decision approved resumed_action scope_identity half_way = Inr ()"
proof -
  have "decision_links sample_action sample_decision approved = Inr ()"
    by (simp add: decision_links_iff sample_action_def sample_decision_def approved_def sample_approval_def)
  moreover have "other_id ''req_'' \<noteq> sample_id ''req_''" "other_id ''authz_'' \<noteq> sample_id ''authz_''"
    by (simp_all add: other_id_def sample_id_def sample_ulid_def lit_def)
  ultimately show ?thesis
    using resume_documents approved_documents resume_stable
    by (simp add: validate_resume_attempt_def resume_hashes_ok approval_times)
      (simp add: sample_action_def sample_decision_def approved_def sample_approval_def resumed_action_def approval_times approval_orders)
qed

section \<open>Properties\<close>

text \<open>
  C23: An accepted resume attempt stays within what was approved: the record is approved, the clock lies
  between the decision and the expiry, the attempt is a new request with a new idempotency key, the resumed
  action has the client scope of the original one and hashes to the approved scope, and the trusted identity
  is the one the decision was issued for.
\<close>

theorem resume_within_approval:
  assumes "unicode_laws U"
    "validate_resume_attempt U H original prior approval resumed trusted now = Inr ()"
    "authoritative_scope_hash U H (action_json original) issued_to = Inr (dc_authoritative_scope_hash prior)"
    "\<forall>v w a t b u. authoritative_scope_input U H a t = Inr v \<longrightarrow> authoritative_scope_input U H b u = Inr w \<longrightarrow>
       a \<in> {action_json original, action_json resumed} \<longrightarrow> b \<in> {action_json original, action_json resumed} \<longrightarrow>
       t \<in> {trusted, issued_to} \<longrightarrow> u \<in> {trusted, issued_to} \<longrightarrow> no_collision U H v w"
  shows "ap_status approval = AS_APPROVED \<and>
    (\<exists>n t decided expires. parse_rfc3339 now = Inr n \<and> ap_decided_at approval = Some t \<and> parse_rfc3339 t = Inr decided \<and>
      parse_rfc3339 (ap_expires_at approval) = Inr expires \<and> instant decided \<le> instant n \<and> instant n < instant expires) \<and>
    rq_request_id resumed \<noteq> rq_request_id original \<and> rq_idempotency_key resumed \<noteq> rq_idempotency_key original \<and>
    rq_resume_from_approval_id resumed = Some (ap_approval_id approval) \<and>
    authoritative_scope_hash U H (action_json resumed) trusted = Inr (ap_authoritative_scope_hash approval) \<and>
    client_scope_input U H (action_json resumed) = client_scope_input U H (action_json original) \<and>
    trusted_scope U trusted = trusted_scope U issued_to"
proof -
  obtain n c s t decided expires where r: "parse_rfc3339 now = Inr n" "scope_hashes U H original trusted = Inr (c, s)"
    "scope_hashes U H resumed trusted = Inr (c, s)" "s = dc_authoritative_scope_hash prior" "ap_authoritative_scope_hash approval = s"
    "ap_status approval = AS_APPROVED" "rq_resume_from_approval_id resumed = Some (ap_approval_id approval)"
    "rq_request_id resumed \<noteq> rq_request_id original" "rq_idempotency_key resumed \<noteq> rq_idempotency_key original"
    "ap_decided_at approval = Some t" "parse_rfc3339 t = Inr decided" "parse_rfc3339 (ap_expires_at approval) = Inr expires"
    "\<not> timestamp_order decided n > 0" "\<not> timestamp_order n expires \<ge> 0"
    by (rule resume_parts [OF assms(2)])
  have h: "authoritative_scope_hash U H (action_json original) trusted = Inr s" "authoritative_scope_hash U H (action_json resumed) trusted = Inr s"
    using r(2,3) by (simp_all add: scope_hashes_iff)
  have "client_scope_input U H (action_json resumed) = client_scope_input U H (action_json original)"
    using scope_hash_binding [OF assms(1) h(2,1)] assms(4) by blast
  moreover have "trusted_scope U trusted = trusted_scope U issued_to"
    using scope_hash_binding [OF assms(1) h(1) assms(3) [folded r(4)]] assms(4) by blast
  moreover have "instant decided \<le> instant n" "instant n < instant expires"
    using r(13,14) parsed_order(3) [OF r(11,1)] parsed_order(2) [OF r(1,12)] parsed_order(1) [OF r(1,12)] by auto
  ultimately show ?thesis using r(1,5-12) h(2) by (cases decided) simp
qed

theorem resume_within_approval_witness:
  "ap_status approved = AS_APPROVED \<and> rq_request_id resumed_action \<noteq> rq_request_id sample_action \<and>
   authoritative_scope_hash plain_unicode fixed_digest (action_json resumed_action) scope_identity = Inr (ap_authoritative_scope_hash approved)"
proof -
  have a: "authoritative_scope_hash plain_unicode fixed_digest (action_json sample_action) scope_identity = Inr (dc_authoritative_scope_hash sample_decision)"
    using resume_hashes_ok [of sample_action] by (simp add: scope_hashes_iff sample_decision_def)
  have "no_collision plain_unicode fixed_digest v w" if "authoritative_scope_input plain_unicode fixed_digest a t = Inr v"
    "authoritative_scope_input plain_unicode fixed_digest b u = Inr w" "a \<in> {action_json sample_action, action_json resumed_action}"
    "b \<in> {action_json sample_action, action_json resumed_action}" "t = scope_identity" "u = scope_identity" for v w a b t u
    using that resume_input_ok [of sample_action] resume_input_ok [of resumed_action] by (auto simp: no_collision_def)
  then show ?thesis using resume_within_approval [OF plain_unicode_laws resume_accepted a] by blast
qed

end
