(* ===== verification/Url_Text.thy ===== *)
theory Url_Text
  imports Wire_Strings
begin

text \<open>
  The text level of URL canonicalisation in \<open>protocol/reference/canonicalize.py\<close>: percent escapes,
  the quoting functions of the standard library that the code calls, and dot segments.  The
  lemmas relate the dot-segment loop to a walk over the segments of a path.
\<close>

section \<open>Characters\<close>

definition is_hexdigit :: "nat \<Rightarrow> bool" where
  "is_hexdigit c \<longleftrightarrow> is_digit c \<or> (65 \<le> c \<and> c \<le> 70) \<or> (97 \<le> c \<and> c \<le> 102)"

definition hex_value :: "nat \<Rightarrow> nat" where
  "hex_value c = (if is_digit c then c - 48 else if c \<le> 70 then c - 55 else c - 87)"

definition hex_digit :: "nat \<Rightarrow> nat" where
  "hex_digit n = (if n < 10 then n + 48 else n + 55)"

definition escape :: "nat \<Rightarrow> ustr" where
  "escape b = [37, hex_digit (b div 16), hex_digit (b mod 16)]"

definition UNRESERVED :: "nat \<Rightarrow> bool" where
  "UNRESERVED c \<longleftrightarrow> is_alnum c \<or> c = 45 \<or> c = 46 \<or> c = 95 \<or> c = 126"

text \<open>The general category \<open>Cc\<close> is fixed by the Unicode standard.\<close>

definition is_control :: "nat \<Rightarrow> bool" where
  "is_control c \<longleftrightarrow> c < 32 \<or> (127 \<le> c \<and> c \<le> 159)"

definition control_or_separator :: "nat \<Rightarrow> bool" where
  "control_or_separator c \<longleftrightarrow> is_control c \<or> c = 8232 \<or> c = 8233"

section \<open>Strict UTF-8 decoding\<close>

definition is_cont :: "nat \<Rightarrow> bool" where "is_cont b \<longleftrightarrow> 128 \<le> b \<and> b < 192"

fun utf8_decode :: "nat list \<Rightarrow> ustr option" where
  "utf8_decode [] = Some []"
| "utf8_decode (b # bs) =
    (if b < 128 then map_option (Cons b) (utf8_decode bs)
     else if 194 \<le> b \<and> b < 224 then
       (case bs of
          b1 # r \<Rightarrow> if is_cont b1 then map_option (Cons ((b - 192) * 64 + (b1 - 128))) (utf8_decode r) else None
        | [] \<Rightarrow> None)
     else if 224 \<le> b \<and> b < 240 then
       (case bs of
          b1 # b2 # r \<Rightarrow>
            let c = (b - 224) * 4096 + (b1 - 128) * 64 + (b2 - 128) in
            if is_cont b1 \<and> is_cont b2 \<and> 2048 \<le> c \<and> \<not> is_surrogate c then map_option (Cons c) (utf8_decode r) else None
        | _ \<Rightarrow> None)
     else if 240 \<le> b \<and> b < 245 then
       (case bs of
          b1 # b2 # b3 # r \<Rightarrow>
            let c = (b - 240) * 262144 + (b1 - 128) * 4096 + (b2 - 128) * 64 + (b3 - 128) in
            if is_cont b1 \<and> is_cont b2 \<and> is_cont b3 \<and> 65536 \<le> c \<and> c < 1114112 then map_option (Cons c) (utf8_decode r)
            else None
        | _ \<Rightarrow> None)
     else None)"

section \<open>Percent escapes\<close>

fun validate_percent_encoding :: "ustr \<Rightarrow> code + unit" where
  "validate_percent_encoding [] = Inr ()"
| "validate_percent_encoding (c # s) =
    (if c \<noteq> 37 then validate_percent_encoding s
     else case s of
       a # b # r \<Rightarrow>
         if is_hexdigit a \<and> is_hexdigit b then validate_percent_encoding r else Inl ''invalid_percent_encoding''
     | _ \<Rightarrow> Inl ''invalid_percent_encoding'')"

text \<open>The inner loop: the bytes of a run of escapes, and the text behind the run.\<close>

fun take_escapes :: "ustr \<Rightarrow> nat list \<times> ustr" where
  "take_escapes (c # a # b # r) =
    (if c = 37 then (let (bs, rest) = take_escapes r in ((hex_value a * 16 + hex_value b) # bs, rest)) else ([], c # a # b # r))"
| "take_escapes s = ([], s)"

lemma take_escapes_length: "length (snd (take_escapes s)) \<le> length s"
  by (induction s rule: take_escapes.induct) (auto simp: split_beta Let_def)

function decode_run :: "nat list \<Rightarrow> code + ustr" where
  "decode_run [] = Inr []"
| "decode_run (b # bs) =
    (if b < 128 then
       (if b < 32 \<or> b = 127 then Inl ''invalid_url''
        else bindE (decode_run bs) (\<lambda>out. Inr ((if UNRESERVED b then [b] else escape b) @ out)))
     else case utf8_decode (takeWhile (\<lambda>x. 128 \<le> x) (b # bs)) of
       None \<Rightarrow> Inl ''invalid_url_utf8''
     | Some cs \<Rightarrow> bindE (decode_run (dropWhile (\<lambda>x. 128 \<le> x) (b # bs))) (\<lambda>out. Inr (cs @ out)))"
  by pat_completeness auto
termination
  by (relation "measure length") (auto simp: length_dropWhile_le less_Suc_eq_le)

function expand_percent :: "ustr \<Rightarrow> code + ustr" where
  "expand_percent s =
    (case s of
       [] \<Rightarrow> Inr []
     | c # r \<Rightarrow>
         if c \<noteq> 37 \<or> length s < 3 then bindE (expand_percent r) (\<lambda>out. Inr (c # out))
         else
           bindE (decode_run (fst (take_escapes s))) (\<lambda>run.
           bindE (expand_percent (snd (take_escapes s))) (\<lambda>out. Inr (run @ out))))"
  by pat_completeness auto
termination
proof (relation "measure length")
  fix s r :: ustr and c :: nat and x :: ustr
  assume s: "s = c # r" "\<not> (c \<noteq> 37 \<or> length s < 3)"
  then obtain a b q where "s = 37 # a # b # q"
    by (cases r; cases "tl r") auto
  then show "(snd (take_escapes s), s) \<in> measure length"
    using take_escapes_length [of q] by (auto simp: split_beta Let_def)
qed auto

definition always_safe :: "nat \<Rightarrow> bool" where
  "always_safe c \<longleftrightarrow> is_alnum c \<or> c = 95 \<or> c = 46 \<or> c = 45 \<or> c = 126"

text \<open>\<open>urllib.parse.quote\<close> with a set of safe characters.\<close>

definition quote_byte :: "nat set \<Rightarrow> nat \<Rightarrow> ustr" where
  "quote_byte safe b = (if always_safe b \<or> b \<in> safe then [b] else escape b)"

definition quote_url :: "nat set \<Rightarrow> ustr \<Rightarrow> ustr" where
  "quote_url safe s = concat (map (quote_byte safe) (utf8 s))"

definition upper_hex :: "nat \<Rightarrow> nat" where
  "upper_hex c = (if 97 \<le> c \<and> c \<le> 102 then c - 32 else c)"

fun upper_escapes :: "ustr \<Rightarrow> ustr" where
  "upper_escapes (c # a # b # r) =
    (if c = 37 \<and> is_hexdigit a \<and> is_hexdigit b then 37 # upper_hex a # upper_hex b # upper_escapes r
     else c # upper_escapes (a # b # r))"
| "upper_escapes s = s"

definition normalize_percent_component :: "unicode \<Rightarrow> nat set \<Rightarrow> ustr \<Rightarrow> code + ustr" where
  "normalize_percent_component U safe value =
    bindE (validate_percent_encoding value) (\<lambda>_.
    bindE (expand_percent value) (\<lambda>output.
    bindE (nfc U ''invalid_url'' output) (\<lambda>normalized.
      if list_ex control_or_separator normalized then Inl ''invalid_url''
      else Inr (upper_escapes (quote_url (insert 37 safe) normalized)))))"

section \<open>Dot segments\<close>

definition find_slash :: "ustr \<Rightarrow> nat \<Rightarrow> nat option" where
  "find_slash s start = (let n = length (takeWhile (\<lambda>c. c \<noteq> 47) (drop start s)) in if start + n < length s then Some (start + n) else None)"

definition remove_last_url_segment :: "ustr \<Rightarrow> ustr" where
  "remove_last_url_segment s = (if 47 \<in> set s then rev (tl (dropWhile (\<lambda>c. c \<noteq> 47) (rev s))) else [])"

lemma find_slash_bound: "find_slash s n = Some i \<Longrightarrow> n \<le> i \<and> i < length s \<and> s ! i = 47"
proof -
  assume a: "find_slash s n = Some i"
  let ?k = "length (takeWhile (\<lambda>c. c \<noteq> 47) (drop n s))"
  have i: "i = n + ?k" "n + ?k < length s" using a by (auto simp: find_slash_def Let_def split: if_splits)
  then have "?k < length (drop n s)" by simp
  then have "drop n s ! ?k = 47" using nth_length_takeWhile [of "\<lambda>c. c \<noteq> 47" "drop n s"] by auto
  then show ?thesis using i by simp
qed

lemma take_eq_length: "take n s = p \<Longrightarrow> length p \<le> length s"
  by auto

function dot_loop :: "ustr \<Rightarrow> ustr \<Rightarrow> ustr" where
  "dot_loop output remaining =
    (if remaining = [] then output
     else if take 3 remaining = lit ''../'' then dot_loop output (drop 3 remaining)
     else if take 2 remaining = lit ''./'' then dot_loop output (drop 2 remaining)
     else if take 3 remaining = lit ''/./'' then dot_loop output (47 # drop 3 remaining)
     else if remaining = lit ''/.'' then dot_loop output (lit ''/'')
     else if take 4 remaining = lit ''/../'' then dot_loop (remove_last_url_segment output) (47 # drop 4 remaining)
     else if remaining = lit ''/..'' then dot_loop (remove_last_url_segment output) (lit ''/'')
     else if remaining = lit ''.'' \<or> remaining = lit ''..'' then dot_loop output []
     else case find_slash remaining (if hd remaining = 47 then 1 else 0) of
       None \<Rightarrow> dot_loop (output @ remaining) []
     | Some i \<Rightarrow> dot_loop (output @ take i remaining) (drop i remaining))"
  by pat_completeness auto
termination
proof (relation "measure (\<lambda>(out, rem). length rem)", goal_cases)
  case (10 ou re i)
  have "0 < i"
  proof (rule ccontr)
    assume "\<not> 0 < i"
    then have z: "i = 0" by simp
    then have "hd re \<noteq> 47" using find_slash_bound [OF 10(9)] by (auto split: if_splits)
    then show False using z find_slash_bound [OF 10(9)] 10(1) by (simp add: hd_conv_nth)
  qed
  then show ?case using 10(1) by simp
qed (auto simp: lit_def dest: take_eq_length)

definition remove_url_dot_segments :: "ustr \<Rightarrow> ustr" where
  "remove_url_dot_segments path = (let output = dot_loop [] path in if output = [] then lit ''/'' else output)"

subsection \<open>A walk over the segments\<close>

definition render :: "ustr list \<Rightarrow> ustr" where
  "render segs = concat (map (Cons 47) segs)"

fun walk_dots :: "ustr list \<Rightarrow> ustr list \<Rightarrow> ustr list" where
  "walk_dots out [] = out"
| "walk_dots out (s # rest) =
    (let out' = if s = lit ''.'' then out else if s = lit ''..'' then butlast out else out @ [s] in
     if rest = [] \<and> (s = lit ''.'' \<or> s = lit ''..'') then out' @ [[]] else walk_dots out' rest)"

declare dot_loop.simps [simp del]

lemma render_simps [simp]: "render [] = []" "render (s # ss) = 47 # s @ render ss" "render (xs @ ys) = render xs @ render ys"
  by (simp_all add: render_def)

lemma render_split: "render (split_on 47 p) = 47 # p"
proof (induction p)
  case (Cons c p)
  then show ?case by (cases "split_on 47 p") auto
qed simp

lemma split_render: "list_all (\<lambda>s. 47 \<notin> set s) (s # ss) \<Longrightarrow> split_on 47 (s @ render ss) = s # ss"
proof (induction ss arbitrary: s)
  case (Cons t ss)
  then show ?case using split_on_append [of 47 s "t @ render ss"] by (simp add: split_on_atom)
qed (simp add: split_on_atom)

lemma scan_to_slash:
  "47 \<notin> set s \<Longrightarrow> dropWhile (\<lambda>c. c \<noteq> 47) (s @ 47 # t) = 47 # t" "47 \<notin> set s \<Longrightarrow> takeWhile (\<lambda>c. c \<noteq> 47) (s @ 47 # t) = s"
  "47 \<notin> set s \<Longrightarrow> takeWhile (\<lambda>c. c \<noteq> 47) s = s" for s t :: ustr
  by (induction s) auto

lemma remove_last_render: "list_all (\<lambda>s. 47 \<notin> set s) out \<Longrightarrow> remove_last_url_segment (render out) = render (butlast out)"
proof (induction out rule: rev_induct)
  case (snoc x xs)
  have "dropWhile (\<lambda>c. c \<noteq> 47) (rev x @ 47 # rev (render xs)) = 47 # rev (render xs)"
    using scan_to_slash(1) [of "rev x"] snoc.prems by simp
  then show ?case by (simp add: remove_last_url_segment_def)
qed (simp add: remove_last_url_segment_def)

lemma find_slash_segment:
  assumes "47 \<notin> set s"
  shows "find_slash (47 # s @ render rest) 1 = (if rest = [] then None else Some (Suc (length s)))"
proof (cases rest)
  case Nil
  show ?thesis using Nil by (simp add: find_slash_def Let_def scan_to_slash(3) [OF assms])
next
  case (Cons t ts)
  show ?thesis using Cons by (simp add: find_slash_def Let_def scan_to_slash(2) [OF assms])
qed

lemma dot_loop_end [simp]: "dot_loop out [] = out" "dot_loop out [47] = out @ [47]"
proof -
  show a: "dot_loop out [] = out" for out by (subst dot_loop.simps) simp
  show "dot_loop out [47] = out @ [47]"
    using find_slash_segment [of "[]" "[]"] by (subst dot_loop.simps) (simp add: lit_def a)
qed

lemma dot_loop_step:
  assumes "47 \<notin> set s" "list_all (\<lambda>s. 47 \<notin> set s) out"
  shows "dot_loop (render out) (47 # s @ render rest) =
    (let out' = if s = lit ''.'' then out else if s = lit ''..'' then butlast out else out @ [s] in
     if rest = [] \<and> (s = lit ''.'' \<or> s = lit ''..'') then render (out' @ [[]]) else dot_loop (render out') (render rest))"
proof -
  let ?r = "47 # s @ render rest"
  have t: "take 3 ?r = lit ''/./'' \<longleftrightarrow> s = lit ''.'' \<and> rest \<noteq> []" "take 4 ?r = lit ''/../'' \<longleftrightarrow> s = lit ''..'' \<and> rest \<noteq> []"
    "?r = lit ''/.'' \<longleftrightarrow> s = lit ''.'' \<and> rest = []" "?r = lit ''/..'' \<longleftrightarrow> s = lit ''..'' \<and> rest = []"
    using assms(1) by (cases rest; cases s; cases "tl s"; cases "tl (tl s)"; auto simp: lit_def)+
  have n: "take 3 ?r \<noteq> lit ''../''" "take 2 ?r \<noteq> lit ''./''" "?r \<noteq> lit ''.''" "?r \<noteq> lit ''..''" by (simp_all add: lit_def)
  show ?thesis
    using t n find_slash_segment [OF assms(1), of rest] remove_last_render [OF assms(2)]
    by (subst dot_loop.simps) (auto simp: Let_def lit_def neq_Nil_conv)
qed

definition is_dot :: "ustr \<Rightarrow> bool" where "is_dot s \<longleftrightarrow> s = lit ''.'' \<or> s = lit ''..''"

lemma walk_dots_all:
  "P [] \<Longrightarrow> list_all P out \<Longrightarrow> list_all (\<lambda>s. is_dot s \<or> P s) segs \<Longrightarrow> list_all P (walk_dots out segs)"
proof (induction segs arbitrary: out)
  case (Cons s rest)
  have "list_all P (butlast out)" using Cons.prems by (auto simp: list_all_iff dest: in_set_butlastD)
  then show ?case using Cons by (auto simp: Let_def is_dot_def)
qed simp

lemma dot_loop_walk:
  "list_all (\<lambda>s. 47 \<notin> set s) out \<Longrightarrow> list_all (\<lambda>s. 47 \<notin> set s) segs \<Longrightarrow>
    dot_loop (render out) (render segs) = render (walk_dots out segs)"
proof (induction segs arbitrary: out)
  case (Cons s rest)
  have b: "list_all (\<lambda>s. 47 \<notin> set s) (butlast out)" using Cons.prems by (auto simp: list_all_iff dest: in_set_butlastD)
  show ?case
    using Cons dot_loop_step [of s out rest] b by (auto simp: Let_def)
qed simp

lemma walk_dots_fixed: "list_all (\<lambda>s. \<not> is_dot s) segs \<Longrightarrow> walk_dots out segs = out @ segs"
  by (induction segs arbitrary: out) (auto simp: is_dot_def)

lemma walk_dots_nonempty: "out \<noteq> [] \<or> segs \<noteq> [] \<Longrightarrow> segs \<noteq> [] \<Longrightarrow> walk_dots out segs \<noteq> []"
proof (induction segs arbitrary: out)
  case (Cons s rest)
  then show ?case by (cases "rest = []") (auto simp: Let_def)
qed simp

lemma dot_segments_reference: "remove_url_dot_segments (47 # p) = render (walk_dots [] (split_on 47 p))"
proof -
  have "list_all (\<lambda>s. 47 \<notin> set s) (split_on 47 p)" using split_on_no_sep by (auto simp: list_all_iff)
  then have "dot_loop [] (47 # p) = render (walk_dots [] (split_on 47 p))"
    using dot_loop_walk [of "[]" "split_on 47 p"] by (simp add: render_split)
  moreover have "walk_dots [] (split_on 47 p) \<noteq> []" by (rule walk_dots_nonempty) simp_all
  ultimately show ?thesis by (cases "walk_dots [] (split_on 47 p)") (simp_all add: remove_url_dot_segments_def)
qed

section \<open>Decoding what was quoted\<close>

lemma byte_digits:
  "(c div 4096) * 4096 + ((c div 64) mod 64) * 64 + c mod 64 = (c::nat)"
  "(c div 262144) * 262144 + ((c div 4096) mod 64) * 4096 + ((c div 64) mod 64) * 64 + c mod 64 = c"
proof -
  have a: "c div 4096 = c div 64 div 64" "c div 262144 = c div 4096 div 64" by (simp_all add: div_mult2_eq [symmetric])
  have 1: "c div 64 * 64 + c mod 64 = c" "c div 64 div 64 * 64 + c div 64 mod 64 = c div 64"
    "c div 4096 div 64 * 64 + c div 4096 mod 64 = c div 4096" by simp_all
  show b: "(c div 4096) * 4096 + ((c div 64) mod 64) * 64 + c mod 64 = c" using 1(1,2) unfolding a(1) by linarith
  show "(c div 262144) * 262144 + ((c div 4096) mod 64) * 4096 + ((c div 64) mod 64) * 64 + c mod 64 = c"
    using b 1(3) unfolding a(2) by linarith
qed

lemma utf8_decode_char:
  assumes "c < 1114112" "\<not> is_surrogate c"
  shows "utf8_decode (utf8_char c @ bs) = map_option (Cons c) (utf8_decode bs)"
proof -
  consider "c < 128" | "128 \<le> c" "c < 2048" | "2048 \<le> c" "c < 65536" | "65536 \<le> c" by linarith
  then show ?thesis
  proof cases
    case 2
    then have "2 \<le> c div 64" "c div 64 < 32" by auto
    then show ?thesis using 2 by (simp add: utf8_char_def is_cont_def)
  next
    case 3
    then have "c div 4096 < 16" by auto
    then show ?thesis using 3 assms(2) byte_digits(1) [of c] by (simp add: utf8_char_def is_cont_def Let_def)
  next
    case 4
    then have "c div 262144 < 5" using assms(1) by auto
    then show ?thesis using 4 assms(1) byte_digits(2) [of c] by (simp add: utf8_char_def is_cont_def Let_def)
  qed (simp add: utf8_char_def)
qed

lemma utf8_decode_utf8: "scalars s \<Longrightarrow> utf8_decode (utf8 s) = Some s"
  by (induction s) (simp_all add: utf8_decode_char)

lemma utf8_bytes: "scalars s \<Longrightarrow> b \<in> set (utf8 s) \<Longrightarrow> b < 256"
proof (induction s)
  case (Cons c s)
  have "x < 256" if "x \<in> set (utf8_char c)" for x
  proof -
    have "c div 262144 < 5" "c < 65536 \<longrightarrow> c div 4096 < 16" "c < 2048 \<longrightarrow> c div 64 < 32" using Cons.prems(1) by auto
    then show ?thesis using that by (auto simp: utf8_char_def split: if_splits)
  qed
  then show ?case using Cons by auto
qed simp

lemma hex_round: "n < 16 \<Longrightarrow> is_hexdigit (hex_digit n) \<and> hex_value (hex_digit n) = n \<and> hex_digit n < 128 \<and> upper_hex (hex_digit n) = hex_digit n"
  by (auto simp: hex_digit_def hex_value_def is_hexdigit_def is_digit_def upper_hex_def)

lemma hex_digit_safe: "n < 16 \<Longrightarrow> always_safe (hex_digit n)"
  by (auto simp: hex_digit_def always_safe_def is_alnum_def is_digit_def is_upper_def)

lemma quote_byte_chars:
  assumes "b < 256" "x \<in> set (quote_byte safe b)"
  shows "always_safe x \<or> x \<in> safe \<or> x = 37"
proof -
  have "b div 16 < 16" "b mod 16 < 16" using assms(1) by auto
  note h = this [THEN hex_digit_safe]
  show ?thesis
  proof (cases "always_safe b \<or> b \<in> safe")
    case True
    then show ?thesis using assms(2) by (auto simp: quote_byte_def)
  next
    case False
    then have "x \<in> {37, hex_digit (b div 16), hex_digit (b mod 16)}" using assms(2) by (simp add: quote_byte_def escape_def)
    then show ?thesis using h by blast
  qed
qed

lemma quote_chars: "scalars s \<Longrightarrow> x \<in> set (quote_url safe s) \<Longrightarrow> always_safe x \<or> x \<in> safe \<or> x = 37"
  using utf8_bytes quote_byte_chars by (fastforce simp: quote_url_def)

lemma always_safe_ascii: "always_safe x \<Longrightarrow> x < 128"
  by (auto simp: always_safe_def is_alnum_def is_lower_def is_upper_def is_digit_def)

section \<open>Properties\<close>

text \<open>
  C28: Dot segments: on an absolute path the loop of RFC 3986 is a walk over the segments that drops \<open>.\<close>,
  pops at \<open>..\<close> and keeps empty segments; the result has no dot segment left, so no later resolution can
  climb out of it, and it is its own normal form.
\<close>

theorem url_dot_segments_removed:
  "remove_url_dot_segments (47 # p) = render (walk_dots [] (split_on 47 p)) \<and>
   list_all (\<lambda>s. \<not> is_dot s) (split_on 47 (tl (remove_url_dot_segments (47 # p)))) \<and>
   remove_url_dot_segments (remove_url_dot_segments (47 # p)) = remove_url_dot_segments (47 # p)"
proof -
  let ?w = "walk_dots [] (split_on 47 p)"
  have slashes: "list_all (\<lambda>s. 47 \<notin> set s) ?w"
    by (rule walk_dots_all) (use split_on_no_sep in \<open>auto simp: list_all_iff\<close>)
  have clean: "list_all (\<lambda>s. \<not> is_dot s) ?w"
    by (rule walk_dots_all) (auto simp: is_dot_def lit_def list_all_iff)
  obtain s ss where w: "?w = s # ss" using walk_dots_nonempty [of "[]" "split_on 47 p"] by (cases ?w) auto
  have r: "remove_url_dot_segments (47 # p) = 47 # s @ render ss" using dot_segments_reference [of p] w by simp
  have split: "split_on 47 (s @ render ss) = s # ss" by (rule split_render) (use slashes w in simp)
  then have "remove_url_dot_segments (47 # s @ render ss) = 47 # s @ render ss"
    using dot_segments_reference [of "s @ render ss"] walk_dots_fixed [of "s # ss" "[]"] clean w by simp
  then show ?thesis using dot_segments_reference [of p] r split clean w by simp
qed

end
