(* ===== verification/Canonical_Url.thy ===== *)
theory Canonical_Url
  imports Url_Text
begin

text \<open>
  URL canonicalisation of \<open>protocol/reference/canonicalize.py\<close>: sensitive names, hosts, the splitting
  of a URL by the standard library, query pairs, and \<open>canonicalize_url\<close>.  Parameters: the IDNA
  package, and the tables of the interpreter (compatibility normalisation and lower case of text
  that is not ASCII).
\<close>

section \<open>Parameters\<close>

record url_env =
  idna_decode :: "ustr \<Rightarrow> ustr option"
  idna_encode :: "ustr \<Rightarrow> ustr option"
  nfkc_form :: "ustr \<Rightarrow> ustr"
  lower_form :: "ustr \<Rightarrow> ustr"

definition lower_ascii :: "nat \<Rightarrow> nat" where
  "lower_ascii c = (if is_upper c then c + 32 else c)"

text \<open>\<open>str.lower\<close>: on ASCII text by its definition, on other text by the table of the interpreter.\<close>

definition py_lower :: "url_env \<Rightarrow> ustr \<Rightarrow> ustr" where
  "py_lower E s = (if ascii s then map lower_ascii s else lower_form E s)"

text \<open>\<open>str.partition\<close>: the text before the first separator, whether there is one, and the text behind it.\<close>

definition str_partition :: "nat \<Rightarrow> ustr \<Rightarrow> ustr \<times> bool \<times> ustr" where
  "str_partition c s = (takeWhile (\<lambda>x. x \<noteq> c) s, c \<in> set s, tl (dropWhile (\<lambda>x. x \<noteq> c) s))"

definition str_rpartition_tail :: "nat \<Rightarrow> ustr \<Rightarrow> ustr" where
  "str_rpartition_tail c s = rev (takeWhile (\<lambda>x. x \<noteq> c) (rev s))"

section \<open>Sensitive names\<close>

definition SENSITIVE_NAMES :: "ustr list" where
  "SENSITIVE_NAMES = map lit [''access-key'', ''access_key'', ''api-key'', ''api_key'', ''authorization'', ''cookie'',
    ''password'', ''secret'', ''token'']"

definition SENSITIVE_QUERY_KEYS :: "ustr list" where
  "SENSITIVE_QUERY_KEYS = map lit [''access_key'', ''access_token'', ''api_key'', ''apikey'', ''authorization'', ''code'',
    ''credential'', ''password'', ''secret'', ''signature'', ''token'']"

definition REDACTED :: ustr where "REDACTED = lit ''[REDACTED]''"

definition sensitive_name_pattern :: "ustr \<Rightarrow> bool" where
  "sensitive_name_pattern s \<longleftrightarrow>
    s \<noteq> [] \<and> length s \<le> 64 \<and> is_lower_alnum (hd s) \<and> list_all (\<lambda>c. is_lower_alnum c \<or> c = 95 \<or> c = 45) s"

definition normalize_sensitive_name :: "unicode \<Rightarrow> ustr \<Rightarrow> code + ustr" where
  "normalize_sensitive_name U value =
    bindE (nfc U ''invalid_sensitive_name'' value) (\<lambda>n.
    let s = dropWhile (\<lambda>c. c = 45) (py_strip n) in
    if \<not> ascii s then Inl ''invalid_sensitive_name''
    else let t = map (\<lambda>c. if c = 95 then 45 else c) (map lower_ascii s) in
      if sensitive_name_pattern t then Inr t else Inl ''invalid_sensitive_name'')"

definition sensitive_names :: "unicode \<Rightarrow> ustr list \<Rightarrow> code + ustr list" where
  "sensitive_names U additional =
    bindE (mapE (normalize_sensitive_name U) SENSITIVE_NAMES) (\<lambda>mandatory.
    bindE (mapE (normalize_sensitive_name U) additional) (\<lambda>additions. Inr (mandatory @ additions)))"

definition sensitive_name :: "unicode \<Rightarrow> ustr \<Rightarrow> ustr list \<Rightarrow> bool" where
  "sensitive_name U value names = (case normalize_sensitive_name U value of Inl _ \<Rightarrow> False | Inr n \<Rightarrow> n \<in> set names)"

section \<open>Hosts\<close>

definition ipv4_octet :: "ustr \<Rightarrow> bool" where
  "ipv4_octet s \<longleftrightarrow>
    s \<noteq> [] \<and> list_all is_digit s \<and> length s \<le> 3 \<and> (s \<noteq> lit ''0'' \<longrightarrow> hd s \<noteq> 48) \<and> val10 s \<le> 255"

text \<open>\<open>ipaddress.IPv4Address\<close> of a text, as its four octets, and its text.\<close>

definition ipv4_address :: "ustr \<Rightarrow> nat list option" where
  "ipv4_address s =
    (let parts = split_on 46 s in
     if 47 \<notin> set s \<and> length parts = 4 \<and> list_all ipv4_octet parts then Some (map val10 parts) else None)"

definition ipv4_text :: "nat list \<Rightarrow> ustr" where
  "ipv4_text octets = join_parts 46 (map digits10 octets)"

definition numeric_part :: "ustr \<Rightarrow> bool" where
  "numeric_part s \<longleftrightarrow>
    s \<noteq> [] \<and> list_all is_digit s \<or>
    (\<exists>a b r. s = a # b # r \<and> a = 48 \<and> (b = 120 \<or> b = 88) \<and> r \<noteq> [] \<and> list_all is_hexdigit r)"

definition AMBIGUOUS_NUMERIC_HOST :: "ustr \<Rightarrow> bool" where
  "AMBIGUOUS_NUMERIC_HOST s \<longleftrightarrow> list_all numeric_part (split_on 46 s)"

definition check_a_label :: "unicode \<Rightarrow> url_env \<Rightarrow> ustr \<Rightarrow> code + unit" where
  "check_a_label U E label =
    (if take 4 label \<noteq> lit ''xn--'' then Inr ()
     else case idna_decode E label of
       None \<Rightarrow> Inl ''invalid_url_host''
     | Some decoded \<Rightarrow>
         bindE (nfc U ''invalid_url_host'' decoded) (\<lambda>_.
         case idna_encode E decoded of
           None \<Rightarrow> Inl ''invalid_url_host''
         | Some round_trip \<Rightarrow>
             if py_lower E round_trip \<noteq> py_lower E label then Inl ''invalid_url_host'' else Inr ()))"

primrec check_labels :: "unicode \<Rightarrow> url_env \<Rightarrow> ustr list \<Rightarrow> code + unit" where
  "check_labels U E [] = Inr ()"
| "check_labels U E (l # ls) = bindE (check_a_label U E l) (\<lambda>_. check_labels U E ls)"

definition canonical_host :: "unicode \<Rightarrow> url_env \<Rightarrow> ustr \<Rightarrow> code + ustr" where
  "canonical_host U E host =
    bindE (nfc U ''invalid_url'' host) (\<lambda>raw.
    if raw \<noteq> [] \<and> last raw = 46 then Inl ''noncanonical_url_host''
    else if 58 \<in> set raw then Inl ''unsupported_ipv6''
    else if \<not> ascii raw then Inl ''unsupported_url_host''
    else let normalized = map lower_ascii raw in
      if normalized = [] then Inl ''missing_url_host''
      else case ipv4_address normalized of
        Some address \<Rightarrow>
          if ipv4_text address \<noteq> normalized then Inl ''ambiguous_numeric_host'' else Inr (ipv4_text address)
      | None \<Rightarrow>
          if AMBIGUOUS_NUMERIC_HOST normalized then Inl ''ambiguous_numeric_host''
          else if length normalized > 253 then Inl ''invalid_url_host''
          else if \<not> list_all dns_label (split_on 46 normalized) then Inl ''invalid_url_host''
          else bindE (check_labels U E (split_on 46 normalized)) (\<lambda>_. Inr normalized))"

definition reject_ambiguous_url_source :: "ustr \<Rightarrow> code + unit" where
  "reject_ambiguous_url_source s =
    (if 92 \<in> set s then Inl ''invalid_url'' else if list_ex control_or_separator s then Inl ''invalid_url'' else Inr ())"

section \<open>Splitting a URL\<close>

text \<open>\<open>ipaddress.IPv6Address\<close>: acceptance of a bracketed host.\<close>

definition ipv6_hextet :: "ustr \<Rightarrow> bool" where
  "ipv6_hextet s \<longleftrightarrow> s \<noteq> [] \<and> length s \<le> 4 \<and> list_all is_hexdigit s"

definition ipv6_parts_ok :: "ustr list \<Rightarrow> bool" where
  "ipv6_parts_ok parts =
    (let n = length parts; gaps = filter (\<lambda>i. parts ! i = []) [1..<n - 1] in
     n \<le> 9 \<and>
     (case gaps of
        [] \<Rightarrow> n = 8 \<and> list_all ipv6_hextet parts
      | [k] \<Rightarrow>
          let hi = (if hd parts = [] then k - 1 else k); lo = (if last parts = [] then n - k - 2 else n - k - 1) in
          (hd parts = [] \<longrightarrow> hi = 0) \<and> (last parts = [] \<longrightarrow> lo = 0) \<and> hi + lo < 8 \<and>
          list_all ipv6_hextet (take hi parts) \<and> list_all ipv6_hextet (drop (n - lo) parts)
      | _ \<Rightarrow> False))"

definition ipv6_address :: "ustr \<Rightarrow> bool" where
  "ipv6_address s =
    (let (addr, scoped, scope) = str_partition 37 s; parts = split_on 58 addr in
     47 \<notin> set s \<and> (scoped \<longrightarrow> scope \<noteq> [] \<and> 37 \<notin> set scope) \<and> addr \<noteq> [] \<and> length parts \<ge> 3 \<and>
     (if 46 \<in> set (last parts)
      then ipv4_address (last parts) \<noteq> None \<and> ipv6_parts_ok (butlast parts @ [lit ''0'', lit ''0''])
      else ipv6_parts_ok parts))"

definition bracketed_host_ok :: "ustr \<Rightarrow> bool" where
  "bracketed_host_ok h =
    (if take 1 h = lit ''v''
     then let (version, dot, rest) = str_partition 46 (drop 1 h) in
       version \<noteq> [] \<and> list_all is_hexdigit version \<and> dot \<and> rest \<noteq> [] \<and> 10 \<notin> set rest
     else ipv4_address h = None \<and> ipv6_address h)"

definition bracketed_netloc_ok :: "ustr \<Rightarrow> bool" where
  "bracketed_netloc_ok netloc =
    (let hostport = str_rpartition_tail 64 netloc; (before, opened, bracketed) = str_partition 91 hostport in
     if opened
     then let (h, _, port) = str_partition 93 bracketed in
       before = [] \<and> (port = [] \<or> hd port = 58) \<and> bracketed_host_ok h
     else bracketed_host_ok (fst (str_partition 58 hostport)))"

definition netloc_ok :: "url_env \<Rightarrow> ustr \<Rightarrow> bool" where
  "netloc_ok E netloc =
    (if ascii netloc then True
     else let n = filter (\<lambda>c. c \<notin> {64, 58, 35, 63}) netloc; n2 = nfkc_form E n in
       n = n2 \<or> list_all (\<lambda>c. c \<notin> set n2) (lit ''/?#@:''))"

record split_url =
  su_scheme :: ustr
  su_netloc :: ustr
  su_path :: ustr
  su_query :: ustr

definition scheme_char :: "nat \<Rightarrow> bool" where
  "scheme_char c \<longleftrightarrow> is_alnum c \<or> c = 43 \<or> c = 45 \<or> c = 46"

definition split_scheme :: "ustr \<Rightarrow> ustr \<times> ustr" where
  "split_scheme url =
    (let (front, colon, rest) = str_partition 58 url in
     if colon \<and> front \<noteq> [] \<and> (is_lower (hd front) \<or> is_upper (hd front)) \<and> list_all scheme_char front
     then (map lower_ascii front, rest) else ([], url))"

definition urlsplit :: "url_env \<Rightarrow> ustr \<Rightarrow> split_url option" where
  "urlsplit E source =
    (let url = filter (\<lambda>c. c \<notin> {9, 10, 13}) (dropWhile (\<lambda>c. c \<le> 32) source);
         (scheme, rest) = split_scheme url;
         has_netloc = (take 2 rest = lit ''//'');
         netloc = (if has_netloc then takeWhile (\<lambda>c. c \<notin> {47, 63, 35}) (drop 2 rest) else []);
         rest2 = (if has_netloc then dropWhile (\<lambda>c. c \<notin> {47, 63, 35}) (drop 2 rest) else rest);
         front = fst (str_partition 35 rest2);
         (path, _, query) = str_partition 63 front
     in if (91 \<in> set netloc) \<noteq> (93 \<in> set netloc) then None
        else if 91 \<in> set netloc \<and> \<not> bracketed_netloc_ok netloc then None
        else if \<not> netloc_ok E netloc then None
        else Some \<lparr>su_scheme = scheme, su_netloc = netloc, su_path = path, su_query = query\<rparr>)"

text \<open>The host and the port text of an authority; brackets are handled as in the library.\<close>

definition hostinfo :: "ustr \<Rightarrow> ustr \<times> ustr" where
  "hostinfo netloc =
    (let info = str_rpartition_tail 64 netloc; (_, opened, bracketed) = str_partition 91 info in
     if opened
     then let (h, _, behind) = str_partition 93 bracketed; (_, _, port) = str_partition 58 behind in (h, port)
     else let (h, _, port) = str_partition 58 info in (h, port))"

definition split_hostname :: "url_env \<Rightarrow> ustr \<Rightarrow> ustr option" where
  "split_hostname E netloc =
    (let h = fst (hostinfo netloc); (name, percent, zone) = str_partition 37 h in
     if h = [] then None else Some (py_lower E name @ (if percent then 37 # zone else [])))"

definition split_port :: "ustr \<Rightarrow> code + nat option" where
  "split_port netloc =
    (let port = snd (hostinfo netloc) in
     if port = [] then Inr None
     else if \<not> list_all is_digit port \<or> val10 port > 65535 then Inl ''invalid_url_port''
     else Inr (Some (val10 port)))"

section \<open>Query pairs\<close>

fun unquote_bytes :: "ustr \<Rightarrow> nat list" where
  "unquote_bytes (c # a # b # r) =
    (if c = 37 \<and> is_hexdigit a \<and> is_hexdigit b then (hex_value a * 16 + hex_value b) # unquote_bytes r
     else c # unquote_bytes (a # b # r))"
| "unquote_bytes s = s"

text \<open>\<open>urllib.parse.unquote\<close> with strict errors: every ASCII run is decoded, other characters are kept.\<close>

function unquote :: "ustr \<Rightarrow> ustr option" where
  "unquote s =
    (if s = [] then Some []
     else
       let run = takeWhile (\<lambda>c. c < 128) s; rest = dropWhile (\<lambda>c. c < 128) s;
           plain = takeWhile (\<lambda>c. 128 \<le> c) rest; behind = dropWhile (\<lambda>c. 128 \<le> c) rest
       in case utf8_decode (unquote_bytes run) of
            None \<Rightarrow> None
          | Some t \<Rightarrow> map_option (\<lambda>u. t @ plain @ u) (unquote behind))"
  by pat_completeness auto
termination
proof (relation "measure length")
  fix s run rest plain behind t :: ustr
  assume s: "s \<noteq> []" "rest = dropWhile (\<lambda>c. c < 128) s" "behind = dropWhile (\<lambda>c. 128 \<le> c) rest"
  have le: "length behind \<le> length rest" "length rest \<le> length s" using s by (simp_all add: length_dropWhile_le)
  have "length behind < length s"
  proof (cases "hd s < 128")
    case True
    then show ?thesis using s le length_dropWhile_le [of "\<lambda>c. c < 128" "tl s"] by (cases s) auto
  next
    case False
    then show ?thesis using s le length_dropWhile_le [of "\<lambda>c. 128 \<le> c" "tl s"] by (cases s) auto
  qed
  then show "(behind, s) \<in> measure length" by simp
qed simp

definition plus_to_space :: "ustr \<Rightarrow> ustr" where
  "plus_to_space s = map (\<lambda>c. if c = 43 then 32 else c) s"

text \<open>\<open>urllib.parse.parse_qsl\<close>, keeping blank values; a decoding failure is None.\<close>

primrec parse_fields :: "ustr list \<Rightarrow> (ustr \<times> ustr) list option" where
  "parse_fields [] = Some []"
| "parse_fields (f # fs) =
    (if f = [] then parse_fields fs
     else let (name, _, value) = str_partition 61 f in
       case unquote (plus_to_space name) of
         None \<Rightarrow> None
       | Some n \<Rightarrow>
           (case unquote (plus_to_space value) of
              None \<Rightarrow> None
            | Some v \<Rightarrow> map_option (Cons (n, v)) (parse_fields fs)))"

definition parse_qsl :: "ustr \<Rightarrow> (ustr \<times> ustr) list option" where
  "parse_qsl query = parse_fields (split_on 38 query)"

definition normalize_pair :: "unicode \<Rightarrow> ustr list \<Rightarrow> bool \<Rightarrow> ustr \<times> ustr \<Rightarrow> code + ustr \<times> ustr" where
  "normalize_pair U sensitive redact pair =
    bindE (nfc U ''invalid_url'' (fst pair)) (\<lambda>key.
    bindE (nfc U ''invalid_url'' (snd pair)) (\<lambda>item.
    bindE (reject_ambiguous_url_source key) (\<lambda>_.
    bindE (reject_ambiguous_url_source item) (\<lambda>_.
      Inr (key, if redact \<and> sensitive_name U key sensitive then REDACTED else item)))))"

definition query_safe :: "nat set" where "query_safe = set (lit ''-._~'')"

definition query_field :: "ustr \<times> ustr \<Rightarrow> ustr" where
  "query_field p = quote_url query_safe (fst p) @ [61] @ quote_url query_safe (snd p)"

definition urlencode :: "(ustr \<times> ustr) list \<Rightarrow> ustr" where
  "urlencode pairs = join_parts 38 (map query_field pairs)"

text \<open>The sort key is the pair of key and position: a stable sort by key.\<close>

definition canonical_query :: "unicode \<Rightarrow> ustr list \<Rightarrow> bool \<Rightarrow> (ustr \<times> ustr) list \<Rightarrow> code + ustr" where
  "canonical_query U sensitive redact pairs =
    bindE (mapE (normalize_pair U sensitive redact) pairs) (\<lambda>normalized. Inr (urlencode (sort_key fst normalized)))"

section \<open>The canonical URL\<close>

definition path_safe :: "nat set" where "path_safe = set (lit ''/:@!$&'' @ [39] @ lit ''()*+,;=-._~'')"

definition canonical_port :: "ustr \<Rightarrow> ustr \<Rightarrow> code + nat option" where
  "canonical_port scheme netloc =
    (let raw = str_rpartition_tail 58 netloc in
     bindE (guardE (58 \<in> set netloc \<longrightarrow> raw \<noteq> [] \<and> list_all is_digit raw \<and> (length raw > 1 \<longrightarrow> hd raw \<noteq> 48)) ''noncanonical_url_port'') (\<lambda>_.
     bindE (split_port netloc) (\<lambda>port.
     if port = Some 0 then Inl ''invalid_url_port''
     else if 58 \<in> set netloc \<and> Some (val10 raw) \<noteq> port then Inl ''noncanonical_url_port''
     else Inr (if scheme = lit ''http'' \<and> port = Some 80 \<or> scheme = lit ''https'' \<and> port = Some 443 then None else port))))"

definition canonical_path :: "unicode \<Rightarrow> ustr \<Rightarrow> code + ustr" where
  "canonical_path U path =
    bindE (normalize_percent_component U path_safe (if path = [] then lit ''/'' else path)) (\<lambda>p.
      Inr (remove_url_dot_segments p))"

definition urlunsplit :: "ustr \<Rightarrow> ustr \<Rightarrow> ustr \<Rightarrow> ustr \<Rightarrow> ustr" where
  "urlunsplit scheme netloc path query =
    scheme @ lit ''://'' @ netloc @ (if path \<noteq> [] \<and> hd path \<noteq> 47 then 47 # path else path) @
    (if query = [] then [] else 63 # query)"

definition query_text :: "unicode \<Rightarrow> ustr list \<Rightarrow> bool \<Rightarrow> ustr \<Rightarrow> code + ustr" where
  "query_text U sensitive_query_keys redact query =
    bindE (validate_percent_encoding query) (\<lambda>_.
    case parse_qsl query of
      None \<Rightarrow> Inl ''invalid_url_utf8''
    | Some pairs \<Rightarrow>
        bindE (sensitive_names U (SENSITIVE_QUERY_KEYS @ sensitive_query_keys)) (\<lambda>sensitive.
          canonical_query U sensitive redact pairs))"

definition canonicalize_url :: "unicode \<Rightarrow> url_env \<Rightarrow> ustr list \<Rightarrow> bool \<Rightarrow> ustr \<Rightarrow> code + ustr" where
  "canonicalize_url U E sensitive_query_keys redact value =
    bindE (nfc U ''invalid_url'' value) (\<lambda>source.
    bindE (reject_ambiguous_url_source source) (\<lambda>_.
    case urlsplit E source of
      None \<Rightarrow> Inl ''invalid_url''
    | Some parsed \<Rightarrow>
       (if su_scheme parsed \<notin> {lit ''http'', lit ''https''} then Inl ''unsupported_url_scheme''
        else (case split_hostname E (su_netloc parsed) of
          None \<Rightarrow> Inl ''missing_url_host''
        | Some hostname \<Rightarrow>
           (if 64 \<in> set (su_netloc parsed) then Inl ''url_userinfo''
            else if 37 \<in> set (su_netloc parsed) then Inl ''invalid_url_host''
            else if 91 \<in> set (su_netloc parsed) \<or> 93 \<in> set (su_netloc parsed) then Inl ''unsupported_ipv6''
            else
              bindE (canonical_host U E hostname) (\<lambda>host.
              bindE (canonical_port (su_scheme parsed) (su_netloc parsed)) (\<lambda>port.
              bindE (canonical_path U (su_path parsed)) (\<lambda>path.
              bindE (query_text U sensitive_query_keys redact (su_query parsed)) (\<lambda>query.
                Inr (urlunsplit (su_scheme parsed)
                  (case port of None \<Rightarrow> host | Some p \<Rightarrow> host @ 58 # digits10 p) path query))))))))))"

section \<open>Round trip of the query\<close>

lemma unquote_bytes_plain: "c \<noteq> 37 \<Longrightarrow> unquote_bytes (c # r) = c # unquote_bytes r"
  by (cases r; cases "tl r") auto

lemma unquote_bytes_escape: "b < 256 \<Longrightarrow> unquote_bytes (escape b @ r) = b # unquote_bytes r"
proof -
  assume "b < 256"
  then have "b div 16 < 16" "b mod 16 < 16" by auto
  then show ?thesis using hex_round by (simp add: escape_def)
qed

lemma unquote_bytes_quote:
  "37 \<notin> safe \<Longrightarrow> \<forall>b \<in> set bs. b < 256 \<Longrightarrow> unquote_bytes (concat (map (quote_byte safe) bs)) = bs"
proof (induction bs)
  case (Cons b bs)
  have "always_safe b \<Longrightarrow> b \<noteq> 37" by (auto simp: always_safe_def is_alnum_def is_lower_def is_upper_def is_digit_def)
  then have "b \<noteq> 37" if "always_safe b \<or> b \<in> safe" using that Cons.prems(1) by blast
  then have "unquote_bytes (quote_byte safe b @ r) = b # unquote_bytes r" for r
    using Cons.prems(2) by (simp add: quote_byte_def unquote_bytes_plain unquote_bytes_escape)
  then show ?case using Cons by simp
qed simp

lemma query_safe_chars: "always_safe x \<or> x \<in> query_safe \<or> x = 37 \<Longrightarrow> x < 128 \<and> x \<noteq> 43 \<and> x \<noteq> 38 \<and> x \<noteq> 61"
  by (auto simp: query_safe_def lit_def always_safe_def is_alnum_def is_lower_def is_upper_def is_digit_def)

lemma quoted_chars: "scalars s \<Longrightarrow> x \<in> set (quote_url query_safe s) \<Longrightarrow> x < 128 \<and> x \<noteq> 43 \<and> x \<noteq> 38 \<and> x \<noteq> 61"
  using quote_chars query_safe_chars by blast

declare unquote.simps [simp del]

lemma unquote_ascii: "ascii s \<Longrightarrow> unquote s = utf8_decode (unquote_bytes s)"
proof -
  assume "ascii s"
  then have t: "takeWhile (\<lambda>c. c < 128) s = s" "dropWhile (\<lambda>c. c < 128) s = []" by (auto simp: ascii_def list_all_iff)
  have e: "unquote [] = Some []" by (simp add: unquote.simps)
  show ?thesis by (cases "s = []", simp add: e) (subst unquote.simps, simp add: Let_def t e split: option.splits)
qed

lemma unquote_quote: "scalars s \<Longrightarrow> unquote (plus_to_space (quote_url query_safe s)) = Some s"
proof -
  assume s: "scalars s"
  have "plus_to_space (quote_url query_safe s) = quote_url query_safe s"
    unfolding plus_to_space_def by (rule map_idI) (use quoted_chars [OF s] in auto)
  moreover have "ascii (quote_url query_safe s)" using quoted_chars [OF s] by (auto simp: ascii_def list_all_iff)
  moreover have "unquote_bytes (quote_url query_safe s) = utf8 s"
    unfolding quote_url_def by (rule unquote_bytes_quote) (use utf8_bytes [OF s] in \<open>auto simp: query_safe_def lit_def\<close>)
  ultimately show ?thesis using unquote_ascii utf8_decode_utf8 [OF s] by simp
qed

lemma partition_first: "c \<notin> set a \<Longrightarrow> str_partition c (a @ c # b) = (a, True, b)"
  by (simp add: str_partition_def) (induction a; auto)

lemma parse_query_field:
  assumes "scalars (fst p)" "scalars (snd p)"
  shows "parse_fields (query_field p # fs) = map_option (Cons p) (parse_fields fs)"
proof -
  have "61 \<notin> set (quote_url query_safe (fst p))" using quoted_chars [OF assms(1)] by blast
  then have "str_partition 61 (query_field p) = (quote_url query_safe (fst p), True, quote_url query_safe (snd p))"
    by (simp add: query_field_def partition_first)
  moreover have "query_field p \<noteq> []" by (simp add: query_field_def)
  ultimately show ?thesis using unquote_quote assms by simp
qed

lemma parse_urlencode:
  assumes "\<forall>p \<in> set pairs. scalars (fst p) \<and> scalars (snd p)"
  shows "parse_qsl (urlencode pairs) = Some pairs"
proof -
  have f: "parse_fields (map query_field ps) = Some ps" if "\<forall>p \<in> set ps. scalars (fst p) \<and> scalars (snd p)" for ps
    using that by (induction ps) (simp_all add: parse_query_field del: parse_fields.simps(2))
  show ?thesis
  proof (cases "pairs = []")
    case True
    then show ?thesis by (simp add: parse_qsl_def urlencode_def)
  next
    case False
    have "list_all (\<lambda>q. 38 \<notin> set q) (map query_field pairs)"
      using assms quoted_chars by (fastforce simp: list_all_iff query_field_def)
    then have "split_on 38 (urlencode pairs) = map query_field pairs"
      unfolding urlencode_def by (rule split_join) (use False in simp)
    then show ?thesis using f [OF assms] by (simp add: parse_qsl_def)
  qed
qed

section \<open>Redaction\<close>

definition acceptable :: "unicode \<Rightarrow> ustr \<Rightarrow> bool" where
  "acceptable U s \<longleftrightarrow> isOk (bindE (nfc U ''invalid_url'' s) reject_ambiguous_url_source)"

text \<open>Two query fields that differ only in the value of a sensitive key.\<close>

definition same_public :: "unicode \<Rightarrow> ustr list \<Rightarrow> ustr \<times> ustr \<Rightarrow> ustr \<times> ustr \<Rightarrow> bool" where
  "same_public U sensitive p q \<longleftrightarrow>
    fst p = fst q \<and>
    (snd p = snd q \<or>
     acceptable U (snd p) \<and> acceptable U (snd q) \<and>
       (case nfc U ''invalid_url'' (fst p) of Inl _ \<Rightarrow> False | Inr key \<Rightarrow> sensitive_name U key sensitive))"

lemma normalize_pair_public:
  assumes "same_public U sensitive p q"
  shows "normalize_pair U sensitive True p = normalize_pair U sensitive True q"
proof (cases "snd p = snd q")
  case True
  then show ?thesis using assms by (simp add: same_public_def normalize_pair_def)
next
  case False
  then obtain key x y where "fst p = fst q" "nfc U ''invalid_url'' (fst q) = Inr key" "sensitive_name U key sensitive"
    "nfc U ''invalid_url'' (snd p) = Inr x" "reject_ambiguous_url_source x = Inr ()"
    "nfc U ''invalid_url'' (snd q) = Inr y" "reject_ambiguous_url_source y = Inr ()"
    using assms by (auto simp: same_public_def acceptable_def isOk_iff elim!: bindE_InrE split: sum.splits)
  then show ?thesis by (simp add: normalize_pair_def)
qed

lemma canonical_query_public:
  assumes "list_all2 (same_public U sensitive) ps qs"
  shows "canonical_query U sensitive True ps = canonical_query U sensitive True qs"
proof -
  have "mapE (normalize_pair U sensitive True) ps = mapE (normalize_pair U sensitive True) qs"
    using assms by (induction rule: list_all2_induct) (simp_all add: normalize_pair_public)
  then show ?thesis by (simp add: canonical_query_def)
qed

section \<open>Shape of a canonical URL\<close>

text \<open>A slash is never changed by normalisation: it is a starter and composes with no mark.\<close>

definition slash_stable :: "unicode \<Rightarrow> bool" where
  "slash_stable U \<longleftrightarrow> (\<forall>s. \<exists>t. nfc_form U (47 # s) = 47 # t)"

definition canonical_hostname :: "ustr \<Rightarrow> bool" where
  "canonical_hostname h \<longleftrightarrow> ipv4_address h \<noteq> None \<or> length h \<le> 253 \<and> list_all dns_label (split_on 46 h)"

lemma canonical_host_form: "canonical_host U E h = Inr x \<Longrightarrow> canonical_hostname x \<and> ascii x"
proof -
  assume "canonical_host U E h = Inr x"
  then obtain raw where a: "ascii raw" "x = map lower_ascii raw" "canonical_hostname x"
    by (auto simp: canonical_host_def canonical_hostname_def Let_def elim!: bindE_InrE split: if_splits option.splits)
  have "c < 128 \<Longrightarrow> lower_ascii c < 128" for c by (auto simp: lower_ascii_def is_upper_def)
  then show ?thesis using a by (auto simp: ascii_def list_all_iff)
qed

lemma canonical_port_range:
  assumes "canonical_port scheme netloc = Inr (Some p)"
  shows "0 < p" "p \<le> 65535" "scheme = lit ''http'' \<Longrightarrow> p \<noteq> 80" "scheme = lit ''https'' \<Longrightarrow> p \<noteq> 443"
  using assms by (auto simp: canonical_port_def split_port_def Let_def elim!: bindE_InrE split: if_splits)

lemma split_path_absolute:
  assumes "urlsplit E s = Some x" "su_netloc x \<noteq> []"
  shows "su_path x = [] \<or> hd (su_path x) = 47"
proof -
  obtain t where p: "su_path x = takeWhile (\<lambda>c. c \<noteq> 63) (takeWhile (\<lambda>c. c \<noteq> 35) (dropWhile (\<lambda>c. c \<notin> {47, 63, 35}) t))"
    using assms by (auto simp: urlsplit_def Let_def str_partition_def split: prod.splits if_splits)
  then show ?thesis
  proof (cases "dropWhile (\<lambda>c. c \<notin> {47, 63, 35}) t")
    case (Cons c cs)
    then have "c \<in> {47, 63, 35}" by (metis (no_types, lifting) dropWhile_eq_Cons_conv)
    then show ?thesis using p Cons by auto
  next
    case Nil
    show ?thesis unfolding p Nil by simp
  qed
qed

lemma upper_escapes_head: "c \<noteq> 37 \<Longrightarrow> upper_escapes (c # s) = c # upper_escapes s"
  by (cases s; cases "tl s") auto

lemma upper_escapes_ascii: "ascii s \<Longrightarrow> ascii (upper_escapes s)"
  by (induction s rule: upper_escapes.induct) (auto simp: ascii_def upper_hex_def)

lemma nfc_scalars: "nfc U c s = Inr t \<Longrightarrow> scalars t"
  by (auto simp: nfc_def Let_def split: if_splits)

lemma nfc_slash: "slash_stable U \<Longrightarrow> nfc U c (47 # s) = Inr n \<Longrightarrow> \<exists>t. n = 47 # t"
  by (auto simp: nfc_def slash_stable_def Let_def split: if_splits)

lemma normalize_component_slash:
  assumes "slash_stable U" "normalize_percent_component U path_safe (47 # s) = Inr p"
  obtains q where "p = 47 # q" "ascii q"
proof -
  obtain o1 n where n: "expand_percent (47 # s) = Inr o1" "nfc U ''invalid_url'' o1 = Inr n"
    "p = upper_escapes (quote_url (insert 37 path_safe) n)"
    using assms(2) by (auto simp: normalize_percent_component_def elim!: bindE_InrE split: if_splits)
  obtain o2 where "o1 = 47 # o2" using n(1) by (subst (asm) expand_percent.simps) (auto elim!: bindE_InrE)
  then obtain t where t: "n = 47 # t" using nfc_slash [OF assms(1)] n(2) by blast
  have "quote_byte (insert 37 path_safe) 47 = [47]" by (simp add: quote_byte_def path_safe_def lit_def)
  then have q: "quote_url (insert 37 path_safe) n = 47 # quote_url (insert 37 path_safe) t"
    unfolding t by (simp add: quote_url_def utf8_char_def)
  have sc: "scalars t" using nfc_scalars [OF n(2)] t by simp
  have "x < 128" if "x \<in> set (quote_url (insert 37 path_safe) t)" for x
    using quote_chars [OF sc that] always_safe_ascii by (auto simp: path_safe_def lit_def)
  then have "ascii (quote_url (insert 37 path_safe) t)" by (simp add: ascii_def list_all_iff)
  then show thesis using that [of "upper_escapes (quote_url (insert 37 path_safe) t)"] n(3) q
    by (simp add: upper_escapes_head upper_escapes_ascii)
qed

lemma dot_segments_form:
  "\<exists>q. remove_url_dot_segments (47 # p) = 47 # q \<and> list_all (\<lambda>s. \<not> is_dot s) (split_on 47 q) \<and> set q \<subseteq> insert 47 (set p)"
proof -
  let ?w = "walk_dots [] (split_on 47 p)"
  have c: "list_all (\<lambda>s. \<not> is_dot s \<and> 47 \<notin> set s \<and> set s \<subseteq> set p) ?w"
    by (rule walk_dots_all)
      (use split_on_no_sep split_on_chars in \<open>auto simp: is_dot_def lit_def list_all_iff\<close>)
  obtain s ss where w: "?w = s # ss" using walk_dots_nonempty [of "[]" "split_on 47 p"] by (cases ?w) auto
  have "list_all (\<lambda>s. 47 \<notin> set s) (s # ss)" using c w by (auto simp: list_all_iff)
  then have "split_on 47 (s @ render ss) = s # ss" by (rule split_render)
  moreover have "list_all (\<lambda>t. set t \<subseteq> set p) ts \<Longrightarrow> set (render ts) \<subseteq> insert 47 (set p)" for ts
    by (induction ts) auto
  then have "set (s @ render ss) \<subseteq> insert 47 (set p)" using c w by (auto simp: list_all_iff)
  ultimately show ?thesis using dot_segments_reference [of p] w c
    by (intro exI [of _ "s @ render ss"]) (auto simp: list_all_iff)
qed

lemma canonical_path_form:
  assumes "slash_stable U" "s = [] \<or> hd s = 47" "canonical_path U s = Inr p"
  shows "hd p = 47 \<and> p \<noteq> [] \<and> list_all (\<lambda>s. \<not> is_dot s) (split_on 47 (tl p)) \<and> ascii p"
proof -
  obtain r where r: "(if s = [] then lit ''/'' else s) = 47 # r" using assms(2) by (cases s) (auto simp: lit_def)
  then obtain n where n: "normalize_percent_component U path_safe (47 # r) = Inr n" "p = remove_url_dot_segments n"
    using assms(3) by (auto simp: canonical_path_def elim!: bindE_InrE)
  obtain q where q: "n = 47 # q" "ascii q" by (rule normalize_component_slash [OF assms(1) n(1)])
  obtain t where t: "p = 47 # t" "list_all (\<lambda>s. \<not> is_dot s) (split_on 47 t)" "set t \<subseteq> insert 47 (set q)"
    using dot_segments_form [of q] n(2) q(1) by blast
  have "ascii p" using t(1,3) q(2) by (auto simp: ascii_def list_all_iff)
  then show ?thesis using t by simp
qed

lemma normalize_pair_scalars:
  assumes "normalize_pair U sensitive redact p = Inr q"
  shows "scalars (fst q) \<and> scalars (snd q)"
proof -
  have "scalars REDACTED" by (simp add: REDACTED_def lit_def is_surrogate_def)
  then show ?thesis using assms nfc_scalars by (auto simp: normalize_pair_def elim!: bindE_InrE)
qed

lemma canonical_query_pairs:
  assumes "canonical_query U sensitive redact pairs = Inr query"
  obtains ps where "mapE (normalize_pair U sensitive redact) pairs = Inr ps" "query = urlencode (sort_key fst ps)"
    "\<forall>p \<in> set (sort_key fst ps). scalars (fst p) \<and> scalars (snd p)"
proof -
  obtain ps where ps: "mapE (normalize_pair U sensitive redact) pairs = Inr ps" "query = urlencode (sort_key fst ps)"
    using assms by (auto simp: canonical_query_def elim!: bindE_InrE)
  have "list_all2 (\<lambda>p q. normalize_pair U sensitive redact p = Inr q) pairs ps" using ps(1) by (simp only: mapE_Inr_iff)
  then have "\<forall>q \<in> set ps. scalars (fst q) \<and> scalars (snd q)"
    by (induction rule: list_all2_induct) (auto dest: normalize_pair_scalars)
  then show thesis using that ps by simp
qed

lemma urlencode_ascii:
  assumes "\<forall>p \<in> set ps. scalars (fst p) \<and> scalars (snd p)"
  shows "ascii (urlencode ps)"
proof -
  have "x < 128" if x: "x \<in> set (urlencode ps)" for x
  proof -
    consider "x = 38" | p where "p \<in> set ps" "x \<in> set (query_field p)"
      using join_parts_chars [OF x [unfolded urlencode_def]] by auto
    then show ?thesis
    proof cases
      case 2
      then show ?thesis using assms quoted_chars by (auto simp: query_field_def)
    qed simp
  qed
  then show ?thesis by (simp add: ascii_def list_all_iff)
qed

lemma query_text_parts:
  assumes "query_text U keys redact q = Inr query"
  obtains pairs sensitive where "parse_qsl q = Some pairs" "sensitive_names U (SENSITIVE_QUERY_KEYS @ keys) = Inr sensitive"
    "canonical_query U sensitive redact pairs = Inr query"
  using assms by (auto simp: query_text_def elim!: bindE_InrE split: option.splits)

lemma canonicalize_url_parts:
  assumes "canonicalize_url U E keys redact value = Inr u"
  obtains source x hostname host port path query where "urlsplit E source = Some x"
    "su_scheme x \<in> {lit ''http'', lit ''https''}" "split_hostname E (su_netloc x) = Some hostname"
    "canonical_host U E hostname = Inr host" "canonical_port (su_scheme x) (su_netloc x) = Inr port"
    "canonical_path U (su_path x) = Inr path" "query_text U keys redact (su_query x) = Inr query"
    "u = urlunsplit (su_scheme x) (case port of None \<Rightarrow> host | Some p \<Rightarrow> host @ 58 # digits10 p) path query"
  using assms unfolding canonicalize_url_def
  by (elim bindE_InrE) (auto elim!: bindE_InrE split: option.splits if_splits)

lemma hostname_netloc: "split_hostname E netloc = Some h \<Longrightarrow> netloc \<noteq> []"
  by (auto simp: split_hostname_def hostinfo_def str_rpartition_tail_def str_partition_def Let_def)

lemma digits10_ascii: "ascii (digits10 n)"
  using digits10_digits [of n] by (auto simp: ascii_def list_all_iff is_digit_def)

lemma canonical_url_form:
  assumes "slash_stable U" "canonicalize_url U E keys redact value = Inr u"
  shows "\<exists>scheme host port path query.
    u = urlunsplit scheme (case port of None \<Rightarrow> host | Some p \<Rightarrow> host @ 58 # digits10 p) path query \<and>
    (scheme = lit ''http'' \<or> scheme = lit ''https'') \<and> canonical_hostname host \<and>
    (\<forall>p. port = Some p \<longrightarrow> 0 < p \<and> p \<le> 65535 \<and> (scheme, p) \<notin> {(lit ''http'', 80), (lit ''https'', 443)}) \<and>
    hd path = 47 \<and> list_all (\<lambda>s. \<not> is_dot s) (split_on 47 (tl path)) \<and> ascii u"
proof -
  obtain source x hostname host port path query where x: "urlsplit E source = Some x"
    "su_scheme x \<in> {lit ''http'', lit ''https''}" "split_hostname E (su_netloc x) = Some hostname"
    "canonical_host U E hostname = Inr host" "canonical_port (su_scheme x) (su_netloc x) = Inr port"
    "canonical_path U (su_path x) = Inr path" "query_text U keys redact (su_query x) = Inr query"
    "u = urlunsplit (su_scheme x) (case port of None \<Rightarrow> host | Some p \<Rightarrow> host @ 58 # digits10 p) path query"
    by (rule canonicalize_url_parts [OF assms(2)])
  have path: "hd path = 47 \<and> path \<noteq> [] \<and> list_all (\<lambda>s. \<not> is_dot s) (split_on 47 (tl path)) \<and> ascii path"
    using canonical_path_form [OF assms(1) split_path_absolute [OF x(1) hostname_netloc [OF x(3)]] x(6)] .
  have host: "canonical_hostname host" "ascii host" using canonical_host_form [OF x(4)] by simp_all
  obtain ps where "query = urlencode ps" "\<forall>p \<in> set ps. scalars (fst p) \<and> scalars (snd p)"
    using query_text_parts [OF x(7)] canonical_query_pairs by metis
  then have query: "ascii query" using urlencode_ascii by blast
  have "ascii u"
    using x(2) path host(2) query digits10_ascii unfolding x(8) urlunsplit_def
    by (auto simp: ascii_def lit_def split: option.splits)
  moreover have "\<forall>p. port = Some p \<longrightarrow> 0 < p \<and> p \<le> 65535 \<and> (su_scheme x, p) \<notin> {(lit ''http'', 80), (lit ''https'', 443)}"
    using x(5) canonical_port_range [of "su_scheme x" "su_netloc x"] by auto
  moreover have "su_scheme x = lit ''http'' \<or> su_scheme x = lit ''https''" using x(2) by simp
  ultimately show ?thesis using x(8) path host(1) by blast
qed

section \<open>Concrete URLs\<close>

definition plain_env :: url_env where
  "plain_env = \<lparr>idna_decode = Some, idna_encode = Some, nfkc_form = (\<lambda>s. s), lower_form = (\<lambda>s. s)\<rparr>"

definition first_url :: ustr where "first_url = lit ''https://a.b:8443/x/../y?token=alpha&q=1''"
definition second_url :: ustr where "second_url = lit ''https://a.b:8443/x/../y?token=bravo&q=1''"

lemmas text_norm = nfc_def plain_unicode_def utf8_len_def utf8_char_def is_surrogate_def MAX_STRING_BYTES_def lit_def Let_def

lemma first_split:
  "nfc plain_unicode ''invalid_url'' first_url = Inr first_url" "reject_ambiguous_url_source first_url = Inr ()"
  "nfc plain_unicode ''invalid_url'' second_url = Inr second_url" "reject_ambiguous_url_source second_url = Inr ()"
  by (simp_all add: first_url_def second_url_def text_norm reject_ambiguous_url_source_def control_or_separator_def is_control_def)

definition first_parts :: split_url where
  "first_parts = \<lparr>su_scheme = lit ''https'', su_netloc = lit ''a.b:8443'', su_path = lit ''/x/../y'', su_query = lit ''token=alpha&q=1''\<rparr>"

lemma url_splits: "urlsplit plain_env first_url = Some first_parts"
  "urlsplit plain_env second_url = Some (first_parts\<lparr>su_query := lit ''token=bravo&q=1''\<rparr>)"
  by (simp_all add: urlsplit_def first_url_def second_url_def first_parts_def split_scheme_def str_partition_def scheme_char_def
    is_alnum_def is_lower_def is_upper_def is_digit_def lower_ascii_def netloc_ok_def ascii_def lit_def Let_def)

lemma url_queries:
  "validate_percent_encoding (lit ''token=alpha&q=1'') = Inr ()" "validate_percent_encoding (lit ''token=bravo&q=1'') = Inr ()"
  by (simp_all add: lit_def)

lemma unquote_letters: "list_all is_alnum s \<Longrightarrow> unquote (plus_to_space s) = Some s"
proof -
  assume a: "list_all is_alnum s"
  have p: "plus_to_space s = s"
    unfolding plus_to_space_def by (rule map_idI) (use a in \<open>auto simp: list_all_iff is_alnum_def is_lower_def is_upper_def is_digit_def\<close>)
  have h: "ascii s" "37 \<notin> set s" using a by (auto simp: ascii_def list_all_iff is_alnum_def is_lower_def is_upper_def is_digit_def)
  then have "unquote_bytes s = s" by (induction s) (simp_all add: unquote_bytes_plain ascii_def)
  moreover have "utf8_decode s = Some s" using h(1) by (induction s) (simp_all add: ascii_def)
  ultimately show ?thesis using p unquote_ascii [OF h(1)] by simp
qed

lemma url_pairs:
  "parse_qsl (lit ''token=alpha&q=1'') = Some [(lit ''token'', lit ''alpha''), (lit ''q'', lit ''1'')]"
  "parse_qsl (lit ''token=bravo&q=1'') = Some [(lit ''token'', lit ''bravo''), (lit ''q'', lit ''1'')]"
  by (simp_all add: parse_qsl_def str_partition_def lit_def unquote_letters is_alnum_def is_lower_def is_upper_def is_digit_def)

lemma sensitive_token:
  assumes "sensitive_names plain_unicode (SENSITIVE_QUERY_KEYS @ keys) = Inr sensitive"
  shows "sensitive_name plain_unicode (lit ''token'') sensitive"
proof -
  have n: "normalize_sensitive_name plain_unicode (lit ''token'') = Inr (lit ''token'')"
    by (simp add: normalize_sensitive_name_def text_norm py_strip_def py_space_def ascii_def lower_ascii_def is_upper_def
      sensitive_name_pattern_def is_lower_alnum_def is_lower_def)
  obtain m r where m: "mapE (normalize_sensitive_name plain_unicode) SENSITIVE_NAMES = Inr m" "sensitive = m @ r"
    using assms by (auto simp: sensitive_names_def elim!: bindE_InrE)
  have l: "list_all2 (\<lambda>x y. normalize_sensitive_name plain_unicode x = Inr y) SENSITIVE_NAMES m" using m(1) by (simp only: mapE_Inr_iff)
  have "lit ''token'' \<in> set SENSITIVE_NAMES" by (simp add: SENSITIVE_NAMES_def)
  then have "lit ''token'' \<in> set m" using l n unfolding list_all2_conv_all_nth in_set_conv_nth by (metis Inr_inject)
  then show ?thesis using n m(2) by (simp add: sensitive_name_def)
qed

lemma sensitive_defaults: "isOk (sensitive_names plain_unicode SENSITIVE_QUERY_KEYS)"
  by (simp add: sensitive_names_def SENSITIVE_NAMES_def SENSITIVE_QUERY_KEYS_def normalize_sensitive_name_def text_norm py_strip_def
    py_space_def ascii_def lower_ascii_def is_upper_def sensitive_name_pattern_def is_lower_alnum_def is_lower_def)

lemma plain_slash: "slash_stable plain_unicode"
  by (simp add: slash_stable_def plain_unicode_def)

lemma first_host: "split_hostname plain_env (lit ''a.b:8443'') = Some (lit ''a.b'')" "canonical_host plain_unicode plain_env (lit ''a.b'') = Inr (lit ''a.b'')"
  by (simp_all add: split_hostname_def hostinfo_def str_rpartition_tail_def str_partition_def py_lower_def canonical_host_def ascii_def
    lower_ascii_def is_upper_def text_norm ipv4_address_def AMBIGUOUS_NUMERIC_HOST_def numeric_part_def dns_label_def check_a_label_def
    is_lower_alnum_def is_lower_def is_digit_def)

lemma first_port: "canonical_port (lit ''https'') (lit ''a.b:8443'') = Inr (Some 8443)"
  by (simp add: canonical_port_def split_port_def hostinfo_def str_rpartition_tail_def str_partition_def val10_def is_digit_def lit_def Let_def)

lemma first_path: "isOk (canonical_path plain_unicode (lit ''/x/../y''))"
  by (simp add: canonical_path_def normalize_percent_component_def text_norm control_or_separator_def is_control_def)

lemma first_query:
  assumes "\<forall>p \<in> set ps. acceptable plain_unicode (fst p) \<and> acceptable plain_unicode (snd p)"
  shows "isOk (canonical_query plain_unicode sensitive redact ps)"
proof -
  have "isOk (mapE (normalize_pair plain_unicode sensitive redact) ps)"
    using assms by (induction ps) (auto simp: normalize_pair_def acceptable_def isOk_bindE isOk_iff elim!: bindE_InrE)
  then show ?thesis by (auto simp: canonical_query_def isOk_iff)
qed

lemma first_pairs_acceptable:
  "\<forall>p \<in> set [(lit ''token'', lit ''alpha''), (lit ''q'', lit ''1'')]. acceptable plain_unicode (fst p) \<and> acceptable plain_unicode (snd p)"
  by (simp add: acceptable_def text_norm reject_ambiguous_url_source_def control_or_separator_def is_control_def)

lemma first_query_text: "isOk (query_text plain_unicode [] True (lit ''token=alpha&q=1''))"
  using sensitive_defaults first_query [OF first_pairs_acceptable] by (auto simp: query_text_def url_queries url_pairs isOk_iff)

lemma first_canonical: "isOk (canonicalize_url plain_unicode plain_env [] True first_url)"
proof -
  obtain path query where "canonical_path plain_unicode (su_path first_parts) = Inr path"
    "query_text plain_unicode [] True (su_query first_parts) = Inr query"
    using first_path first_query_text by (auto simp: isOk_iff first_parts_def)
  moreover have "su_scheme first_parts = lit ''https''" "su_netloc first_parts = lit ''a.b:8443''" by (simp_all add: first_parts_def)
  moreover have "set (lit ''a.b:8443'') \<inter> {64, 37, 91, 93} = {}" by (simp add: lit_def)
  ultimately show ?thesis
    by (simp add: canonicalize_url_def first_split url_splits first_host first_port)
qed

section \<open>Properties\<close>



text \<open>
  C30: Redaction does not leak: two URLs that differ only in the values of sensitive query keys have the same canonical
  diagnostic URL.
\<close>

theorem url_redacts_secrets:
  assumes "nfc U ''invalid_url'' a = Inr sa" "reject_ambiguous_url_source sa = Inr ()" "urlsplit E sa = Some x"
    "nfc U ''invalid_url'' b = Inr sb" "reject_ambiguous_url_source sb = Inr ()" "urlsplit E sb = Some (x\<lparr>su_query := q\<rparr>)"
    "validate_percent_encoding (su_query x) = Inr ()" "validate_percent_encoding q = Inr ()"
    "parse_qsl (su_query x) = Some ps" "parse_qsl q = Some qs"
    "sensitive_names U (SENSITIVE_QUERY_KEYS @ keys) = Inr sensitive" "list_all2 (same_public U sensitive) ps qs"
  shows "canonicalize_url U E keys True a = canonicalize_url U E keys True b"
proof -
  have "query_text U keys True (su_query x) = query_text U keys True q"
    using canonical_query_public [OF assms(12)] assms(7-11) by (simp add: query_text_def)
  then show ?thesis
    using assms(1-6) by (simp add: canonicalize_url_def cong del: if_weak_cong option.case_cong_weak)
qed

theorem url_redacts_secrets_witness:
  "first_url \<noteq> second_url \<and>
   canonicalize_url plain_unicode plain_env [] True first_url = canonicalize_url plain_unicode plain_env [] True second_url"
proof -
  obtain sensitive where s: "sensitive_names plain_unicode (SENSITIVE_QUERY_KEYS @ []) = Inr sensitive"
    using sensitive_defaults by (auto simp: isOk_iff)
  have "list_all2 (same_public plain_unicode sensitive) [(lit ''token'', lit ''alpha''), (lit ''q'', lit ''1'')]
      [(lit ''token'', lit ''bravo''), (lit ''q'', lit ''1'')]"
    using sensitive_token [OF s]
    by (simp add: same_public_def acceptable_def text_norm reject_ambiguous_url_source_def control_or_separator_def is_control_def)
  then have "canonicalize_url plain_unicode plain_env [] True first_url = canonicalize_url plain_unicode plain_env [] True second_url"
    using url_redacts_secrets [OF first_split(1,2) url_splits(1) first_split(3,4) url_splits(2) _ _ _ _ s] url_queries url_pairs
    by (simp add: first_parts_def)
  moreover have "first_url \<noteq> second_url" by (simp add: first_url_def second_url_def)
  ultimately show ?thesis by blast
qed

text \<open>
  The canonical query loses nothing: parsing it gives back exactly the normalised pairs in their canonical order, so
  different pairs have different canonical queries.
\<close>

theorem canonical_query_roundtrip:
  assumes "canonical_query U sensitive redact pairs = Inr query"
  shows "\<exists>ps. mapE (normalize_pair U sensitive redact) pairs = Inr ps \<and> parse_qsl query = Some (sort_key fst ps)"
proof -
  obtain ps where "mapE (normalize_pair U sensitive redact) pairs = Inr ps" "query = urlencode (sort_key fst ps)"
    "\<forall>p \<in> set (sort_key fst ps). scalars (fst p) \<and> scalars (snd p)"
    by (rule canonical_query_pairs [OF assms])
  then show ?thesis using parse_urlencode by blast
qed

theorem canonical_query_roundtrip_witness:
  "\<exists>query ps. canonical_query plain_unicode [] True [(lit ''token'', lit ''alpha''), (lit ''q'', lit ''1'')] = Inr query \<and>
    parse_qsl query = Some ps"
proof -
  obtain query where q: "canonical_query plain_unicode [] True [(lit ''token'', lit ''alpha''), (lit ''q'', lit ''1'')] = Inr query"
    using first_query [OF first_pairs_acceptable] by (auto simp: isOk_iff)
  show ?thesis using q canonical_query_roundtrip [OF q] by blast
qed

end
