(* ===== verification/Canonical_Shell.thy ===== *)
theory Canonical_Shell
  imports Canonical_Url Canonical_Path Canonical_Scope
begin

text \<open>
  Shell commands, MCP tools and prepared resources of \<open>protocol/reference/canonicalize.py\<close>: the
  tokeniser of the standard library that the code calls, the redaction of tokens, and the pairs
  of a canonical resource and the value an adapter executes.
\<close>

section \<open>Shell tokens\<close>

text \<open>
  \<open>shlex.split\<close> in POSIX mode without comments: the state of \<open>read_token\<close> with the state to return
  to after an escape, the current token, and whether it was quoted.
\<close>

datatype lex_state = InSpace | InWord | InQuote nat | InEscape lex_state

definition shell_space :: "nat \<Rightarrow> bool" where
  "shell_space c \<longleftrightarrow> c = 32 \<or> c = 9 \<or> c = 13 \<or> c = 10"

definition emit :: "ustr \<Rightarrow> bool \<Rightarrow> ustr list" where
  "emit token quoted = (if token \<noteq> [] \<or> quoted then [token] else [])"

fun read_tokens :: "lex_state \<Rightarrow> ustr \<Rightarrow> bool \<Rightarrow> ustr \<Rightarrow> ustr list option" where
  "read_tokens InSpace token quoted [] = Some (emit token quoted)"
| "read_tokens InWord token quoted [] = Some (emit token quoted)"
| "read_tokens (InQuote q) token quoted [] = None"
| "read_tokens (InEscape r) token quoted [] = None"
| "read_tokens InSpace token quoted (c # cs) =
    (if shell_space c then map_option ((@) (emit token quoted)) (read_tokens InSpace [] False cs)
     else if c = 92 then read_tokens (InEscape InWord) token quoted cs
     else if c = 39 \<or> c = 34 then read_tokens (InQuote c) token quoted cs
     else read_tokens InWord [c] quoted cs)"
| "read_tokens InWord token quoted (c # cs) =
    (if shell_space c then map_option ((@) (emit token quoted)) (read_tokens InSpace [] False cs)
     else if c = 39 \<or> c = 34 then read_tokens (InQuote c) token quoted cs
     else if c = 92 then read_tokens (InEscape InWord) token quoted cs
     else read_tokens InWord (token @ [c]) quoted cs)"
| "read_tokens (InQuote q) token quoted (c # cs) =
    (if c = q then read_tokens InWord token True cs
     else if c = 92 \<and> q = 34 then read_tokens (InEscape (InQuote q)) token True cs
     else read_tokens (InQuote q) (token @ [c]) True cs)"
| "read_tokens (InEscape r) token quoted (c # cs) =
    (let kept = (case r of InQuote q \<Rightarrow> c \<noteq> 92 \<and> c \<noteq> q | _ \<Rightarrow> False) in
     read_tokens r (token @ (if kept then [92, c] else [c])) quoted cs)"

definition shlex_split :: "ustr \<Rightarrow> ustr list option" where
  "shlex_split s = read_tokens InSpace [] False s"

section \<open>Redaction\<close>

definition redact_header :: "url_env \<Rightarrow> ustr \<Rightarrow> ustr" where
  "redact_header E value =
    (let (name, separator, _) = str_partition 58 value in
     if separator \<and> py_lower E (py_strip name) \<in> set (map lit [''authorization'', ''cookie'', ''proxy-authorization'', ''set-cookie''])
     then py_strip name @ lit '': '' @ REDACTED
     else value)"

definition is_http :: "url_env \<Rightarrow> ustr \<Rightarrow> bool" where
  "is_http E token \<longleftrightarrow> take 7 (py_lower E token) = lit ''http://'' \<or> take 8 (py_lower E token) = lit ''https://''"

text \<open>One token outside a pending value: the text shown, and whether the next token is a secret or a header.\<close>

definition redact_token :: "unicode \<Rightarrow> url_env \<Rightarrow> ustr list \<Rightarrow> ustr \<Rightarrow> ustr \<times> bool \<times> bool" where
  "redact_token U E names token =
    (if token = lit ''-H'' \<or> token = lit ''--header'' then (token, False, True)
     else if take 9 token = lit ''--header='' then (lit ''--header='' @ REDACTED, False, False)
     else if take 2 token = lit ''-H'' \<and> length token > 2 then (lit ''-H'' @ REDACTED, False, False)
     else
       let (name, separator, _) = str_partition 61 token in
       if separator \<and> sensitive_name U name names then (name @ lit ''='' @ REDACTED, False, False)
       else if sensitive_name U token names then (token, True, False)
       else if is_http E token then
         ((case canonicalize_url U E names True token of Inl _ \<Rightarrow> lit ''[URL]'' | Inr u \<Rightarrow> u), False, False)
       else (redact_header E token, False, False))"

fun redact_shell_tokens :: "unicode \<Rightarrow> url_env \<Rightarrow> ustr list \<Rightarrow> bool \<Rightarrow> bool \<Rightarrow> ustr list \<Rightarrow> ustr list" where
  "redact_shell_tokens U E names redact_next header_next [] = (if redact_next \<or> header_next then [REDACTED] else [])"
| "redact_shell_tokens U E names redact_next header_next (token # tokens) =
    (if redact_next then REDACTED # redact_shell_tokens U E names False header_next tokens
     else if header_next then REDACTED # redact_shell_tokens U E names redact_next False tokens
     else let (shown, r, h) = redact_token U E names token in shown # redact_shell_tokens U E names r h tokens)"

record shell_resource =
  sh_command_hash :: ustr
  sh_tokens :: "ustr list"

definition canonicalize_shell :: "unicode \<Rightarrow> url_env \<Rightarrow> (bytes \<Rightarrow> ustr) \<Rightarrow> ustr list \<Rightarrow> ustr \<Rightarrow> code + shell_resource" where
  "canonicalize_shell U E H additional_sensitive_names command =
    bindE (nfc U ''invalid_shell_command'' command) (\<lambda>normalized.
    bindE (sensitive_names U additional_sensitive_names) (\<lambda>names.
      Inr \<lparr>sh_command_hash = lit ''sha256:'' @ H (utf8 normalized),
        sh_tokens = (case shlex_split normalized of
          None \<Rightarrow> [lit ''[UNPARSEABLE]'']
        | Some tokens \<Rightarrow> redact_shell_tokens U E names False False tokens)\<rparr>))"

section \<open>MCP tools\<close>

definition MCP_NAME :: "ustr \<Rightarrow> bool" where
  "MCP_NAME s \<longleftrightarrow> s \<noteq> [] \<and> length s \<le> 128 \<and> is_alnum (hd s) \<and> list_all (\<lambda>c. is_alnum c \<or> c = 46 \<or> c = 95 \<or> c = 45) s"

definition canonicalize_mcp :: "unicode \<Rightarrow> (bytes \<Rightarrow> ustr) \<Rightarrow> ustr \<Rightarrow> ustr \<Rightarrow> pyval \<Rightarrow> code + ustr" where
  "canonicalize_mcp U H server tool tool_input =
    bindE (nfc U ''invalid_mcp_name'' server) (\<lambda>s.
    bindE (nfc U ''invalid_mcp_name'' tool) (\<lambda>t.
    if \<not> MCP_NAME s \<or> \<not> MCP_NAME t then Inl ''invalid_mcp_name''
    else bindE (canonical_hash U H tool_input) (\<lambda>h. Inr (lit ''mcp:'' @ s @ [47] @ t @ [35] @ h))))"

section \<open>Prepared resources\<close>

definition prepare_path_resource :: "unicode \<Rightarrow> ustr \<Rightarrow> ustr \<Rightarrow> code + ustr prepared_resource" where
  "prepare_path_resource U path cwd =
    bindE (canonicalize_path U path cwd) (\<lambda>execution.
      Inr \<lparr>pr_resource = lit ''path:'' @ execution, pr_execution = execution\<rparr>)"

text \<open>Canonical bytes, decoded as text.\<close>

definition json_text :: "unicode \<Rightarrow> json \<Rightarrow> code + ustr" where
  "json_text U j =
    bindE (canonical_json U (to_value [] j)) (\<lambda>b. case utf8_decode b of None \<Rightarrow> Inl ''UnicodeDecodeError'' | Some t \<Rightarrow> Inr t)"

definition url_execution_json :: "ustr \<Rightarrow> json" where
  "url_execution_json execution =
    JObj (req ''preimageType'' (JStr (lit ''palonexus.url-execution'')) @ req ''preimageVersion'' (JStr (lit ''1'')) @
      req ''url'' (JStr execution))"

definition prepare_url_resource :: "unicode \<Rightarrow> url_env \<Rightarrow> (bytes \<Rightarrow> ustr) \<Rightarrow> ustr list \<Rightarrow> ustr \<Rightarrow> code + ustr prepared_resource" where
  "prepare_url_resource U E H sensitive_query_keys value =
    bindE (canonicalize_url U E sensitive_query_keys False value) (\<lambda>execution.
    bindE (canonicalize_url U E sensitive_query_keys True value) (\<lambda>diagnostic_url.
    bindE (canonical_hash U H (to_value [] (url_execution_json execution))) (\<lambda>h.
    bindE (json_text U (JObj (req ''executionHash'' (JStr h) @ req ''url'' (JStr diagnostic_url)))) (\<lambda>resource.
      Inr \<lparr>pr_resource = resource, pr_execution = execution\<rparr>))))"

definition shell_json :: "shell_resource \<Rightarrow> json" where
  "shell_json r = JObj (req ''commandHash'' (JStr (sh_command_hash r)) @ req ''tokens'' (JArr (map JStr (sh_tokens r))))"

definition prepare_shell_resource :: "unicode \<Rightarrow> url_env \<Rightarrow> (bytes \<Rightarrow> ustr) \<Rightarrow> ustr list \<Rightarrow> ustr \<Rightarrow> code + ustr prepared_resource" where
  "prepare_shell_resource U E H additional_sensitive_names command =
    bindE (nfc U ''invalid_shell_command'' command) (\<lambda>execution.
    bindE (canonicalize_shell U E H additional_sensitive_names execution) (\<lambda>safe_resource.
    bindE (json_text U (shell_json safe_resource)) (\<lambda>resource.
      Inr \<lparr>pr_resource = resource, pr_execution = execution\<rparr>)))"

section \<open>Redaction of tokens\<close>

text \<open>Which of the two pending flags are set after a prefix of the tokens.\<close>

fun flags_after :: "unicode \<Rightarrow> url_env \<Rightarrow> ustr list \<Rightarrow> bool \<Rightarrow> bool \<Rightarrow> ustr list \<Rightarrow> bool \<times> bool" where
  "flags_after U E names r h [] = (r, h)"
| "flags_after U E names r h (token # tokens) =
    (if r then flags_after U E names False h tokens
     else if h then flags_after U E names r False tokens
     else let (_, r', h') = redact_token U E names token in flags_after U E names r' h' tokens)"

lemma redact_suffix:
  assumes "\<And>r h. (r, h) = flags_after U E names r0 h0 xs \<Longrightarrow> redact_shell_tokens U E names r h ys = redact_shell_tokens U E names r h zs"
  shows "redact_shell_tokens U E names r0 h0 (xs @ ys) = redact_shell_tokens U E names r0 h0 (xs @ zs)"
  using assms
proof (induction xs arbitrary: r0 h0)
  case (Cons x xs)
  then show ?case by (auto simp: Let_def split: prod.splits)
qed simp

lemma redact_flag_value:
  assumes "sensitive_name U name names" "61 \<notin> set name" "take 2 name \<noteq> lit ''-H'' \<or> name = lit ''-H''"
  shows "redact_shell_tokens U E names False False (name # s # ys) = redact_shell_tokens U E names False False (name # t # ys)"
proof -
  have "take 9 name \<noteq> lit ''--header=''"
  proof
    assume "take 9 name = lit ''--header=''"
    then have "61 \<in> set (take 9 name)" by (simp add: lit_def)
    then show False using assms(2) in_set_takeD by fastforce
  qed
  then show ?thesis using assms by (auto simp: redact_token_def str_partition_def Let_def)
qed

lemma redact_assignment:
  assumes "sensitive_name U name names" "61 \<notin> set name"
  shows "redact_token U E names (name @ 61 # s) = redact_token U E names (name @ 61 # t)"
proof -
  have p: "str_partition 61 (name @ 61 # v) = (name, True, v)" for v using assms(2) by (rule partition_first)
  have h: "name @ 61 # v \<noteq> lit ''-H''" "name @ 61 # v \<noteq> lit ''--header''" for v
  proof -
    have "61 \<in> set (name @ 61 # v)" by simp
    moreover have "61 \<notin> set (lit ''-H'')" "61 \<notin> set (lit ''--header'')" by (simp_all add: lit_def)
    ultimately show "name @ 61 # v \<noteq> lit ''-H''" "name @ 61 # v \<noteq> lit ''--header''" by metis+
  qed
  have t9: "take 9 (name @ 61 # v) = lit ''--header='' \<longleftrightarrow> name = lit ''--header''" for v
  proof
    assume a: "take 9 (name @ 61 # v) = lit ''--header=''"
    have "length name = 8"
    proof (rule ccontr)
      assume n: "length name \<noteq> 8"
      show False
      proof (cases "length name < 8")
        case True
        then have "take 9 (name @ 61 # v) ! length name = 61" by (simp add: nth_append)
        then show False using a True by (auto simp: lit_def nth_Cons' less_Suc_eq numeral_eq_Suc split: if_splits)
      next
        case False
        then have "name ! 8 = 61" "8 < length name" using a n
          by (auto simp: lit_def dest: arg_cong [where f = "\<lambda>l. l ! 8"])
        then show False using assms(2) by (metis nth_mem)
      qed
    qed
    then show "name = lit ''--header''" using a by (simp add: lit_def)
  qed (simp add: lit_def)
  have t2: "take 2 (name @ 61 # v) = lit ''-H'' \<longleftrightarrow> take 2 name = lit ''-H''" for v
    by (cases name; cases "tl name") (auto simp: lit_def)
  have l2: "take 2 name = lit ''-H'' \<Longrightarrow> length (name @ 61 # v) > 2" for v using take_eq_length [of 2 name] by (fastforce simp: lit_def)
  show ?thesis unfolding redact_token_def using p h t9 t2 l2 assms(1) by (simp add: Let_def)
qed

section \<open>Resources determine what is executed\<close>

lemma text_agree:
  assumes "json_text U a = Inr t" "json_text U b = Inr t"
  shows "agree U a b"
proof -
  have inv: "\<exists>x. canonical_json U (to_value [] j) = Inr x \<and> x = utf8 t" if j: "json_text U j = Inr t" for j
  proof -
    obtain x where x: "canonical_json U (to_value [] j) = Inr x" "utf8_decode x = Some t"
      using j by (auto simp: json_text_def elim!: bindE_InrE split: option.splits)
    obtain tx where "x = utf8 tx" "scalars tx" using canonical_json_parts [OF x(1)] by metis
    then show ?thesis using x utf8_decode_utf8 by force
  qed
  then obtain x where "canonical_json U (to_value [] a) = Inr x" "canonical_json U (to_value [] b) = Inr x"
    using assms by blast
  then have "canonical_hash U plain_digest (to_value [] a) = Inr (lit ''sha256:'' @ x)"
    "canonical_hash U plain_digest (to_value [] b) = Inr (lit ''sha256:'' @ x)"
    by (simp_all add: canonical_hash_def plain_digest_def)
  then show ?thesis by (rule hash_agree [OF plain_no_collision])
qed

lemma agree_text_member:
  assumes "unicode_laws U" "agree U (JObj xs) (JObj ys)" "ascii_keys xs" "ascii_keys ys"
    "lookup xs k = Some (JStr s)" "lookup ys k = Some (JStr t)" "ascii s" "ascii t"
  shows "s = t"
  using agree_lookup [OF assms(1-4), of k] assms(5-8) rel_str [OF assms(1)] by simp

lemma utf8_inj: "scalars s \<Longrightarrow> scalars t \<Longrightarrow> utf8 s = utf8 t \<Longrightarrow> s = t"
  using utf8_decode_utf8 by (metis option.inject)

lemma shell_resource_binding:
  assumes "unicode_laws U" "prepare_shell_resource U E H names a = Inr p" "prepare_shell_resource U E H names b = Inr q"
    "pr_resource p = pr_resource q" "ascii (H (utf8 (pr_execution p)))" "ascii (H (utf8 (pr_execution q)))"
    "H (utf8 (pr_execution p)) = H (utf8 (pr_execution q)) \<longrightarrow> utf8 (pr_execution p) = utf8 (pr_execution q)"
  shows "pr_execution p = pr_execution q"
proof -
  have parts: "\<exists>r. json_text U (shell_json r) = Inr (pr_resource x) \<and> sh_command_hash r = lit ''sha256:'' @ H (utf8 (pr_execution x)) \<and>
      scalars (pr_execution x)" if x: "prepare_shell_resource U E H names c = Inr x" for c x
  proof -
    obtain e r t where r: "nfc U ''invalid_shell_command'' c = Inr e" "canonicalize_shell U E H names e = Inr r"
      "json_text U (shell_json r) = Inr t" "x = \<lparr>pr_resource = t, pr_execution = e\<rparr>"
      using x unfolding prepare_shell_resource_def bindE_Inr_iff by blast
    have "nfc U ''invalid_shell_command'' e = Inr e" using nfc_fixed [OF assms(1) r(1)] .
    then have "sh_command_hash r = lit ''sha256:'' @ H (utf8 e)" using r(2) by (auto simp: canonicalize_shell_def elim!: bindE_InrE)
    then show ?thesis using r nfc_scalars [OF r(1)] by auto
  qed
  obtain r where r: "json_text U (shell_json r) = Inr (pr_resource p)" "sh_command_hash r = lit ''sha256:'' @ H (utf8 (pr_execution p))"
    "scalars (pr_execution p)" using parts [OF assms(2)] by blast
  obtain s where s: "json_text U (shell_json s) = Inr (pr_resource q)" "sh_command_hash s = lit ''sha256:'' @ H (utf8 (pr_execution q))"
    "scalars (pr_execution q)" using parts [OF assms(3)] by blast
  have "agree U (shell_json r) (shell_json s)" using text_agree r(1) s(1) assms(4) by simp
  then have "sh_command_hash r = sh_command_hash s"
    unfolding shell_json_def
    by (rule agree_text_member [OF assms(1), where k = "''commandHash''"])
      (use assms(5,6) r(2) s(2) in \<open>simp_all add: ascii_keys_def req_def ascii_lit_append\<close>)
  then show ?thesis using r(2,3) s(2,3) assms(7) utf8_inj by simp
qed

lemma url_resource_binding:
  assumes "unicode_laws U" "slash_stable U" "prepare_url_resource U E H keys a = Inr p" "prepare_url_resource U E H keys b = Inr q"
    "pr_resource p = pr_resource q" "\<forall>x. ascii (H x)"
    "no_collision U H (url_execution_json (pr_execution p)) (url_execution_json (pr_execution q))"
  shows "pr_execution p = pr_execution q"
proof -
  have parts: "\<exists>h d. canonical_hash U H (to_value [] (url_execution_json (pr_execution x))) = Inr h \<and> ascii h \<and> ascii (pr_execution x) \<and>
      json_text U (JObj (req ''executionHash'' (JStr h) @ req ''url'' (JStr d))) = Inr (pr_resource x)"
    if x: "prepare_url_resource U E H keys c = Inr x" for c x
  proof -
    obtain e d h t where e: "canonicalize_url U E keys False c = Inr e" "canonical_hash U H (to_value [] (url_execution_json e)) = Inr h"
      "json_text U (JObj (req ''executionHash'' (JStr h) @ req ''url'' (JStr d))) = Inr t" "x = \<lparr>pr_resource = t, pr_execution = e\<rparr>"
      using x unfolding prepare_url_resource_def bindE_Inr_iff by blast
    have "ascii e" using canonical_url_form [OF assms(2) e(1)] by blast
    moreover have "ascii h" using e(2) assms(6) by (auto simp: canonical_hash_def ascii_lit_append elim!: bindE_InrE)
    ultimately show ?thesis using e by auto
  qed
  obtain h d where p: "canonical_hash U H (to_value [] (url_execution_json (pr_execution p))) = Inr h" "ascii h" "ascii (pr_execution p)"
    "json_text U (JObj (req ''executionHash'' (JStr h) @ req ''url'' (JStr d))) = Inr (pr_resource p)" using parts [OF assms(3)] by blast
  obtain g f where q: "canonical_hash U H (to_value [] (url_execution_json (pr_execution q))) = Inr g" "ascii g" "ascii (pr_execution q)"
    "json_text U (JObj (req ''executionHash'' (JStr g) @ req ''url'' (JStr f))) = Inr (pr_resource q)" using parts [OF assms(4)] by blast
  have "agree U (JObj (req ''executionHash'' (JStr h) @ req ''url'' (JStr d))) (JObj (req ''executionHash'' (JStr g) @ req ''url'' (JStr f)))"
    using text_agree p(4) q(4) assms(5) by simp
  then have "h = g"
    by (rule agree_text_member [OF assms(1), where k = "''executionHash''"])
      (use p(2) q(2) in \<open>simp_all add: ascii_keys_def req_def\<close>)
  then have "agree U (url_execution_json (pr_execution p)) (url_execution_json (pr_execution q))"
    using hash_agree [OF assms(7)] p(1) q(1) by blast
  then show ?thesis
    unfolding url_execution_json_def
    by (rule agree_text_member [OF assms(1), where k = "''url''"])
      (use p(3) q(3) in \<open>simp_all add: ascii_keys_def req_def\<close>)
qed

section \<open>A concrete command\<close>

definition sample_command :: ustr where "sample_command = lit ''ls''"

lemma command_names: "\<exists>names. sensitive_names plain_unicode [] = Inr names \<and> \<not> sensitive_name plain_unicode sample_command names"
proof -
  have n: "normalize_sensitive_name plain_unicode (lit ''ls'') = Inr (lit ''ls'')"
    by (simp add: normalize_sensitive_name_def text_norm py_strip_def py_space_def ascii_def lower_ascii_def is_upper_def
      sensitive_name_pattern_def is_lower_alnum_def is_lower_def)
  have "sensitive_names plain_unicode [] = Inr (map lit [''access-key'', ''access-key'', ''api-key'', ''api-key'', ''authorization'', ''cookie'',
      ''password'', ''secret'', ''token''])"
    by (simp add: sensitive_names_def SENSITIVE_NAMES_def normalize_sensitive_name_def text_norm py_strip_def py_space_def ascii_def
      lower_ascii_def is_upper_def sensitive_name_pattern_def is_lower_alnum_def is_lower_def)
  then show ?thesis using n by (auto simp: sensitive_name_def sample_command_def)
qed

lemma command_tokens: "shlex_split sample_command = Some [sample_command]"
  by (simp add: shlex_split_def sample_command_def lit_def shell_space_def emit_def)

lemma command_prepared: "isOk (prepare_shell_resource plain_unicode plain_env plain_digest [] sample_command)"
proof -
  obtain names where n: "sensitive_names plain_unicode [] = Inr names" "\<not> sensitive_name plain_unicode sample_command names"
    using command_names by blast
  have t: "redact_token plain_unicode plain_env names sample_command = (sample_command, False, False)"
    using n(2) unfolding sample_command_def
    by (simp add: redact_token_def str_partition_def is_http_def redact_header_def py_lower_def ascii_def lit_def lower_ascii_def is_upper_def)
  have c: "nfc plain_unicode ''invalid_shell_command'' sample_command = Inr sample_command" by (simp add: sample_command_def text_norm)
  have "canonicalize_shell plain_unicode plain_env plain_digest [] sample_command =
      Inr \<lparr>sh_command_hash = lit ''sha256:'' @ utf8 sample_command, sh_tokens = [sample_command]\<rparr>"
    by (simp add: canonicalize_shell_def c n(1) command_tokens t plain_digest_def)
  moreover have "isOk (json_text plain_unicode (shell_json \<lparr>sh_command_hash = lit ''sha256:'' @ utf8 sample_command, sh_tokens = [sample_command]\<rparr>))"
  proof -
    obtain b where b: "canonical_json plain_unicode (to_value [] (shell_json \<lparr>sh_command_hash = lit ''sha256:'' @ utf8 sample_command, sh_tokens = [sample_command]\<rparr>)) = Inr b"
      by (simp add: shell_json_def sample_command_def scope_eval)
    obtain tx where "b = utf8 tx" "scalars tx" using canonical_json_parts [OF b] by metis
    then show ?thesis using b utf8_decode_utf8 by (simp add: json_text_def)
  qed
  ultimately show ?thesis using c by (auto simp: prepare_shell_resource_def isOk_iff)
qed

section \<open>Properties\<close>





end
