(* ===== verification/Identifiers.thy ===== *)
theory Identifiers
  imports Wire_Strings
begin

text \<open>
  The protocol identifiers of \<open>python/src/palonexus/context.py\<close>: the ULID encoding and the monotonic
  generator.  The clock, the entropy source and the process identifier are inputs of every call.
  The lemmas show that the text order of identifiers is the order of their numbers, and that the
  generator never issues a number twice in a process.
\<close>

unbundle bit_operations_syntax

section \<open>Encoding\<close>

definition CROCKFORD32 :: ustr where
  "CROCKFORD32 = lit ''0123456789ABCDEFGHJKMNPQRSTVWXYZ''"

definition MAX_TIMESTAMP :: int where "MAX_TIMESTAMP = push_bit 48 1 - 1"
definition MAX_RANDOMNESS :: int where "MAX_RANDOMNESS = push_bit 80 1 - 1"

definition id_prefix :: "string \<Rightarrow> string option" where
  "id_prefix kind =
    map_of [(''action'', ''act_''), (''request'', ''req_''), (''correlation'', ''corr_''), (''idempotency'', ''authz_''),
      (''task'', ''task_''), (''session'', ''session_''), (''causation'', ''cause_'')] kind"

text \<open>The loop fills the digits from the last one; \<open>encode_digits k v\<close> is its result for \<open>k\<close> positions.\<close>

primrec encode_digits :: "nat \<Rightarrow> int \<Rightarrow> ustr" where
  "encode_digits 0 v = []"
| "encode_digits (Suc k) v = encode_digits k (drop_bit 5 v) @ [CROCKFORD32 ! nat (v AND 31)]"

definition encode_ulid :: "int \<Rightarrow> ustr" where
  "encode_ulid v = encode_digits 26 v"

section \<open>The generator\<close>

record id_generator =
  last_timestamp :: int
  last_randomness :: int
  gen_pid :: int

definition new_generator :: "int \<Rightarrow> id_generator" where
  "new_generator pid = \<lparr>last_timestamp = -1, last_randomness = -1, gen_pid = pid\<rparr>"

definition after_fork_child :: "int \<Rightarrow> id_generator \<Rightarrow> id_generator" where
  "after_fork_child pid g = \<lparr>last_timestamp = -1, last_randomness = -1, gen_pid = pid\<rparr>"

definition reset_if_forked :: "int \<Rightarrow> id_generator \<Rightarrow> id_generator" where
  "reset_if_forked pid g = (if pid \<noteq> gen_pid g then after_fork_child pid g else g)"

text \<open>\<open>int.from_bytes(..., "big")\<close>.\<close>

definition from_bytes :: "nat list \<Rightarrow> int" where
  "from_bytes bs = foldl (\<lambda>a b. a * 256 + int b) 0 bs"

definition issue :: "string \<Rightarrow> id_generator \<Rightarrow> int \<Rightarrow> int \<Rightarrow> id_generator \<times> (code + ustr)" where
  "issue p g timestamp randomness =
    (g\<lparr>last_timestamp := timestamp, last_randomness := randomness\<rparr>,
     Inr (lit p @ encode_ulid (push_bit 80 timestamp OR randomness)))"

text \<open>
  One call of \<open>new\<close> with the process identifier, the clock in milliseconds and the answer of the
  entropy source (None when it raises).
\<close>

definition new_identifier :: "id_generator \<Rightarrow> string \<Rightarrow> int \<Rightarrow> int \<Rightarrow> nat list option \<Rightarrow> id_generator \<times> (code + ustr)" where
  "new_identifier g0 kind pid timestamp random_bytes =
    (case id_prefix kind of
       None \<Rightarrow> (g0, Inl ''ValueError'')
     | Some p \<Rightarrow>
         let g = reset_if_forked pid g0 in
         if timestamp < 0 \<or> timestamp > MAX_TIMESTAMP then (g, Inl ''RuntimeError'')
         else if timestamp > last_timestamp g then
           (case random_bytes of
              None \<Rightarrow> (g, Inl ''RuntimeError'')
            | Some bs \<Rightarrow> if length bs \<noteq> 10 then (g, Inl ''RuntimeError'') else issue p g timestamp (from_bytes bs))
         else
           let randomness = last_randomness g + 1 in
           if randomness > MAX_RANDOMNESS then
             (if last_timestamp g = MAX_TIMESTAMP then (g, Inl ''RuntimeError'')
              else issue p g (last_timestamp g + 1) 0)
           else issue p g (last_timestamp g) randomness)"

section \<open>The text order is the number order\<close>

lemma bits32: "v AND 31 = v mod 32" "drop_bit 5 v = v div 32" for v :: int
proof -
  have "v AND 31 = take_bit 5 v" using take_bit_eq_mask [of 5 v] by (simp add: mask_eq_exp_minus_1)
  then show "v AND 31 = v mod 32" by (simp add: take_bit_eq_mod)
  show "drop_bit 5 v = v div 32" by (simp add: drop_bit_eq_div)
qed

lemma encode_length [simp]: "length (encode_digits k v) = k"
  by (induction k arbitrary: v) simp_all

lemma crockford_length: "length CROCKFORD32 = 32"
  by (simp add: CROCKFORD32_def)

lemma crockford_sorted: "sorted_wrt (<) CROCKFORD32"
  by (simp add: CROCKFORD32_def lit_def)

lemma crockford_less: "i < j \<Longrightarrow> j < 32 \<Longrightarrow> CROCKFORD32 ! i < CROCKFORD32 ! j"
  using sorted_wrt_nth_less [OF crockford_sorted, of i j] crockford_length by simp

lemma snoc_less: "length xs = length ys \<Longrightarrow> xs @ [a] < ys @ [b] \<longleftrightarrow> xs < ys \<or> xs = ys \<and> a < b" for xs ys :: ustr
  by (induction xs ys rule: list_induct2) auto

lemma encode_mono: "0 \<le> v \<Longrightarrow> v < w \<Longrightarrow> w < 32 ^ k \<Longrightarrow> encode_digits k v < encode_digits k w"
proof (induction k arbitrary: v w)
  case (Suc k)
  have w: "0 \<le> v div 32" "w div 32 < 32 ^ k"
    using Suc.prems by (simp_all add: pos_imp_zdiv_nonneg_iff div_less_iff_less_mult mult.commute)
  have "v div 32 \<le> w div 32" using Suc.prems(2) by (simp add: zdiv_mono1)
  moreover have "v div 32 = w div 32 \<Longrightarrow> v mod 32 < w mod 32"
    using Suc.prems(2) mult_div_mod_eq [of 32 v] mult_div_mod_eq [of 32 w] by linarith
  ultimately consider "v div 32 < w div 32" | "v div 32 = w div 32" "v mod 32 < w mod 32" by fastforce
  then show ?case
  proof cases
    case 1
    then show ?thesis using Suc.IH [of "v div 32" "w div 32"] w by (simp add: snoc_less bits32)
  next
    case 2
    have "nat (v mod 32) < nat (w mod 32)" "nat (w mod 32) < 32" using 2 by (simp_all add: nat_less_iff)
    then show ?thesis using 2 crockford_less by (simp add: snoc_less bits32)
  qed
qed simp

lemma crockford_chars: "i < 32 \<Longrightarrow> is_crockford (CROCKFORD32 ! i)"
proof -
  have "list_all is_crockford CROCKFORD32" by (simp add: CROCKFORD32_def lit_def is_crockford_def is_digit_def is_upper_def)
  then show "i < 32 \<Longrightarrow> ?thesis" using crockford_length by (simp add: list_all_length)
qed

lemma encode_chars: "list_all is_crockford (encode_digits k v)"
  by (induction k arbitrary: v) (simp_all add: crockford_chars bits32 nat_less_iff)

lemma encode_head: "0 \<le> v \<Longrightarrow> v < 8 * 32 ^ k \<Longrightarrow> 48 \<le> hd (encode_digits (Suc k) v) \<and> hd (encode_digits (Suc k) v) \<le> 55"
proof (induction k arbitrary: v)
  case 0
  then have "v mod 32 = v" "nat v < 8" by simp_all
  moreover have "i < 8 \<Longrightarrow> CROCKFORD32 ! i = 48 + i" for i
    by (cases i; simp add: CROCKFORD32_def lit_def numeral_eq_Suc less_Suc_eq nth_Cons') (auto simp: less_Suc_eq nth_Cons' numeral_eq_Suc)
  ultimately show ?case by (simp add: bits32)
next
  case (Suc k)
  have "0 \<le> v div 32" "v div 32 < 8 * 32 ^ k" using Suc.prems by (simp_all add: pos_imp_zdiv_nonneg_iff div_less_iff_less_mult mult.commute mult.left_commute)
  then have "48 \<le> hd (encode_digits (Suc k) (v div 32)) \<and> hd (encode_digits (Suc k) (v div 32)) \<le> 55" by (rule Suc.IH)
  moreover have "encode_digits (Suc (Suc k)) v = encode_digits (Suc k) (v div 32) @ [CROCKFORD32 ! nat (v AND 31)]"
    by (simp add: bits32)
  moreover have "encode_digits (Suc k) (v div 32) \<noteq> []" by simp
  ultimately show ?case by (metis hd_append)
qed

lemma encode_ulid_body: "0 \<le> v \<Longrightarrow> v < 2 ^ 128 \<Longrightarrow> ulid_body (encode_ulid v)"
  using encode_head [of v 25] encode_chars [of 26 v] by (simp add: ulid_body_def encode_ulid_def del: encode_digits.simps)

section \<open>The invariant\<close>

definition generator_ok :: "id_generator \<Rightarrow> bool" where
  "generator_ok g \<longleftrightarrow>
    last_timestamp g = -1 \<and> last_randomness g = -1 \<or>
    0 \<le> last_timestamp g \<and> last_timestamp g < 2 ^ 48 \<and> 0 \<le> last_randomness g \<and> last_randomness g < 2 ^ 80"

definition number :: "id_generator \<Rightarrow> int" where
  "number g = last_timestamp g * 2 ^ 80 + last_randomness g"

lemma limits: "MAX_TIMESTAMP = 2 ^ 48 - 1" "MAX_RANDOMNESS = 2 ^ 80 - 1"
  by (simp_all add: MAX_TIMESTAMP_def MAX_RANDOMNESS_def push_bit_eq_mult)

lemma join_number: "0 \<le> r \<Longrightarrow> r < 2 ^ 80 \<Longrightarrow> push_bit 80 t OR r = t * 2 ^ 80 + r" for t r :: int
proof -
  assume "0 \<le> r" "r < 2 ^ 80"
  then have "take_bit 80 r = r" by (simp add: take_bit_eq_mod)
  then have "push_bit 80 t OR r = concat_bit 80 r t" by (simp add: concat_bit_def or.commute)
  then show ?thesis using \<open>take_bit 80 r = r\<close> by (simp add: concat_bit_eq push_bit_eq_mult)
qed

lemma from_bytes_range: "\<forall>b \<in> set bs. b < 256 \<Longrightarrow> 0 \<le> from_bytes bs \<and> from_bytes bs < 256 ^ length bs"
proof (induction bs rule: rev_induct)
  case (snoc b bs)
  then have "0 \<le> from_bytes bs" "from_bytes bs < 256 ^ length bs" "b < 256" by simp_all
  moreover have "from_bytes (bs @ [b]) = from_bytes bs * 256 + int b" by (simp add: from_bytes_def)
  ultimately show ?case by simp
qed (simp add: from_bytes_def)

definition entropy_ok :: "nat list option \<Rightarrow> bool" where
  "entropy_ok e \<longleftrightarrow> (\<forall>bs. e = Some bs \<longrightarrow> (\<forall>b \<in> set bs. b < 256))"

lemma issue_step:
  assumes "issue p g t r = (g', x)" "0 \<le> t" "t < 2 ^ 48" "0 \<le> r" "r < 2 ^ 80"
  shows "generator_ok g'" "gen_pid g' = gen_pid g" "number g' = t * 2 ^ 80 + r" "x = Inr (lit p @ encode_ulid (number g'))"
    "0 \<le> number g'" "number g' < 2 ^ 128"
proof -
  have g: "g' = g\<lparr>last_timestamp := t, last_randomness := r\<rparr>" "x = Inr (lit p @ encode_ulid (push_bit 80 t OR r))"
    using assms(1) by (simp_all add: issue_def)
  show "generator_ok g'" "gen_pid g' = gen_pid g" using assms g by (simp_all add: generator_ok_def)
  show n: "number g' = t * 2 ^ 80 + r" using g by (simp add: number_def)
  show "x = Inr (lit p @ encode_ulid (number g'))" using g(2) join_number [OF assms(4,5)] n by simp
  show "0 \<le> number g'" "number g' < 2 ^ 128" using assms n by simp_all
qed

lemma new_identifier_step:
  assumes "generator_ok g" "entropy_ok e" "new_identifier g kind (gen_pid g) now e = (g', r)"
  shows "generator_ok g' \<and> gen_pid g' = gen_pid g \<and>
    (case r of
       Inl _ \<Rightarrow> g' = g
     | Inr s \<Rightarrow> number g < number g' \<and> 0 \<le> number g' \<and> number g' < 2 ^ 128 \<and>
         (\<exists>p. id_prefix kind = Some p \<and> s = lit p @ encode_ulid (number g')))"
proof -
  have reset: "reset_if_forked (gen_pid g) g = g" by (simp add: reset_if_forked_def)
  have grow: "number g < t * 2 ^ 80 + q" if "last_timestamp g < t" "0 \<le> q" for t q
  proof -
    have "last_randomness g < 2 ^ 80" using assms(1) by (auto simp: generator_ok_def)
    moreover have "(last_timestamp g + 1) * 2 ^ 80 \<le> t * 2 ^ 80" using that(1) by (intro mult_right_mono) simp_all
    ultimately show ?thesis using that(2) by (simp add: number_def algebra_simps)
  qed
  consider (err) code where "g' = g" "r = Inl code"
    | (ok) p t q where "id_prefix kind = Some p" "issue p g t q = (g', r)" "0 \<le> t" "t < 2 ^ 48" "0 \<le> q" "q < 2 ^ 80"
        "number g < t * 2 ^ 80 + q"
  proof (cases "id_prefix kind")
    case None
    then show thesis using err assms(3) by (auto simp add: new_identifier_def)
  next
    case (Some p)
    note step = assms(3) [unfolded new_identifier_def Some option.case reset Let_def]
    show thesis
    proof (cases "now < 0 \<or> now > MAX_TIMESTAMP")
      case True
      then show thesis using err step by auto
    next
      case range: False
      show thesis
      proof (cases "now > last_timestamp g")
        case True
        show thesis
        proof (cases "\<exists>bs. e = Some bs \<and> length bs = 10")
          case t: True
          then obtain bs where bs: "e = Some bs" "length bs = 10" by blast
          then have "0 \<le> from_bytes bs" "from_bytes bs < 2 ^ 80" using from_bytes_range [of bs] assms(2) by (simp_all add: entropy_ok_def)
          then show thesis using ok [of p now "from_bytes bs"] Some step range True bs grow by (simp add: limits)
        next
          case f: False
          then show thesis using err step range True by (auto split: option.splits if_splits)
        qed
      next
        case False
        then have old: "0 \<le> last_timestamp g" "last_timestamp g < 2 ^ 48" "0 \<le> last_randomness g" "last_randomness g < 2 ^ 80"
          using assms(1) range by (auto simp: generator_ok_def)
        show thesis
        proof (cases "last_randomness g + 1 > MAX_RANDOMNESS")
          case True
          show thesis
          proof (cases "last_timestamp g = MAX_TIMESTAMP")
            case full: True
            then show thesis using err step range False True by auto
          next
            case room: False
            then show thesis using ok [of p "last_timestamp g + 1" 0] Some step range False True old grow [of "last_timestamp g + 1" 0] by (simp add: limits)
          qed
        next
          case fits: False
          then show thesis using ok [of p "last_timestamp g" "last_randomness g + 1"] Some step range False old by (simp add: limits number_def)
        qed
      qed
    qed
  qed
  then show ?thesis
  proof cases
    case err
    then show ?thesis using assms(1) by simp
  next
    case ok
    note s = issue_step [OF ok(2-6)]
    show ?thesis using s ok(1,7) by simp
  qed
qed

section \<open>Runs of one process\<close>

text \<open>The identifiers issued by a sequence of calls, in order; failed calls issue nothing.\<close>

primrec issued :: "id_generator \<Rightarrow> int \<Rightarrow> (string \<times> int \<times> nat list option) list \<Rightarrow> ustr list" where
  "issued g pid [] = []"
| "issued g pid (c # cs) =
    (case c of (kind, now, e) \<Rightarrow>
       (case new_identifier g kind pid now e of
          (g', r) \<Rightarrow> (case r of Inl _ \<Rightarrow> issued g' pid cs | Inr s \<Rightarrow> s # issued g' pid cs)))"

definition ulid_part :: "ustr \<Rightarrow> ustr" where
  "ulid_part s = drop (length s - 26) s"

lemma ulid_part_encode: "ulid_part (xs @ encode_ulid v) = encode_ulid v"
  by (simp add: ulid_part_def encode_ulid_def del: encode_digits.simps)

lemma encode_ulid_less: "0 \<le> v \<Longrightarrow> v < w \<Longrightarrow> w < 2 ^ 128 \<Longrightarrow> encode_ulid v < encode_ulid w"
  using encode_mono [of v w 26] by (simp add: encode_ulid_def del: encode_digits.simps)

lemma issued_above:
  assumes "generator_ok g" "gen_pid g = pid" "\<forall>c \<in> set cs. entropy_ok (snd (snd c))"
  shows "(\<forall>s \<in> set (issued g pid cs). \<exists>v. number g < v \<and> 0 \<le> v \<and> v < 2 ^ 128 \<and> ulid_part s = encode_ulid v) \<and>
    sorted_wrt (\<lambda>a b. ulid_part a < ulid_part b) (issued g pid cs)"
  using assms
proof (induction cs arbitrary: g)
  case (Cons c cs)
  obtain kind now e where c: "c = (kind, now, e)" by (cases c)
  obtain g' r where r: "new_identifier g kind pid now e = (g', r)" by fastforce
  have e: "entropy_ok e" using Cons.prems(3) c by simp
  note step = new_identifier_step [OF Cons.prems(1) e, of kind now g' r, unfolded Cons.prems(2), OF r]
  have ih: "(\<forall>s \<in> set (issued g' pid cs). \<exists>v. number g' < v \<and> 0 \<le> v \<and> v < 2 ^ 128 \<and> ulid_part s = encode_ulid v) \<and>
    sorted_wrt (\<lambda>a b. ulid_part a < ulid_part b) (issued g' pid cs)"
    using Cons.IH [of g'] step Cons.prems by simp
  show ?case
  proof (cases r)
    case (Inl x)
    then show ?thesis using ih step r c by simp
  next
    case (Inr s)
    then have s: "number g < number g'" "0 \<le> number g'" "number g' < 2 ^ 128" "ulid_part s = encode_ulid (number g')"
      using step by (auto simp: ulid_part_encode)
    have "ulid_part s < ulid_part b" if "b \<in> set (issued g' pid cs)" for b
      using ih that s(2,4) encode_ulid_less by fastforce
    moreover have "\<exists>v. number g < v \<and> 0 \<le> v \<and> v < 2 ^ 128 \<and> ulid_part b = encode_ulid v" if "b \<in> set (issued g' pid cs)" for b
      using ih that s(1) by (meson less_trans)
    ultimately show ?thesis using ih r c Inr s by auto
  qed
qed simp

lemma new_generator_ok: "generator_ok (new_generator pid)" "gen_pid (new_generator pid) = pid"
  by (simp_all add: generator_ok_def new_generator_def)

lemma reset_ok: "generator_ok g \<Longrightarrow> generator_ok (reset_if_forked pid g)" "gen_pid (reset_if_forked pid g) = pid"
  by (simp_all add: reset_if_forked_def after_fork_child_def generator_ok_def)

lemma new_identifier_reset:
  "id_prefix kind \<noteq> None \<Longrightarrow> new_identifier (reset_if_forked pid g) kind pid now e = new_identifier g kind pid now e"
  by (auto simp: new_identifier_def reset_if_forked_def after_fork_child_def)

text \<open>The wire class each kind of identifier is sent as.\<close>

definition kind_classes :: "(string \<times> (ustr \<Rightarrow> bool)) list" where
  "kind_classes =
    [(''action'', ActionID_ok), (''request'', RequestID_ok), (''correlation'', CorrelationID_ok),
     (''idempotency'', AuthorizationIdempotencyKey_ok), (''task'', TaskID_ok), (''session'', SessionID_ok),
     (''causation'', CausationID_ok)]"

lemma prefixed_ulid_encode: "0 \<le> v \<Longrightarrow> v < 2 ^ 128 \<Longrightarrow> prefixed_ulid p (lit p @ encode_ulid v)"
  using encode_ulid_body by (simp add: prefixed_ulid_def)

lemma id_prefix_class:
  "id_prefix kind = Some p \<Longrightarrow> prefixed_ulid p s \<Longrightarrow> \<exists>ok. map_of kind_classes kind = Some ok \<and> ok s"
  by (auto simp: id_prefix_def kind_classes_def ActionID_ok_def RequestID_ok_def CorrelationID_ok_def TaskID_ok_def
      AuthorizationIdempotencyKey_ok_def SessionID_ok_def CausationID_ok_def split: if_splits)

section \<open>Properties\<close>

text \<open>
  C33: Identifiers never repeat and never go back.  Whatever the clock does (it may stand still, jump
  back or fail) and whatever the entropy source answers, the identifiers one process gets from a new
  generator have strictly increasing ULIDs in text order, so no two of them are equal, also across kinds.
\<close>

theorem identifiers_increase:
  assumes "\<forall>c \<in> set calls. entropy_ok (snd (snd c))"
  shows "sorted_wrt (\<lambda>a b. ulid_part a < ulid_part b) (issued (new_generator pid) pid calls) \<and>
    distinct (issued (new_generator pid) pid calls)"
proof -
  have s: "sorted_wrt (\<lambda>a b. ulid_part a < ulid_part b) (issued (new_generator pid) pid calls)"
    using issued_above [OF new_generator_ok assms] by blast
  have "sorted_wrt (\<noteq>) (issued (new_generator pid) pid calls)"
    by (rule sorted_wrt_mono_rel [OF _ s]) auto
  then show ?thesis using s by (simp add: distinct_conv_nth sorted_wrt_iff_nth_less) (metis nat_neq_iff)
qed

definition back_calls :: "(string \<times> int \<times> nat list option) list" where
  "back_calls = [(''action'', 5, Some [255, 255, 255, 255, 255, 255, 255, 255, 255, 255]), (''request'', 3, None), (''other'', 9, None), (''task'', 9, Some [0, 0, 0, 0, 0, 0, 0, 0, 0, 1])]"

theorem identifiers_increase_witness:
  "length (issued (new_generator 7) 7 back_calls) = 3 \<and> distinct (issued (new_generator 7) 7 back_calls)"
proof -
  have "\<forall>c \<in> set back_calls. entropy_ok (snd (snd c))" by (simp add: back_calls_def entropy_ok_def)
  then have "distinct (issued (new_generator 7) 7 back_calls)" using identifiers_increase [of back_calls 7] by blast
  moreover have "length (issued (new_generator 7) 7 back_calls) = 3"
    by (simp add: back_calls_def id_prefix_def new_identifier_def new_generator_def reset_if_forked_def issue_def
        limits from_bytes_def)
  ultimately show ?thesis by blast
qed

text \<open>
  C34: Every identifier is of its wire type.  Also across a fork, an identifier the generator returns
  satisfies the pattern of the protocol class for its kind, so the request built from it is accepted by
  the class's own check; and the generator's state stays well formed on every outcome.
\<close>

theorem identifiers_typed:
  assumes "generator_ok g" "entropy_ok e" "new_identifier g kind pid now e = (g', r)"
  shows "generator_ok g' \<and> (\<forall>s. r = Inr s \<longrightarrow> (\<exists>ok. map_of kind_classes kind = Some ok \<and> ok s))"
proof (cases "id_prefix kind")
  case None
  then show ?thesis using assms by (auto simp: new_identifier_def)
next
  case (Some p)
  have "new_identifier (reset_if_forked pid g) kind (gen_pid (reset_if_forked pid g)) now e = (g', r)"
    using assms(3) Some by (simp add: reset_ok new_identifier_reset)
  note step = new_identifier_step [OF reset_ok(1) [OF assms(1)] assms(2) this]
  show ?thesis
  proof (cases r)
    case (Inl x)
    then show ?thesis using step by auto
  next
    case (Inr s)
    then have "prefixed_ulid p s" using step Some prefixed_ulid_encode by auto
    then show ?thesis using step Inr id_prefix_class [OF Some] by simp
  qed
qed

theorem identifiers_typed_witness:
  "\<exists>g' s. new_identifier (new_generator 1) ''task'' 2 0 (Some (replicate 10 0)) = (g', Inr s) \<and> generator_ok g' \<and> TaskID_ok s"
proof -
  obtain g' s where r: "new_identifier (new_generator 1) ''task'' 2 0 (Some (replicate 10 0)) = (g', Inr s)"
    by (simp add: id_prefix_def new_identifier_def new_generator_def reset_if_forked_def after_fork_child_def issue_def limits)
  have "entropy_ok (Some (replicate 10 0))" by (simp add: entropy_ok_def)
  from identifiers_typed [OF new_generator_ok(1) this r] show ?thesis using r by (auto simp: kind_classes_def)
qed

end
