(* ===== verification/Py_Float.thy ===== *)
theory Py_Float
  imports Prelude "HOL-Library.Log_Nat"
begin

text \<open>
  Python floats for the parts of the SDK that compute delays and deadlines: IEEE double values as
  rationals with the infinities and the not-a-number value, rounding to nearest even, the comparison
  operators, and the conversions of arguments of any type to an index or a float.  The two zeros of
  the format are one value: nothing the SDK computes tells them apart.
\<close>

datatype pyfloat = Fin rat | PosInf | NegInf | NaN

section \<open>Rounding\<close>

text \<open>The integer nearest to a rational, ties to even.\<close>

definition round_even :: "rat \<Rightarrow> int" where
  "round_even x =
    (let n = \<lfloor>x\<rfloor>; r = x - of_int n in
     if r < 1 / 2 then n else if r > 1 / 2 then n + 1 else if even n then n else n + 1)"

definition two_pow :: "int \<Rightarrow> rat" where
  "two_pow k = (if 0 \<le> k then 2 ^ nat k else 1 / 2 ^ nat (- k))"

text \<open>The exponent \<open>e\<close> with \<open>2 ^ e \<le> x < 2 ^ (e + 1)\<close> of a positive rational.\<close>

definition exponent :: "rat \<Rightarrow> int" where
  "exponent x =
    (case quotient_of x of (n, d) \<Rightarrow>
       let k = bitlen n - bitlen d in if two_pow k \<le> x then k else k - 1)"

definition round_positive :: "rat \<Rightarrow> rat" where
  "round_positive x =
    (let q = max (exponent x - 52) (- 1074) in of_int (round_even (x / two_pow q)) * two_pow q)"

definition to_double :: "rat \<Rightarrow> pyfloat" where
  "to_double x =
    (if x = 0 then Fin 0
     else let y = round_positive \<bar>x\<bar> in
       if y \<ge> 2 ^ 1024 then (if x < 0 then NegInf else PosInf) else Fin (if x < 0 then - y else y))"

section \<open>Operators\<close>

fun fneg :: "pyfloat \<Rightarrow> pyfloat" where
  "fneg (Fin x) = Fin (- x)"
| "fneg PosInf = NegInf"
| "fneg NegInf = PosInf"
| "fneg NaN = NaN"

fun fadd :: "pyfloat \<Rightarrow> pyfloat \<Rightarrow> pyfloat" where
  "fadd (Fin x) (Fin y) = to_double (x + y)"
| "fadd NaN _ = NaN"
| "fadd _ NaN = NaN"
| "fadd PosInf NegInf = NaN"
| "fadd NegInf PosInf = NaN"
| "fadd PosInf _ = PosInf"
| "fadd _ PosInf = PosInf"
| "fadd NegInf _ = NegInf"
| "fadd _ NegInf = NegInf"

definition fsub :: "pyfloat \<Rightarrow> pyfloat \<Rightarrow> pyfloat" where
  "fsub x y = fadd x (fneg y)"

fun fmul :: "pyfloat \<Rightarrow> pyfloat \<Rightarrow> pyfloat" where
  "fmul (Fin x) (Fin y) = to_double (x * y)"
| "fmul NaN _ = NaN"
| "fmul _ NaN = NaN"
| "fmul (Fin x) y = (if x = 0 then NaN else if x > 0 then y else fneg y)"
| "fmul x (Fin y) = (if y = 0 then NaN else if y > 0 then x else fneg x)"
| "fmul PosInf y = y"
| "fmul NegInf y = fneg y"

fun fless :: "pyfloat \<Rightarrow> pyfloat \<Rightarrow> bool" where
  "fless (Fin x) (Fin y) \<longleftrightarrow> x < y"
| "fless NaN _ \<longleftrightarrow> False"
| "fless _ NaN \<longleftrightarrow> False"
| "fless NegInf y \<longleftrightarrow> y \<noteq> NegInf"
| "fless _ NegInf \<longleftrightarrow> False"
| "fless _ PosInf \<longleftrightarrow> True"
| "fless PosInf _ \<longleftrightarrow> False"

definition fle :: "pyfloat \<Rightarrow> pyfloat \<Rightarrow> bool" where
  "fle x y \<longleftrightarrow> x \<noteq> NaN \<and> y \<noteq> NaN \<and> \<not> fless y x"

definition isfinite :: "pyfloat \<Rightarrow> bool" where
  "isfinite x \<longleftrightarrow> (case x of Fin _ \<Rightarrow> True | _ \<Rightarrow> False)"

text \<open>The built-in \<open>min\<close> and \<open>max\<close> of two floats: the first one unless the second is strictly better.\<close>

definition fmin :: "pyfloat \<Rightarrow> pyfloat \<Rightarrow> pyfloat" where
  "fmin x y = (if fless y x then y else x)"

definition fmax :: "pyfloat \<Rightarrow> pyfloat \<Rightarrow> pyfloat" where
  "fmax x y = (if fless x y then y else x)"

section \<open>Arguments\<close>

text \<open>
  An argument of any type.  For an object that is neither an integer, a float nor a boolean, the
  model carries what its own conversions answer, None when they raise.
\<close>

datatype py_arg = ArgInt int | ArgFloat pyfloat | ArgBool bool | ArgObject "int option" "pyfloat option"

text \<open>\<open>float(i)\<close> of an integer: an \<open>OverflowError\<close> when it is too large.\<close>

definition float_of_int :: "int \<Rightarrow> pyfloat option" where
  "float_of_int i = (case to_double (of_int i) of Fin x \<Rightarrow> Some (Fin x) | _ \<Rightarrow> None)"

section \<open>Facts\<close>

lemma isfinite_iff: "isfinite x \<longleftrightarrow> (\<exists>r. x = Fin r)"
  by (cases x) (simp_all add: isfinite_def)

lemma isfinite_Fin [simp]: "isfinite (Fin r)"
  by (simp add: isfinite_def)

lemma fle_Fin [simp]: "fle (Fin x) (Fin y) \<longleftrightarrow> x \<le> y"
  by (auto simp: fle_def)

lemma fless_Fin_iff: "fless x (Fin y) \<longleftrightarrow> x = NegInf \<or> (\<exists>r. x = Fin r \<and> r < y)"
  by (cases x) simp_all

lemma fmin_fmax_Fin [simp]: "fmin (Fin x) (Fin y) = Fin (min x y)" "fmax (Fin x) (Fin y) = Fin (max x y)"
  by (simp_all add: fmin_def fmax_def min_def max_def)

lemma fmin_Fin: "fmin (Fin x) y = Fin r \<Longrightarrow> r \<le> x"
  by (cases y) (auto simp: fmin_def split: if_splits)

lemma fmax_zero: "\<exists>r \<ge> 0. fmax (Fin 0) x = Fin r \<or> x = PosInf"
  by (cases x) (auto simp: fmax_def intro: exI [of _ 0])

lemma to_double_zero [simp]: "to_double 0 = Fin 0"
  by (simp add: to_double_def)

lemma round_even_int [simp]: "round_even (of_int m) = m"
  by (simp add: round_even_def)

lemma exponent_small: "0 < i \<Longrightarrow> i < 2 ^ 53 \<Longrightarrow> exponent (of_int i) \<le> 52"
proof -
  assume "0 < i" "i < 2 ^ 53"
  then have "bitlen i \<le> 53" by (simp add: bitlen_le_iff_power)
  moreover have "bitlen 1 = 1" by (simp add: bitlen_def floorlog_def)
  ultimately show ?thesis by (simp add: exponent_def Let_def)
qed

lemma round_positive_int: "0 < i \<Longrightarrow> i < 2 ^ 53 \<Longrightarrow> round_positive (of_int i) = of_int i"
proof -
  assume i: "0 < i" "i < 2 ^ 53"
  define q where "q = max (exponent (rat_of_int i) - 52) (- 1074)"
  have "q \<le> 0" using exponent_small [OF i] by (simp add: q_def)
  then have q: "two_pow q = 1 / 2 ^ nat (- q)" by (cases "q = 0") (simp_all add: two_pow_def)
  have "rat_of_int i / two_pow q = of_int (i * 2 ^ nat (- q))" by (simp add: q)
  then have "round_even (rat_of_int i / two_pow q) = i * 2 ^ nat (- q)" by (metis round_even_int)
  then show ?thesis unfolding round_positive_def Let_def q_def [symmetric] by (simp add: q)
qed

text \<open>Integers of at most 53 bits are represented exactly.\<close>

lemma to_double_int: "\<bar>i\<bar> < 2 ^ 53 \<Longrightarrow> to_double (of_int i) = Fin (of_int i)"
proof (cases "i = 0")
  case False
  assume b: "\<bar>i\<bar> < 2 ^ 53"
  have "round_positive \<bar>rat_of_int i\<bar> = \<bar>rat_of_int i\<bar>"
    using round_positive_int [of "\<bar>i\<bar>"] b False by (metis of_int_abs zero_less_abs_iff)
  moreover have "\<bar>rat_of_int i\<bar> < 2 ^ 1024"
  proof -
    have "\<bar>rat_of_int i\<bar> < 2 ^ 53" using b by (metis of_int_abs of_int_less_iff of_int_numeral of_int_power)
    also have "(2::rat) ^ 53 \<le> 2 ^ 1024" by (rule power_increasing) simp_all
    finally show ?thesis .
  qed
  ultimately show ?thesis using False by (simp add: to_double_def Let_def)
qed simp

lemma to_double_numeral: "(numeral n :: int) < 2 ^ 53 \<Longrightarrow> to_double (numeral n) = Fin (numeral n)" "to_double 1 = Fin 1"
  using to_double_int [of "numeral n"] to_double_int [of 1] by simp_all

lemma float_of_int_exact: "\<bar>i\<bar> < 2 ^ 53 \<Longrightarrow> float_of_int i = Some (Fin (of_int i))"
  by (simp add: float_of_int_def to_double_int)

lemma float_of_int_finite: "float_of_int i = Some x \<Longrightarrow> isfinite x"
  by (cases "to_double (of_int i)") (auto simp: float_of_int_def)

lemma fsub_finite: "fsub (Fin x) (Fin y) \<noteq> NaN"
  by (simp add: fsub_def to_double_def Let_def)

end
