(* ===== verification/Retry_Policy.thy ===== *)
theory Retry_Policy
  imports Py_Float Protocol_Dto
begin

text \<open>
  The retry policy of \<open>python/src/palonexus/retry.py\<close>: its construction, the back-off, the
  \<open>Retry-After\<close> hint and the decision whether an authorization call may be sent again.

  Inputs from outside are arguments: the power function of the platform (\<open>pow\<close>, None for an
  \<open>OverflowError\<close>), the answer of the random source (None when it raises), and the seconds from
  the clock to an HTTP date as the standard library computes them (\<open>http_date\<close>, None when the text
  is no date with a zone).
\<close>

section \<open>Classifications\<close>

datatype retry_failure = CONNECTION | TIMEOUT | UNAVAILABLE | RATE_LIMITED | VALIDATION | AUTHENTICATION | DENIED
  | IDEMPOTENCY_CONFLICT | PERMANENT

datatype completion_state = NOT_EXECUTED | AUTHORIZATION_AMBIGUOUS | APPLICATION_AMBIGUOUS

datatype retry_reason = RETRY_SCHEDULED | NON_RETRYABLE | ATTEMPTS_EXHAUSTED | ELAPSED_EXHAUSTED | DEADLINE_EXCEEDED
  | CANCELLED | IDEMPOTENCY_REQUIRED | REASON_APPLICATION_AMBIGUOUS | INVALID_INPUT | INVALID_RANDOMNESS

record retry_decision =
  should_retry :: bool
  rd_delay :: "pyfloat option"
  rd_reason :: retry_reason

text \<open>The constructor with its \<open>__post_init__\<close> check.\<close>

definition RetryDecision :: "bool \<Rightarrow> pyfloat option \<Rightarrow> retry_reason \<Rightarrow> code + retry_decision" where
  "RetryDecision sr delay reason =
    (let valid_retry = sr \<and> reason = RETRY_SCHEDULED \<and>
           (case delay of None \<Rightarrow> False | Some d \<Rightarrow> isfinite d \<and> fle (Fin 0) d);
         valid_stop = (\<not> sr \<and> delay = None \<and> reason \<noteq> RETRY_SCHEDULED)
     in if valid_retry \<or> valid_stop then Inr \<lparr>should_retry = sr, rd_delay = delay, rd_reason = reason\<rparr>
        else Inl ''ValueError'')"

definition RETRYABLE_FAILURES :: "retry_failure list" where
  "RETRYABLE_FAILURES = [CONNECTION, TIMEOUT, UNAVAILABLE, RATE_LIMITED]"

definition SIDE_EFFECTS :: "ustr list" where
  "SIDE_EFFECTS = [lit ''read_only'', lit ''write'', lit ''destructive'', lit ''external'']"

definition stop :: "retry_reason \<Rightarrow> code + retry_decision" where
  "stop reason = RetryDecision False None reason"

section \<open>Construction\<close>

fun normalize_index :: "py_arg \<Rightarrow> int option" where
  "normalize_index (ArgInt i) = Some i"
| "normalize_index (ArgFloat f) = None"
| "normalize_index (ArgBool b) = None"
| "normalize_index (ArgObject i f) = i"

fun normalize_float :: "py_arg \<Rightarrow> pyfloat option" where
  "normalize_float (ArgInt i) = float_of_int i"
| "normalize_float (ArgFloat f) = Some f"
| "normalize_float (ArgBool b) = None"
| "normalize_float (ArgObject i f) = f"

record retry_policy =
  max_attempts :: int
  max_elapsed :: pyfloat
  initial_delay :: pyfloat
  max_delay :: pyfloat
  multiplier :: pyfloat
  jitter_fraction :: pyfloat
  max_retry_after :: pyfloat

text \<open>\<open>_initialize\<close>; None stands for its answer False, on which the constructors raise \<open>RetryPolicyError\<close>.\<close>

definition initialize :: "py_arg \<Rightarrow> py_arg \<Rightarrow> py_arg \<Rightarrow> py_arg \<Rightarrow> py_arg \<Rightarrow> py_arg \<Rightarrow> py_arg \<Rightarrow> retry_policy option" where
  "initialize attempts elapsed initial delay growth jitter after =
    (case (normalize_index attempts, normalize_float elapsed, normalize_float initial, normalize_float delay,
           normalize_float growth, normalize_float jitter, normalize_float after) of
       (Some n, Some e, Some i, Some d, Some m, Some j, Some a) \<Rightarrow>
         if \<not> list_all isfinite [e, i, d, m, j, a] \<or> n < 1 \<or> n > 100 \<or> fle e (Fin 0) \<or> fless i (Fin 0) \<or> fle d (Fin 0) \<or>
            fless d i \<or> fless m (Fin 1) \<or> \<not> (fle (Fin 0) j \<and> fle j (Fin 1)) \<or> fless a (Fin 0)
         then None
         else Some \<lparr>max_attempts = n, max_elapsed = e, initial_delay = i, max_delay = d, multiplier = m,
           jitter_fraction = j, max_retry_after = a\<rparr>
     | _ \<Rightarrow> None)"

definition RetryPolicy :: "py_arg \<Rightarrow> py_arg \<Rightarrow> py_arg \<Rightarrow> py_arg \<Rightarrow> py_arg \<Rightarrow> py_arg \<Rightarrow> py_arg \<Rightarrow> code + retry_policy" where
  "RetryPolicy attempts elapsed initial delay growth jitter after =
    (case initialize attempts elapsed initial delay growth jitter after of
       None \<Rightarrow> Inl ''invalid_retry_policy''
     | Some p \<Rightarrow> Inr p)"

section \<open>Delays\<close>

definition backoff ::
  "(pyfloat \<Rightarrow> int \<Rightarrow> pyfloat option) \<Rightarrow> py_arg option \<Rightarrow> retry_policy \<Rightarrow> int \<Rightarrow> pyfloat option" where
  "backoff pow random p attempt =
    (case pow (multiplier p) (min (attempt - 1) 1024) of
       None \<Rightarrow> None
     | Some scale \<Rightarrow>
         let base = fmin (max_delay p) (fmul (initial_delay p) scale) in
         (case Option.bind random normalize_float of
            None \<Rightarrow> None
          | Some r \<Rightarrow>
              if \<not> isfinite r \<or> \<not> (fle (Fin 0) r \<and> fle r (Fin 1)) then None
              else let factor = fadd (Fin 1) (fmul (fsub (fmul (Fin 2) r) (Fin 1)) (jitter_fraction p)) in
                Some (fmax (Fin 0) (fmin (max_delay p) (fmul base factor)))))"

definition retry_after_delay :: "(ustr \<Rightarrow> pyfloat option) \<Rightarrow> retry_policy \<Rightarrow> ustr option \<Rightarrow> pyfloat option" where
  "retry_after_delay http_date p hint =
    (case hint of
       None \<Rightarrow> None
     | Some v \<Rightarrow>
         if v = [] \<or> length v > 128 \<or> v \<noteq> py_strip v \<or> list_ex (\<lambda>c. c < 32 \<or> c = 127) v then None
         else if list_all is_digit v then
           (if length v > 12 then Some (max_retry_after p)
            else map_option (\<lambda>f. fmin f (max_retry_after p)) (float_of_int (int (val10 v))))
         else
           (case http_date v of
              None \<Rightarrow> None
            | Some seconds \<Rightarrow>
                if \<not> isfinite seconds then None else Some (fmin (fmax (Fin 0) seconds) (max_retry_after p))))"

section \<open>The decision\<close>

text \<open>
  The arguments of \<open>authorization_retry\<close>.  None stands for a value of another type, except for the
  completion (whose own None is the code's), the key and the hint, where it is also the code's None.
\<close>

datatype completion_arg = NoCompletion | Completion completion_state | OtherCompletion

record retry_call =
  rc_attempt :: py_arg
  rc_elapsed :: py_arg
  rc_side_effect :: "ustr option"
  rc_failure :: "retry_failure option"
  rc_completion :: completion_arg
  rc_key :: "ustr option"
  rc_retry_after :: "ustr option"
  rc_cancelled :: "bool option"
  rc_deadline :: "py_arg option"

definition valid_input :: "retry_call \<Rightarrow> int \<Rightarrow> pyfloat \<Rightarrow> pyfloat option \<Rightarrow> bool" where
  "valid_input c attempt elapsed deadline \<longleftrightarrow>
    attempt \<ge> 1 \<and> isfinite elapsed \<and> fle (Fin 0) elapsed \<and>
    (case rc_side_effect c of None \<Rightarrow> False | Some s \<Rightarrow> s \<in> set SIDE_EFFECTS) \<and>
    rc_failure c \<noteq> None \<and> rc_completion c \<noteq> OtherCompletion \<and> rc_cancelled c \<noteq> None \<and>
    (case deadline of None \<Rightarrow> True | Some d \<Rightarrow> isfinite d)"

definition valid_key :: "ustr option \<Rightarrow> bool" where
  "valid_key key \<longleftrightarrow> (case key of None \<Rightarrow> False | Some k \<Rightarrow> isOk (AuthorizationIdempotencyKey (JStr k)))"

text \<open>The part after the checks: the delay and the two budgets.\<close>

definition schedule ::
  "(pyfloat \<Rightarrow> int \<Rightarrow> pyfloat option) \<Rightarrow> py_arg option \<Rightarrow> (ustr \<Rightarrow> pyfloat option) \<Rightarrow> retry_policy \<Rightarrow>
    ustr option \<Rightarrow> int \<Rightarrow> pyfloat \<Rightarrow> pyfloat option \<Rightarrow> code + retry_decision" where
  "schedule pow random http_date p hint attempt elapsed deadline =
    (case (case retry_after_delay http_date p hint of None \<Rightarrow> backoff pow random p attempt | Some d \<Rightarrow> Some d) of
       None \<Rightarrow> stop INVALID_RANDOMNESS
     | Some delay \<Rightarrow>
         let remaining_elapsed = fsub (max_elapsed p) elapsed in
         if \<not> (isfinite delay \<and> fle (Fin 0) delay) then stop INVALID_RANDOMNESS
         else if fle remaining_elapsed (Fin 0) \<or> fle remaining_elapsed delay then stop ELAPSED_EXHAUSTED
         else if (case deadline of None \<Rightarrow> False | Some d \<Rightarrow> fle d (Fin 0) \<or> fle d delay) then stop DEADLINE_EXCEEDED
         else RetryDecision True (Some delay) RETRY_SCHEDULED)"

definition authorization_retry ::
  "(pyfloat \<Rightarrow> int \<Rightarrow> pyfloat option) \<Rightarrow> py_arg option \<Rightarrow> (ustr \<Rightarrow> pyfloat option) \<Rightarrow> retry_policy \<Rightarrow>
    retry_call \<Rightarrow> code + retry_decision" where
  "authorization_retry pow random http_date p c =
    (case (normalize_index (rc_attempt c), normalize_float (rc_elapsed c), map_option normalize_float (rc_deadline c)) of
       (None, _, _) \<Rightarrow> Inl ''invalid_retry_policy''
     | (_, None, _) \<Rightarrow> Inl ''invalid_retry_policy''
     | (_, _, Some None) \<Rightarrow> Inl ''invalid_retry_policy''
     | (Some attempt, Some elapsed, d) \<Rightarrow>
         let deadline = Option.bind d id; read_only = (rc_side_effect c = Some (lit ''read_only'')) in
         if \<not> valid_input c attempt elapsed deadline then stop INVALID_INPUT
         else if rc_cancelled c = Some True then stop CANCELLED
         else if rc_completion c = NoCompletion \<and> \<not> read_only then stop REASON_APPLICATION_AMBIGUOUS
         else if rc_completion c = Completion APPLICATION_AMBIGUOUS then stop REASON_APPLICATION_AMBIGUOUS
         else if \<not> list_ex (\<lambda>f. rc_failure c = Some f) RETRYABLE_FAILURES then stop NON_RETRYABLE
         else if attempt \<ge> max_attempts p then stop ATTEMPTS_EXHAUSTED
         else if \<not> read_only \<and> \<not> valid_key (rc_key c) then stop IDEMPOTENCY_REQUIRED
         else schedule pow random http_date p (rc_retry_after c) attempt elapsed deadline)"

section \<open>Facts\<close>

definition policy_ok :: "retry_policy \<Rightarrow> bool" where
  "policy_ok p \<longleftrightarrow>
    1 \<le> max_attempts p \<and> max_attempts p \<le> 100 \<and>
    (\<exists>e i d m j a. max_elapsed p = Fin e \<and> initial_delay p = Fin i \<and> max_delay p = Fin d \<and> multiplier p = Fin m \<and>
      jitter_fraction p = Fin j \<and> max_retry_after p = Fin a \<and>
      0 < e \<and> 0 \<le> i \<and> i \<le> d \<and> 0 < d \<and> 1 \<le> m \<and> 0 \<le> j \<and> j \<le> 1 \<and> 0 \<le> a)"

lemma RetryPolicy_ok: "RetryPolicy n e i d m j a = Inr p \<Longrightarrow> policy_ok p"
  by (auto simp: RetryPolicy_def initialize_def policy_ok_def isfinite_iff split: option.splits if_splits)

lemma stop_Inr: "stop reason = Inr d \<Longrightarrow> \<not> should_retry d"
  by (auto simp: stop_def RetryDecision_def split: if_splits)

lemma stop_total: "reason \<noteq> RETRY_SCHEDULED \<Longrightarrow> isOk (stop reason)"
  by (simp add: stop_def RetryDecision_def)

lemma backoff_bounds:
  assumes "policy_ok p" "backoff pow random p attempt = Some d" "max_delay p = Fin most"
  shows "\<exists>r. d = Fin r \<and> 0 \<le> r \<and> r \<le> most"
proof -
  obtain f where "d = fmax (Fin 0) (fmin (Fin most) f)"
    using assms(2,3) by (auto simp: backoff_def Let_def split: option.splits if_splits)
  moreover have "0 < most" using assms(1,3) by (auto simp: policy_ok_def)
  ultimately show ?thesis by (cases f) (auto simp: fmax_def fmin_def)
qed

lemma retry_after_bounds:
  assumes "policy_ok p" "retry_after_delay http_date p hint = Some d" "max_retry_after p = Fin most"
  shows "\<exists>r. d = Fin r \<and> r \<le> most"
proof -
  have "0 \<le> most" using assms(1,3) by (auto simp: policy_ok_def)
  have f: "float_of_int i = Some x \<Longrightarrow> \<exists>r. x = Fin r" for i x
    using float_of_int_finite isfinite_iff by blast
  have "d = Fin most \<or> (\<exists>z. d = fmin (Fin z) (Fin most))"
    using assms(2) f unfolding retry_after_delay_def assms(3)
    by (auto simp: isfinite_iff simp del: fmin_fmax_Fin(1) split: option.splits if_splits)
  then show ?thesis by auto
qed

lemma schedule_retry:
  assumes "policy_ok p" "schedule pow random http_date p hint attempt elapsed deadline = Inr d" "should_retry d"
    "max_delay p = Fin most" "max_retry_after p = Fin cap" "elapsed = Fin x"
  obtains r where "rd_delay d = Some (Fin r)" "0 \<le> r" "r \<le> max most cap" "fless (Fin r) (fsub (max_elapsed p) (Fin x))"
    "\<forall>x. deadline = Some (Fin x) \<longrightarrow> r < x"
proof -
  obtain y where x: "(case retry_after_delay http_date p hint of None \<Rightarrow> backoff pow random p attempt | Some d \<Rightarrow> Some d) = Some y"
    and c: "isfinite y" "fle (Fin 0) y" "\<not> fle (fsub (max_elapsed p) elapsed) y"
      "\<not> (case deadline of None \<Rightarrow> False | Some d \<Rightarrow> fle d (Fin 0) \<or> fle d y)"
      "RetryDecision True (Some y) RETRY_SCHEDULED = Inr d"
    using assms(2,3) by (auto simp: schedule_def Let_def dest!: stop_Inr split: option.splits if_splits)
  obtain r where r: "y = Fin r" "0 \<le> r" using c(1,2) by (auto simp: isfinite_iff)
  have "r \<le> max most cap"
    using x backoff_bounds [OF assms(1) _ assms(4)] retry_after_bounds [OF assms(1) _ assms(5)] r
    by (fastforce split: option.splits)
  moreover have "rd_delay d = Some (Fin r)" using c(5) r by (auto simp: RetryDecision_def split: if_splits)
  moreover have "fless (Fin r) (fsub (max_elapsed p) (Fin x))"
    using c(3) r assms(1,6) fsub_finite by (auto simp: fle_def policy_ok_def)
  moreover have "\<forall>y. deadline = Some (Fin y) \<longrightarrow> r < y" using c(4) r by (auto split: option.splits)
  ultimately show ?thesis using r that by blast
qed

lemma schedule_total: "isOk (schedule pow random http_date p hint attempt elapsed deadline)"
  by (auto simp: schedule_def stop_def RetryDecision_def Let_def split: option.splits)

text \<open>What a scheduled retry says of the call.\<close>

lemma retry_accepted:
  assumes "authorization_retry pow random http_date p c = Inr d" "should_retry d"
  obtains k x where "normalize_index (rc_attempt c) = Some k" "normalize_float (rc_elapsed c) = Some x"
    "valid_input c k x (Option.bind (rc_deadline c) normalize_float)" "rc_cancelled c \<noteq> Some True"
    "rc_completion c = NoCompletion \<longrightarrow> rc_side_effect c = Some (lit ''read_only'')"
    "rc_completion c \<noteq> Completion APPLICATION_AMBIGUOUS" "list_ex (\<lambda>f. rc_failure c = Some f) RETRYABLE_FAILURES"
    "k < max_attempts p" "rc_side_effect c = Some (lit ''read_only'') \<or> valid_key (rc_key c)"
    "schedule pow random http_date p (rc_retry_after c) k x (Option.bind (rc_deadline c) normalize_float) = Inr d"
proof -
  obtain k x where n: "normalize_index (rc_attempt c) = Some k" "normalize_float (rc_elapsed c) = Some x"
    "map_option normalize_float (rc_deadline c) \<noteq> Some None"
    using assms(1) by (cases "normalize_index (rc_attempt c)"; cases "normalize_float (rc_elapsed c)";
        cases "map_option normalize_float (rc_deadline c) = Some None") (auto simp: authorization_retry_def)
  have dead: "Option.bind (map_option normalize_float (rc_deadline c)) id = Option.bind (rc_deadline c) normalize_float"
    by (cases "rc_deadline c") simp_all
  note run = assms(1) [unfolded authorization_retry_def n(1,2) prod.case option.case Let_def]
  have "valid_input c k x (Option.bind (rc_deadline c) normalize_float) \<and> rc_cancelled c \<noteq> Some True \<and>
    (rc_completion c = NoCompletion \<longrightarrow> rc_side_effect c = Some (lit ''read_only'')) \<and> rc_completion c \<noteq> Completion APPLICATION_AMBIGUOUS \<and>
    list_ex (\<lambda>f. rc_failure c = Some f) RETRYABLE_FAILURES \<and> k < max_attempts p \<and>
    (rc_side_effect c = Some (lit ''read_only'') \<or> valid_key (rc_key c)) \<and>
    schedule pow random http_date p (rc_retry_after c) k x (Option.bind (rc_deadline c) normalize_float) = Inr d"
    using run n(3) assms(2) dead by (auto dest!: stop_Inr split: option.splits if_splits)
  then show ?thesis using that n(1,2) by blast
qed

lemma valid_key_ok: "valid_key key \<Longrightarrow> \<exists>k. key = Some k \<and> AuthorizationIdempotencyKey_ok k"
  using wire_string_result by (fastforce simp: valid_key_def AuthorizationIdempotencyKey_def isOk_iff split: option.splits)

lemma retry_below_limit:
  "authorization_retry pow random http_date p c = Inr d \<Longrightarrow> should_retry d \<Longrightarrow> rc_attempt c = ArgInt k \<Longrightarrow> k < max_attempts p"
  by (erule (1) retry_accepted) simp

text \<open>A decision is always well formed: the call raises only when an argument cannot be converted.\<close>

lemma retry_total:
  "isOk (authorization_retry pow random http_date p c) \<longleftrightarrow>
    normalize_index (rc_attempt c) \<noteq> None \<and> normalize_float (rc_elapsed c) \<noteq> None \<and>
    map_option normalize_float (rc_deadline c) \<noteq> Some None"
  using schedule_total stop_total by (auto simp: authorization_retry_def Let_def split: option.splits)

text \<open>
  A multiplier whose power overflows ends the retries: \<open>_backoff\<close> raises before it can cap the delay,
  and the caller is told that the random source was invalid.
\<close>

lemma backoff_overflow_stops:
  assumes "pow (multiplier p) (min (k - 1) 1024) = None" "retry_after_delay http_date p hint = None"
  shows "schedule pow random http_date p hint k elapsed deadline = stop INVALID_RANDOMNESS"
  using assms by (simp add: schedule_def backoff_def)

section \<open>Properties\<close>

text \<open>
  C38: A retry is scheduled only when it is safe.  If a policy built by the constructor answers that
  the call may be sent again, the call was not cancelled, failed in a retryable way before the last
  allowed attempt (of at most 100), was not reported as ambiguous about application work, and either the
  action is read-only or the completion is known and the request carries a well-formed idempotency key.  The delay is a finite
  number between zero and the larger of the two configured caps and shorter than what is left of the
  time budget and of the caller's deadline.
\<close>

theorem retry_is_safe:
  assumes "RetryPolicy n e i dl m j a = Inr p" "max_delay p = Fin most" "max_retry_after p = Fin cap"
    and "authorization_retry pow random http_date p c = Inr d" "should_retry d"
  shows "rc_cancelled c = Some False \<and> rc_failure c \<in> {Some CONNECTION, Some TIMEOUT, Some UNAVAILABLE, Some RATE_LIMITED} \<and>
    rc_completion c \<noteq> Completion APPLICATION_AMBIGUOUS \<and>
    (\<exists>k. normalize_index (rc_attempt c) = Some k \<and> 1 \<le> k \<and> k < max_attempts p \<and> max_attempts p \<le> 100) \<and>
    (rc_side_effect c = Some (lit ''read_only'') \<or>
      rc_completion c \<noteq> NoCompletion \<and> (\<exists>k. rc_key c = Some k \<and> AuthorizationIdempotencyKey_ok k)) \<and>
    (\<exists>r x. rd_delay d = Some (Fin r) \<and> 0 \<le> r \<and> r \<le> max most cap \<and> normalize_float (rc_elapsed c) = Some (Fin x) \<and>
      fless (Fin r) (fsub (max_elapsed p) (Fin x)) \<and>
      (\<forall>y. Option.bind (rc_deadline c) normalize_float = Some (Fin y) \<longrightarrow> r < y))"
proof -
  have ok: "policy_ok p" using assms(1) by (rule RetryPolicy_ok)
  obtain k x where n: "normalize_index (rc_attempt c) = Some k" "normalize_float (rc_elapsed c) = Some x"
    and v: "valid_input c k x (Option.bind (rc_deadline c) normalize_float)" "rc_cancelled c \<noteq> Some True"
    and c: "rc_completion c = NoCompletion \<longrightarrow> rc_side_effect c = Some (lit ''read_only'')"
      "rc_completion c \<noteq> Completion APPLICATION_AMBIGUOUS" "list_ex (\<lambda>f. rc_failure c = Some f) RETRYABLE_FAILURES"
      "k < max_attempts p" "rc_side_effect c = Some (lit ''read_only'') \<or> valid_key (rc_key c)"
    and s: "schedule pow random http_date p (rc_retry_after c) k x (Option.bind (rc_deadline c) normalize_float) = Inr d"
    using assms(4,5) by (rule retry_accepted)
  obtain y where y: "x = Fin y" using v by (auto simp: valid_input_def isfinite_iff)
  obtain r where "rd_delay d = Some (Fin r)" "0 \<le> r" "r \<le> max most cap" "fless (Fin r) (fsub (max_elapsed p) (Fin y))"
    "\<forall>z. Option.bind (rc_deadline c) normalize_float = Some (Fin z) \<longrightarrow> r < z"
    by (rule schedule_retry [OF ok s assms(5,2,3) y]) blast
  moreover have "rc_failure c \<in> {Some CONNECTION, Some TIMEOUT, Some UNAVAILABLE, Some RATE_LIMITED}"
    using c(3) by (auto simp: RETRYABLE_FAILURES_def)
  moreover have "rc_cancelled c = Some False" "1 \<le> k" using v by (auto simp: valid_input_def)
  moreover have "max_attempts p \<le> 100" using ok by (simp add: policy_ok_def)
  ultimately show ?thesis using c n y valid_key_ok [of "rc_key c"] by auto
qed

definition example_policy :: retry_policy where
  "example_policy = \<lparr>max_attempts = 3, max_elapsed = Fin 10, initial_delay = Fin 0, max_delay = Fin 2, multiplier = Fin 2,
    jitter_fraction = Fin 0, max_retry_after = Fin 5\<rparr>"

definition example_call :: retry_call where
  "example_call = \<lparr>rc_attempt = ArgInt 1, rc_elapsed = ArgFloat (Fin 2), rc_side_effect = Some (lit ''write''),
    rc_failure = Some TIMEOUT, rc_completion = Completion AUTHORIZATION_AMBIGUOUS,
    rc_key = Some (sample_id ''authz_''), rc_retry_after = Some (lit ''3''),
    rc_cancelled = Some False, rc_deadline = Some (ArgFloat (Fin 4))\<rparr>"

lemma example_policy_built:
  "RetryPolicy (ArgInt 3) (ArgFloat (Fin 10)) (ArgFloat (Fin 0)) (ArgFloat (Fin 2)) (ArgFloat (Fin 2)) (ArgFloat (Fin 0))
    (ArgFloat (Fin 5)) = Inr example_policy"
  by (simp add: RetryPolicy_def initialize_def example_policy_def)

lemma example_retry:
  "authorization_retry pow random http_date example_policy example_call =
    Inr \<lparr>should_retry = True, rd_delay = Some (Fin 3), rd_reason = RETRY_SCHEDULED\<rparr>"
proof -
  have "isOk (validate_memory_limits (JStr (sample_id ''authz_'')))" by (simp add: limit_eval)
  then have key: "valid_key (rc_key example_call)"
    by (simp add: valid_key_def example_call_def AuthorizationIdempotencyKey_def wire_string_JStr AuthorizationIdempotencyKey_ok_def)
  have "retry_after_delay http_date example_policy (Some (lit ''3'')) = Some (Fin 3)"
    by (simp add: retry_after_delay_def example_policy_def py_strip_def py_space_def lit_def is_digit_def float_of_int_exact val10_def)
  moreover have "fsub (Fin 10) (Fin 2) = Fin 8" using to_double_int [of 8] by (simp add: fsub_def)
  ultimately show ?thesis using key
    by (simp add: authorization_retry_def example_policy_def example_call_def valid_input_def SIDE_EFFECTS_def schedule_def
        RETRYABLE_FAILURES_def RetryDecision_def)
qed

theorem retry_is_safe_witness:
  "\<exists>d r. authorization_retry (\<lambda>_ _. None) None (\<lambda>_. None) example_policy example_call = Inr d \<and> should_retry d \<and>
    rd_delay d = Some (Fin r) \<and> r \<le> 5"
proof -
  obtain r where "rd_delay \<lparr>should_retry = True, rd_delay = Some (Fin 3), rd_reason = RETRY_SCHEDULED\<rparr> = Some (Fin r)" "r \<le> max 2 5"
    using retry_is_safe [OF example_policy_built _ _ example_retry, of 2 5] by (auto simp: example_policy_def)
  then show ?thesis using example_retry by fastforce
qed

end
