(* ===== verification/Json_Text.thy ===== *)
theory Json_Text
  imports Url_Text Protocol_Dto
begin

text \<open>
  JSON text: the decoder behind \<open>json.loads\<close> with the hooks the repository passes to it, the strict
  reader \<open>_strict_loads_json\<close>, the writer \<open>_encode_json_value\<close> of
  \<open>python/src/palonexus/_generated/protocol.py\<close>, and the byte interface of the protocol documents.

  The decoder is recursive descent on the text.  Its three functions carry fuel; \<open>json_loads\<close> starts
  with twice the length of the text plus one, and \<open>parse_enough\<close> shows that this never runs out.
\<close>

section \<open>Strings\<close>

definition json_space :: "nat \<Rightarrow> bool" where
  "json_space c \<longleftrightarrow> c = 32 \<or> c = 9 \<or> c = 10 \<or> c = 13"

definition skip_space :: "ustr \<Rightarrow> ustr" where
  "skip_space s = dropWhile json_space s"

definition hex4 :: "ustr \<Rightarrow> nat option" where
  "hex4 s =
    (case s of
       a # b # c # d # _ \<Rightarrow>
         if is_hexdigit a \<and> is_hexdigit b \<and> is_hexdigit c \<and> is_hexdigit d
         then Some (((hex_value a * 16 + hex_value b) * 16 + hex_value c) * 16 + hex_value d)
         else None
     | _ \<Rightarrow> None)"

definition simple_escape :: "nat \<Rightarrow> nat option" where
  "simple_escape e =
    map_of [(34, 34), (92, 92), (47, 47), (98, 8), (102, 12), (110, 10), (114, 13), (116, 9)] e"

definition high_surrogate :: "nat \<Rightarrow> bool" where "high_surrogate c \<longleftrightarrow> 55296 \<le> c \<and> c \<le> 56319"
definition low_surrogate :: "nat \<Rightarrow> bool" where "low_surrogate c \<longleftrightarrow> 56320 \<le> c \<and> c \<le> 57343"

text \<open>The text of a string behind its opening quote, and what follows the closing one.\<close>

definition prepend :: "nat \<Rightarrow> (ustr \<times> ustr) option \<Rightarrow> (ustr \<times> ustr) option" where
  "prepend c r = map_option (\<lambda>(s, rest). (c # s, rest)) r"

fun read_string :: "ustr \<Rightarrow> (ustr \<times> ustr) option" where
  "read_string [] = None"
| "read_string (c # cs) =
    (if c = 34 then Some ([], cs)
     else if c = 92 then
       (case cs of
          [] \<Rightarrow> None
        | e # r \<Rightarrow>
            if e = 117 then
              (case hex4 r of
                 None \<Rightarrow> None
               | Some u \<Rightarrow>
                   if high_surrogate u \<and> take 2 (drop 4 r) = [92, 117] then
                     (case hex4 (drop 6 r) of
                        None \<Rightarrow> None
                      | Some l \<Rightarrow>
                          if low_surrogate l
                          then prepend (65536 + (u - 55296) * 1024 + (l - 56320)) (read_string (drop 10 r))
                          else prepend u (read_string (drop 4 r)))
                   else prepend u (read_string (drop 4 r)))
            else
              (case simple_escape e of
                 None \<Rightarrow> None
               | Some x \<Rightarrow> prepend x (read_string r)))
     else if c < 32 then None
     else prepend c (read_string cs))"

section \<open>Numbers\<close>

definition take_fraction :: "ustr \<Rightarrow> ustr" where
  "take_fraction s =
    (case s of
       [] \<Rightarrow> []
     | c # cs \<Rightarrow> if c = 46 \<and> takeWhile is_digit cs \<noteq> [] then c # takeWhile is_digit cs else [])"

definition take_sign :: "ustr \<Rightarrow> ustr" where
  "take_sign s = (case s of [] \<Rightarrow> [] | c # _ \<Rightarrow> if c = 43 \<or> c = 45 then [c] else [])"

definition take_exponent :: "ustr \<Rightarrow> ustr" where
  "take_exponent s =
    (case s of
       [] \<Rightarrow> []
     | c # cs \<Rightarrow>
         let sg = take_sign cs; ds = takeWhile is_digit (drop (length sg) cs) in
         if (c = 101 \<or> c = 69) \<and> ds \<noteq> [] then c # sg @ ds else [])"

definition take_integer :: "ustr \<Rightarrow> ustr" where
  "take_integer s =
    (case s of
       [] \<Rightarrow> []
     | c # cs \<Rightarrow> if c = 48 then [c] else if is_digit c then c # takeWhile is_digit cs else [])"

text \<open>The sign, integer part, fraction and exponent of the number a text starts with.\<close>

definition read_number :: "ustr \<Rightarrow> (ustr \<times> ustr \<times> ustr \<times> ustr \<times> ustr) option" where
  "read_number s =
    (let sg = (if s \<noteq> [] \<and> hd s = 45 then [45] else []);
         s1 = drop (length sg) s; ip = take_integer s1;
         s2 = drop (length ip) s1; fp = take_fraction s2;
         s3 = drop (length fp) s2; ep = take_exponent s3
     in if ip = [] then None else Some (sg, ip, fp, ep, drop (length ep) s3))"

definition int_of_token :: "ustr \<Rightarrow> ustr \<Rightarrow> int" where
  "int_of_token sg ip = (if sg = [45] then - int (val10 ip) else int (val10 ip))"

definition exponent_of_token :: "ustr \<Rightarrow> int" where
  "exponent_of_token ep =
    (if ep = [] then 0
     else let sg = take_sign (tl ep); n = int (val10 (drop (length sg) (tl ep))) in if sg = [45] then - n else n)"

text \<open>\<open>Decimal(token)\<close>.\<close>

definition decimal_of_token :: "ustr \<Rightarrow> ustr \<Rightarrow> ustr \<Rightarrow> ustr \<Rightarrow> decimal" where
  "decimal_of_token sg ip fp ep =
    Dec (sg = [45]) (val10 (ip @ drop 1 fp)) (exponent_of_token ep - int (length (drop 1 fp)))"

section \<open>Values\<close>

record json_hooks =
  parse_int :: "ustr \<Rightarrow> ustr \<Rightarrow> code + json"
  parse_float :: "ustr \<Rightarrow> ustr \<Rightarrow> ustr \<Rightarrow> ustr \<Rightarrow> code + json"
  parse_constant :: code
  object_pairs_hook :: "(ustr \<times> json) list \<Rightarrow> code + json"

definition starts :: "string \<Rightarrow> ustr \<Rightarrow> bool" where
  "starts p s \<longleftrightarrow> take (length p) s = lit p"

definition parse_number :: "json_hooks \<Rightarrow> ustr \<Rightarrow> code + (json \<times> ustr)" where
  "parse_number h s =
    (case read_number s of
       None \<Rightarrow> Inl ''invalid_json''
     | Some (sg, ip, fp, ep, rest) \<Rightarrow>
         bindE (if fp = [] \<and> ep = [] then parse_int h sg ip else parse_float h sg ip fp ep) (\<lambda>v. Inr (v, rest)))"

definition parse_scalar :: "json_hooks \<Rightarrow> ustr \<Rightarrow> code + (json \<times> ustr)" where
  "parse_scalar h s =
    (if starts ''null'' s then Inr (JNull, drop 4 s)
     else if starts ''true'' s then Inr (JBool True, drop 4 s)
     else if starts ''false'' s then Inr (JBool False, drop 5 s)
     else if starts ''NaN'' s \<or> starts ''Infinity'' s \<or> starts ''-Infinity'' s then Inl (parse_constant h)
     else parse_number h s)"

text \<open>After an element: the rest behind the closing bracket (None), or behind a comma and white space (Some).\<close>

definition after_element :: "nat \<Rightarrow> ustr \<Rightarrow> code + (ustr + ustr)" where
  "after_element close s =
    (case skip_space s of
       [] \<Rightarrow> Inl ''invalid_json''
     | c # r \<Rightarrow> if c = close then Inr (Inl r) else if c = 44 then Inr (Inr (skip_space r)) else Inl ''invalid_json'')"

definition read_key :: "ustr \<Rightarrow> code + (ustr \<times> ustr)" where
  "read_key s =
    (case s of
       [] \<Rightarrow> Inl ''invalid_json''
     | c # cs \<Rightarrow>
         if c \<noteq> 34 then Inl ''invalid_json''
         else
           (case read_string cs of
              None \<Rightarrow> Inl ''invalid_json''
            | Some (k, r) \<Rightarrow>
                (case skip_space r of
                   [] \<Rightarrow> Inl ''invalid_json''
                 | d # r' \<Rightarrow> if d = 58 then Inr (k, skip_space r') else Inl ''invalid_json'')))"

fun parse_value :: "json_hooks \<Rightarrow> nat \<Rightarrow> ustr \<Rightarrow> code + (json \<times> ustr)"
  and parse_items :: "json_hooks \<Rightarrow> nat \<Rightarrow> ustr \<Rightarrow> code + (json list \<times> ustr)"
  and parse_members :: "json_hooks \<Rightarrow> nat \<Rightarrow> ustr \<Rightarrow> code + ((ustr \<times> json) list \<times> ustr)" where
  "parse_value h 0 s = Inl ''out_of_fuel''"
| "parse_value h (Suc n) s =
    (case s of
       [] \<Rightarrow> Inl ''invalid_json''
     | c # cs \<Rightarrow>
         if c = 34 then
           (case read_string cs of None \<Rightarrow> Inl ''invalid_json'' | Some (t, r) \<Rightarrow> Inr (JStr t, r))
         else if c = 123 then
           (let r = skip_space cs in
            if r \<noteq> [] \<and> hd r = 125 then bindE (object_pairs_hook h []) (\<lambda>v. Inr (v, tl r))
            else bindE (parse_members h n r) (\<lambda>(kvs, r'). bindE (object_pairs_hook h kvs) (\<lambda>v. Inr (v, r'))))
         else if c = 91 then
           (let r = skip_space cs in
            if r \<noteq> [] \<and> hd r = 93 then Inr (JArr [], tl r)
            else bindE (parse_items h n r) (\<lambda>(vs, r'). Inr (JArr vs, r')))
         else parse_scalar h s)"
| "parse_items h 0 s = Inl ''out_of_fuel''"
| "parse_items h (Suc n) s =
    bindE (parse_value h n s) (\<lambda>(v, r).
    bindE (after_element 93 r) (\<lambda>next_text.
      case next_text of
        Inl r' \<Rightarrow> Inr ([v], r')
      | Inr r' \<Rightarrow> bindE (parse_items h n r') (\<lambda>(vs, r''). Inr (v # vs, r''))))"
| "parse_members h 0 s = Inl ''out_of_fuel''"
| "parse_members h (Suc n) s =
    bindE (read_key s) (\<lambda>(k, r0).
    bindE (parse_value h n r0) (\<lambda>(v, r).
    bindE (after_element 125 r) (\<lambda>next_text.
      case next_text of
        Inl r' \<Rightarrow> Inr ([(k, v)], r')
      | Inr r' \<Rightarrow> bindE (parse_members h n r') (\<lambda>(kvs, r''). Inr ((k, v) # kvs, r'')))))"

definition json_loads :: "json_hooks \<Rightarrow> ustr \<Rightarrow> code + json" where
  "json_loads h s =
    bindE (parse_value h (2 * length s + 1) (skip_space s)) (\<lambda>(v, r).
      if skip_space r = [] then Inr v else Inl ''invalid_json'')"

section \<open>The strict reader\<close>

text \<open>\<open>unique_object\<close> and \<open>parse_decimal\<close>; the exponent range is that of the adjusted exponent.\<close>

definition unique_object :: "(ustr \<times> json) list \<Rightarrow> code + json" where
  "unique_object kvs =
    (if length kvs > MAX_COLLECTION_ITEMS then Inl ''collection_limit_exceeded''
     else if \<not> distinct (map fst kvs) then Inl ''duplicate_json_key''
     else Inr (JObj kvs))"

definition adjusted :: "decimal \<Rightarrow> int" where
  "adjusted v = (case v of Dec _ c e \<Rightarrow> e + int (length (digits10 c)) - 1 | DSpecial \<Rightarrow> 0)"

definition parse_decimal :: "ustr \<Rightarrow> ustr \<Rightarrow> ustr \<Rightarrow> ustr \<Rightarrow> code + json" where
  "parse_decimal sg ip fp ep =
    (let v = decimal_of_token sg ip fp ep in
     if \<bar>adjusted v\<bar> > 10000 then Inl ''invalid_json_number'' else Inr (JDec v))"

definition strict_hooks :: json_hooks where
  "strict_hooks = \<lparr>parse_int = (\<lambda>sg ip. Inr (JInt (int_of_token sg ip))), parse_float = parse_decimal,
    parse_constant = ''invalid_json_number'', object_pairs_hook = unique_object\<rparr>"

definition strict_loads_json :: "ustr \<Rightarrow> code + json" where
  "strict_loads_json document =
    bindE (preflight_wire document) (\<lambda>t.
    bindE (json_loads strict_hooks t) (\<lambda>v.
    bindE (validate_memory_limits v) (\<lambda>_. Inr v)))"

definition strict_loads_bytes :: "bytes \<Rightarrow> code + json" where
  "strict_loads_bytes raw =
    (if length raw > MAX_WIRE_BYTES then Inl ''wire_too_large''
     else case utf8_decode raw of None \<Rightarrow> Inl ''invalid_utf8'' | Some t \<Rightarrow> strict_loads_json t)"

section \<open>The writer\<close>

text \<open>\<open>str(int)\<close> and \<open>str(Decimal)\<close>.\<close>

definition int_text :: "int \<Rightarrow> ustr" where
  "int_text i = (if i < 0 then 45 # digits10 (nat (- i)) else digits10 (nat i))"

definition signed_text :: "int \<Rightarrow> ustr" where
  "signed_text i = (if i < 0 then 45 # digits10 (nat (- i)) else 43 # digits10 (nat i))"

definition decimal_str :: "bool \<Rightarrow> nat \<Rightarrow> int \<Rightarrow> ustr" where
  "decimal_str neg c e =
    (let ds = digits10 c; leftdigits = e + int (length ds);
         dotplace = (if e \<le> 0 \<and> leftdigits > - 6 then leftdigits else 1);
         ip = (if dotplace \<le> 0 then [48] else take (nat dotplace) ds @ replicate (nat dotplace - length ds) 48);
         fp = (if dotplace \<le> 0 then 46 # replicate (nat (- dotplace)) 48 @ ds
               else if dotplace \<ge> int (length ds) then [] else 46 # drop (nat dotplace) ds);
         ep = (if leftdigits = dotplace then [] else 69 # signed_text (leftdigits - dotplace))
     in (if neg then [45] else []) @ ip @ fp @ ep)"

definition number_pattern :: "ustr \<Rightarrow> bool" where
  "number_pattern s \<longleftrightarrow> (case read_number s of Some (_, _, _, _, rest) \<Rightarrow> rest = [] | None \<Rightarrow> False)"

fun encode_json_value :: "json \<Rightarrow> code + ustr" where
  "encode_json_value JNull = Inr (lit ''null'')"
| "encode_json_value (JBool b) = Inr (if b then lit ''true'' else lit ''false'')"
| "encode_json_value (JStr s) = Inr (quote s)"
| "encode_json_value (JInt i) = Inr (int_text i)"
| "encode_json_value (JDec v) =
    (case v of
       DSpecial \<Rightarrow> Inl ''invalid_json_number''
     | Dec neg c e \<Rightarrow>
         if number_pattern (decimal_str neg c e) then Inr (decimal_str neg c e) else Inl ''invalid_json_number'')"
| "encode_json_value (JArr xs) =
    bindE (mapE encode_json_value xs) (\<lambda>ts. Inr (91 # join_with 44 ts @ [93]))"
| "encode_json_value (JObj kvs) =
    bindE (mapE (\<lambda>p. bindE (encode_json_value (snd p)) (\<lambda>t. Inr (quote (fst p) @ [58] @ t))) kvs)
      (\<lambda>ts. Inr (123 # join_with 44 ts @ [125]))"
| "encode_json_value JAbsent = Inl ''invalid_json_value''"

definition to_json_bytes :: "code + json \<Rightarrow> code + bytes" where
  "to_json_bytes dict =
    bindE dict (\<lambda>d.
    bindE (encode_json_value d) (\<lambda>t.
    if \<not> scalars t then Inl ''UnicodeEncodeError''
    else bindE (strict_loads_bytes (utf8 t)) (\<lambda>_. Inr (utf8 t))))"

section \<open>Reading back a string\<close>

lemma hex4_control: "c < 32 \<Longrightarrow> hex4 (48 # 48 # Canonical_Json.hex_digit (c div 16) # Canonical_Json.hex_digit (c mod 16) # r) = Some c"
proof -
  assume "c < 32"
  then have "c div 16 < 16" "c mod 16 < 16" by auto
  then have "hex_value (Canonical_Json.hex_digit (c div 16)) = c div 16" "hex_value (Canonical_Json.hex_digit (c mod 16)) = c mod 16"
    "is_hexdigit (Canonical_Json.hex_digit (c div 16))" "is_hexdigit (Canonical_Json.hex_digit (c mod 16))"
    by (auto simp: Canonical_Json.hex_digit_def hex_value_def is_hexdigit_def is_digit_def)
  then show ?thesis by (simp add: hex4_def is_hexdigit_def is_digit_def hex_value_def)
qed

lemma read_string_escape: "read_string (escape_char c @ r) = prepend c (read_string r)"
proof (cases "c < 32 \<and> c \<noteq> 8 \<and> c \<noteq> 9 \<and> c \<noteq> 10 \<and> c \<noteq> 12 \<and> c \<noteq> 13")
  case True
  then have "escape_char c = [92, 117, 48, 48, Canonical_Json.hex_digit (c div 16), Canonical_Json.hex_digit (c mod 16)]" by (simp add: escape_char_def)
  then show ?thesis using True hex4_control [of c r] by (simp add: high_surrogate_def)
next
  case False
  then show ?thesis by (auto simp: escape_char_def simple_escape_def)
qed

lemma read_string_quote: "read_string (concat (map escape_char s) @ 34 # r) = Some (s, r)"
  by (induction s) (simp_all add: read_string_escape prepend_def del: read_string.simps(2), simp)

section \<open>Reading back a number\<close>

definition stops :: "ustr \<Rightarrow> bool" where
  "stops r \<longleftrightarrow> r = [] \<or> hd r \<in> {44, 93, 125}"

definition good_int :: "ustr \<Rightarrow> bool" where
  "good_int ip \<longleftrightarrow> ip \<noteq> [] \<and> list_all is_digit ip \<and> (hd ip = 48 \<longrightarrow> ip = [48])"

definition good_fraction :: "ustr \<Rightarrow> bool" where
  "good_fraction fp \<longleftrightarrow> fp = [] \<or> (\<exists>ds. fp = 46 # ds \<and> ds \<noteq> [] \<and> list_all is_digit ds)"

definition good_exponent :: "ustr \<Rightarrow> bool" where
  "good_exponent ep \<longleftrightarrow> ep = [] \<or> (\<exists>g ds. ep = 69 # g # ds \<and> (g = 43 \<or> g = 45) \<and> ds \<noteq> [] \<and> list_all is_digit ds)"

lemma takeWhile_digits: "list_all is_digit ds \<Longrightarrow> r = [] \<or> \<not> is_digit (hd r) \<Longrightarrow> takeWhile is_digit (ds @ r) = ds"
  by (cases r) (auto simp: list_all_iff takeWhile_append)

lemma takeWhile_all_digits: "list_all is_digit ds \<Longrightarrow> takeWhile is_digit ds = ds"
  using takeWhile_digits [of ds "[]"] by simp

lemma take_integer_good: "good_int ip \<Longrightarrow> r = [] \<or> \<not> is_digit (hd r) \<Longrightarrow> take_integer (ip @ r) = ip"
  by (cases ip) (auto simp: good_int_def take_integer_def takeWhile_digits takeWhile_all_digits)

lemma take_fraction_good: "good_fraction fp \<Longrightarrow> r = [] \<or> \<not> is_digit (hd r) \<and> hd r \<noteq> 46 \<Longrightarrow> take_fraction (fp @ r) = fp"
proof -
  assume f: "good_fraction fp" and r: "r = [] \<or> \<not> is_digit (hd r) \<and> hd r \<noteq> 46"
  show ?thesis
  proof (cases "fp = []")
    case True
    then show ?thesis using r by (cases r) (auto simp: take_fraction_def)
  next
    case False
    then obtain ds where ds: "fp = 46 # ds" "ds \<noteq> []" "list_all is_digit ds" using f by (auto simp: good_fraction_def)
    have tw: "takeWhile is_digit (ds @ r) = ds" using ds(3) r takeWhile_digits by blast
    show ?thesis unfolding take_fraction_def ds(1) append_Cons list.case tw using ds(2) by simp
  qed
qed

lemma stops_facts: "stops r \<Longrightarrow> r = [] \<or> \<not> is_digit (hd r) \<and> hd r \<noteq> 46"
  by (auto simp: stops_def is_digit_def)

lemma take_exponent_good: "good_exponent ep \<Longrightarrow> stops r \<Longrightarrow> take_exponent (ep @ r) = ep"
proof -
  assume e: "good_exponent ep" and r: "stops r"
  show ?thesis
  proof (cases "ep = []")
    case True
    then show ?thesis using r by (cases r) (auto simp: take_exponent_def stops_def)
  next
    case False
    then obtain g ds where "ep = 69 # g # ds" "g = 43 \<or> g = 45" "ds \<noteq> []" "list_all is_digit ds"
      using e by (auto simp: good_exponent_def)
    moreover have "takeWhile is_digit (ds @ r) = ds" using calculation(4) stops_facts [OF r] takeWhile_digits by blast
    ultimately show ?thesis by (auto simp: take_exponent_def take_sign_def)
  qed
qed

lemma good_heads:
  "good_exponent ep \<Longrightarrow> stops r \<Longrightarrow> ep @ r = [] \<or> \<not> is_digit (hd (ep @ r)) \<and> hd (ep @ r) \<noteq> 46"
  "good_fraction fp \<Longrightarrow> x = [] \<or> \<not> is_digit (hd x) \<Longrightarrow> fp @ x = [] \<or> \<not> is_digit (hd (fp @ x))"
proof -
  show "good_exponent ep \<Longrightarrow> stops r \<Longrightarrow> ep @ r = [] \<or> \<not> is_digit (hd (ep @ r)) \<and> hd (ep @ r) \<noteq> 46"
    using stops_facts [of r] by (auto simp: good_exponent_def is_digit_def)
  show "good_fraction fp \<Longrightarrow> x = [] \<or> \<not> is_digit (hd x) \<Longrightarrow> fp @ x = [] \<or> \<not> is_digit (hd (fp @ x))"
    by (auto simp: good_fraction_def is_digit_def)
qed

lemma read_number_token:
  assumes "sg = [] \<or> sg = [45]" "good_int ip" "good_fraction fp" "good_exponent ep" "stops r"
  shows "read_number (sg @ ip @ fp @ ep @ r) = Some (sg, ip, fp, ep, r)"
proof -
  have h: "ip \<noteq> []" "hd ip \<noteq> 45" using assms(2) by (cases ip; auto simp: good_int_def is_digit_def)+
  have e: "ep @ r = [] \<or> \<not> is_digit (hd (ep @ r)) \<and> hd (ep @ r) \<noteq> 46" using good_heads(1) [OF assms(4,5)] .
  then have f: "fp @ ep @ r = [] \<or> \<not> is_digit (hd (fp @ ep @ r))" using good_heads(2) [OF assms(3), of "ep @ r"] by blast
  have "hd (ip @ fp @ ep @ r) \<noteq> 45" using h by simp
  then have g: "(if sg @ ip @ fp @ ep @ r \<noteq> [] \<and> hd (sg @ ip @ fp @ ep @ r) = 45 then [45] else []) = sg"
    using assms(1) by (elim disjE) simp_all
  have d: "drop (length xs) (xs @ ys) = ys" for xs ys :: ustr by simp
  show ?thesis
    unfolding read_number_def Let_def g d take_integer_good [OF assms(2) f] take_fraction_good [OF assms(3) e]
      take_exponent_good [OF assms(4,5)] using h(1) by simp
qed

lemma digits10_good: "good_int (digits10 n)"
proof (induction n rule: digits10.induct)
  case (1 n)
  show ?case
  proof (cases "n < 10")
    case True
    then show ?thesis by (subst digits10.simps) (auto simp: good_int_def is_digit_def)
  next
    case False
    then have ih: "good_int (digits10 (n div 10))" using 1 by simp
    have "digits10 (n div 10) \<noteq> [48]"
    proof
      assume "digits10 (n div 10) = [48]"
      then have "val10 (digits10 (n div 10)) = 0" by (simp add: val10_def)
      then show False using False by simp
    qed
    then show ?thesis using ih False by (subst digits10.simps) (auto simp: good_int_def is_digit_def)
  qed
qed

lemma int_token: "\<exists>sg. int_text i = sg @ digits10 (nat \<bar>i\<bar>) \<and> (sg = [] \<or> sg = [45]) \<and> int_of_token sg (digits10 (nat \<bar>i\<bar>)) = i"
  by (cases "i < 0") (auto simp: int_text_def int_of_token_def)

lemma read_int: "stops r \<Longrightarrow> \<exists>sg. read_number (int_text i @ r) = Some (sg, digits10 (nat \<bar>i\<bar>), [], [], r) \<and>
    int_of_token sg (digits10 (nat \<bar>i\<bar>)) = i"
proof -
  assume r: "stops r"
  obtain sg where s: "int_text i = sg @ digits10 (nat \<bar>i\<bar>)" "sg = [] \<or> sg = [45]" "int_of_token sg (digits10 (nat \<bar>i\<bar>)) = i"
    using int_token by blast
  have "read_number (sg @ digits10 (nat \<bar>i\<bar>) @ [] @ [] @ r) = Some (sg, digits10 (nat \<bar>i\<bar>), [], [], r)"
    by (rule read_number_token [OF s(2) digits10_good _ _ r]) (simp_all add: good_fraction_def good_exponent_def)
  then show ?thesis using s by auto
qed

text \<open>The parts of the text of a decimal, and that they stand for it.\<close>

lemma val10_zero_run: "val10 (replicate k 48 @ ds) = val10 ds"
  by (induction k) (simp_all add: val10_def)

lemma good_int_take: "good_int ds \<Longrightarrow> 0 < k \<Longrightarrow> good_int (take k ds)"
  by (cases ds; cases k) (auto simp: good_int_def list_all_iff dest: in_set_takeD)

lemma signed_good: "good_exponent (69 # signed_text i)" "exponent_of_token (69 # signed_text i) = i"
  using digits10_digits [of "nat i"] digits10_digits [of "nat (- i)"]
  by (auto simp: signed_text_def good_exponent_def exponent_of_token_def take_sign_def Let_def)

definition decimal_token :: "bool \<Rightarrow> nat \<Rightarrow> int \<Rightarrow> ustr \<Rightarrow> ustr \<Rightarrow> ustr \<Rightarrow> ustr \<Rightarrow> bool" where
  "decimal_token neg c e sg ip fp ep \<longleftrightarrow>
    decimal_str neg c e = sg @ ip @ fp @ ep \<and> sg = (if neg then [45] else []) \<and> good_int ip \<and> good_fraction fp \<and>
    good_exponent ep \<and>
    (if e = 0 then ip = digits10 c \<and> fp = [] \<and> ep = []
     else (fp \<noteq> [] \<or> ep \<noteq> []) \<and> decimal_of_token sg ip fp ep = Dec neg c e)"

lemma decimal_tokenI:
  assumes "decimal_str neg c e = (if neg then [45] else []) @ ip @ fp @ ep" "good_int ip" "good_fraction fp" "good_exponent ep"
    "e \<noteq> 0" "fp \<noteq> [] \<or> ep \<noteq> []" "decimal_of_token (if neg then [45] else []) ip fp ep = Dec neg c e"
  shows "\<exists>sg ip fp ep. decimal_token neg c e sg ip fp ep"
proof -
  have "decimal_token neg c e (if neg then [45] else []) ip fp ep"
    unfolding decimal_token_def using assms by (simp del: append_assoc cong del: if_weak_cong)
  then show ?thesis by blast
qed

lemma decimal_small:
  assumes "e < 0" "e + int (length (digits10 c)) \<le> 0" "e + int (length (digits10 c)) > - 6"
  shows "\<exists>sg ip fp ep. decimal_token neg c e sg ip fp ep"
proof -
  define k where "k = nat (- (e + int (length (digits10 c))))"
  have s: "decimal_str neg c e = (if neg then [45] else []) @ [48] @ (46 # replicate k 48 @ digits10 c) @ []"
    using assms by (simp add: decimal_str_def Let_def k_def)
  have d: "decimal_of_token (if neg then [45] else []) [48] (46 # replicate k 48 @ digits10 c) [] = Dec neg c e"
    using assms val10_zero_run [of "Suc k" "digits10 c"] by (simp add: decimal_of_token_def exponent_of_token_def k_def)
  show ?thesis
    by (rule decimal_tokenI [OF s _ _ _ _ _ d])
      (use assms digits10_digits [of c] in \<open>auto simp: good_int_def good_fraction_def good_exponent_def is_digit_def list_all_iff\<close>)
qed

lemma decimal_point:
  assumes "e < 0" "e + int (length (digits10 c)) > 0"
  shows "\<exists>sg ip fp ep. decimal_token neg c e sg ip fp ep"
proof -
  define k where "k = nat (e + int (length (digits10 c)))"
  have k: "0 < k" "k < length (digits10 c)" "int k = e + int (length (digits10 c))" using assms by (auto simp: k_def)
  have s: "decimal_str neg c e = (if neg then [45] else []) @ take k (digits10 c) @ (46 # drop k (digits10 c)) @ []"
  proof -
    have "e \<le> 0" "e + int (length (digits10 c)) > - 6" "\<not> e + int (length (digits10 c)) \<le> 0"
      "\<not> int (length (digits10 c)) \<le> e + int (length (digits10 c))" "k - length (digits10 c) = 0" using assms k by linarith+
    then show ?thesis by (simp only: decimal_str_def Let_def k_def [symmetric] if_True if_False simp_thms replicate_0 append_Nil2 append_assoc)
  qed
  have d: "decimal_of_token (if neg then [45] else []) (take k (digits10 c)) (46 # drop k (digits10 c)) [] = Dec neg c e"
    using k by (simp add: decimal_of_token_def exponent_of_token_def of_nat_diff)
  have f: "good_fraction (46 # drop k (digits10 c))"
    using k digits10_digits [of c] by (auto simp: good_fraction_def list_all_iff dest: in_set_dropD)
  show ?thesis
    by (rule decimal_tokenI [OF s good_int_take [OF digits10_good k(1)] f _ _ _ d]) (use assms in \<open>simp_all add: good_exponent_def\<close>)
qed

lemma decimal_scientific:
  assumes "0 < e \<or> e + int (length (digits10 c)) \<le> - 6"
  shows "\<exists>sg ip fp ep. decimal_token neg c e sg ip fp ep"
proof -
  let ?ds = "digits10 c"
  define fp where "fp = (if length ?ds = 1 then [] else 46 # drop 1 ?ds)"
  define x where "x = e + int (length ?ds) - 1"
  have l: "1 \<le> length ?ds" by (simp add: Suc_le_eq)
  have s: "decimal_str neg c e = (if neg then [45] else []) @ take 1 ?ds @ fp @ (69 # signed_text x)"
  proof -
    have "(e \<le> 0 \<and> e + int (length ?ds) > - 6) = False" "(e + int (length ?ds) = 1) = False" "((1::int) \<le> 0) = False"
      "nat 1 = 1" "1 - length ?ds = 0" "(int (length ?ds) \<le> 1) = (length ?ds = 1)" using assms l by auto
    then show ?thesis
      by (simp only: decimal_str_def Let_def if_False fp_def x_def replicate_0 append_Nil2 append_assoc)
  qed
  have f: "good_fraction fp" "drop 1 fp = drop 1 ?ds"
    using l digits10_digits [of c] by (auto simp: fp_def good_fraction_def list_all_iff dest: in_set_dropD)
  have d: "decimal_of_token (if neg then [45] else []) (take 1 ?ds) fp (69 # signed_text x) = Dec neg c e"
    using l append_take_drop_id [of 1 ?ds] by (simp only: decimal_of_token_def f(2) signed_good(2)) (simp add: x_def of_nat_diff)
  show ?thesis
    by (rule decimal_tokenI [OF s good_int_take [OF digits10_good] f(1) signed_good(1) _ _ d]) (use assms in auto)
qed

lemma decimal_parts: "\<exists>sg ip fp ep. decimal_token neg c e sg ip fp ep"
proof -
  consider "e = 0" | "e < 0" "e + int (length (digits10 c)) > 0" | "0 < e \<or> e + int (length (digits10 c)) \<le> - 6"
    | "e < 0" "e + int (length (digits10 c)) \<le> 0" "e + int (length (digits10 c)) > - 6" by linarith
  then show ?thesis
  proof cases
    case 1
    have "decimal_token neg c e (if neg then [45] else []) (digits10 c) [] []"
      using 1 digits10_good [of c] by (simp add: decimal_token_def decimal_str_def Let_def good_fraction_def good_exponent_def)
    then show ?thesis by blast
  qed (use decimal_point decimal_scientific decimal_small in blast)+
qed

section \<open>Reading back a value\<close>

text \<open>
  What a written value is read as: an integral decimal is written without a point or an exponent, so
  it comes back as an integer; everything else comes back unchanged.
\<close>

fun wire_form :: "json \<Rightarrow> json" where
  "wire_form (JDec (Dec neg c e)) = (if e = 0 then JInt (if neg then - int c else int c) else JDec (Dec neg c e))"
| "wire_form (JArr xs) = JArr (map wire_form xs)"
| "wire_form (JObj kvs) = JObj (map (\<lambda>p. (fst p, wire_form (snd p))) kvs)"
| "wire_form v = v"

lemma skip_space_id: "s \<noteq> [] \<Longrightarrow> \<not> json_space (hd s) \<Longrightarrow> skip_space s = s"
  by (cases s) (simp_all add: skip_space_def)

lemma strict_fields [simp]:
  "parse_int strict_hooks = (\<lambda>sg ip. Inr (JInt (int_of_token sg ip)))" "parse_float strict_hooks = parse_decimal"
  "parse_constant strict_hooks = ''invalid_json_number''" "object_pairs_hook strict_hooks = unique_object"
  by (simp_all add: strict_hooks_def)

lemma parse_value_number:
  assumes "sg = [] \<or> sg = [45]" "good_int ip"
  shows "parse_value h (Suc n) (sg @ ip @ x) = parse_number h (sg @ ip @ x)"
proof -
  obtain d ds where ip: "ip = d # ds" "is_digit d" using assms(2) by (cases ip) (auto simp: good_int_def)
  then show ?thesis using assms(1) by (auto simp: parse_scalar_def starts_def lit_def is_digit_def)
qed

lemma parse_int_value:
  "stops r \<Longrightarrow> parse_value strict_hooks (Suc n) (int_text i @ r) = Inr (JInt i, r)"
proof -
  assume r: "stops r"
  obtain sg where s: "int_text i = sg @ digits10 (nat \<bar>i\<bar>)" "sg = [] \<or> sg = [45]" using int_token by blast
  have "parse_value strict_hooks (Suc n) (int_text i @ r) = parse_number strict_hooks (int_text i @ r)"
    using parse_value_number [OF s(2) digits10_good] s(1) by (simp del: parse_value.simps)
  then show ?thesis using read_int [OF r, of i] by (auto simp: parse_number_def)
qed

lemma parse_decimal_value:
  assumes "stops r" "parse_value strict_hooks n (decimal_str neg c e @ r) = Inr (w, r')"
  shows "w = wire_form (JDec (Dec neg c e)) \<and> r' = r"
proof -
  obtain m where m: "n = Suc m" using assms(2) by (cases n) auto
  obtain sg ip fp ep where t: "decimal_token neg c e sg ip fp ep" using decimal_parts by blast
  then have s: "decimal_str neg c e = sg @ ip @ fp @ ep" "sg = [] \<or> sg = [45]" "good_int ip" "good_fraction fp" "good_exponent ep"
    by (auto simp: decimal_token_def)
  have "parse_value strict_hooks n (decimal_str neg c e @ r) = parse_number strict_hooks (sg @ ip @ fp @ ep @ r)"
    unfolding m s(1) append_assoc by (rule parse_value_number [OF s(2,3)])
  then have "parse_number strict_hooks (sg @ ip @ fp @ ep @ r) = Inr (w, r')" using assms(2) by simp
  then have p: "bindE (if fp = [] \<and> ep = [] then Inr (JInt (int_of_token sg ip)) else parse_decimal sg ip fp ep) (\<lambda>v. Inr (v, r)) = Inr (w, r')"
    unfolding parse_number_def read_number_token [OF s(2-5) assms(1)] strict_fields option.case prod.case .
  show ?thesis
  proof (cases "e = 0")
    case True
    then have "fp = []" "ep = []" "ip = digits10 c" "sg = (if neg then [45] else [])" using t by (auto simp: decimal_token_def)
    then show ?thesis using p True by (auto simp: int_of_token_def)
  next
    case False
    then have "fp \<noteq> [] \<or> ep \<noteq> []" "decimal_of_token sg ip fp ep = Dec neg c e" using t by (auto simp: decimal_token_def)
    then show ?thesis using p False by (auto simp: parse_decimal_def Let_def elim!: bindE_InrE split: if_splits)
  qed
qed

lemma encode_value_head: "encode_json_value v = Inr t \<Longrightarrow> t \<noteq> [] \<and> \<not> json_space (hd t) \<and> hd t \<noteq> 93 \<and> hd t \<noteq> 125"
proof (cases v)
  case (JInt i)
  assume "encode_json_value v = Inr t"
  then show ?thesis using JInt int_token [of i] digits10_good [of "nat \<bar>i\<bar>"]
    by (cases "digits10 (nat \<bar>i\<bar>)") (auto simp: good_int_def is_digit_def json_space_def)
next
  case (JDec d)
  assume e: "encode_json_value v = Inr t"
  then obtain neg c x where d: "d = Dec neg c x" "t = decimal_str neg c x" using JDec by (auto split: decimal.splits if_splits)
  obtain sg ip fp ep where "decimal_token neg c x sg ip fp ep" using decimal_parts by blast
  then show ?thesis using d(2) by (cases ip) (auto simp: decimal_token_def good_int_def is_digit_def json_space_def)
qed (auto simp: lit_def json_space_def quote_def elim!: bindE_InrE split: if_splits)

lemma encode_skip: "encode_json_value v = Inr t \<Longrightarrow> skip_space (t @ r) = t @ r"
  using encode_value_head [of v t] by (intro skip_space_id) simp_all

lemma join_head: "ts \<noteq> [] \<Longrightarrow> hd ts \<noteq> [] \<Longrightarrow> hd (join_with 44 ts @ r) = hd (hd ts) \<and> join_with 44 ts \<noteq> []"
  by (cases ts; cases "tl ts") auto

lemma after_close: "close \<noteq> 44 \<Longrightarrow> \<not> json_space close \<Longrightarrow> after_element close (close # r) = Inr (Inl r)"
  by (simp add: after_element_def skip_space_def)

lemma after_comma: "close \<noteq> 44 \<Longrightarrow> after_element close (44 # r) = Inr (Inr (skip_space r))"
  by (simp add: after_element_def skip_space_def json_space_def)

definition reads_back :: "json \<Rightarrow> bool" where
  "reads_back v \<longleftrightarrow> (\<forall>t r n w r'. encode_json_value v = Inr t \<longrightarrow> stops r \<longrightarrow>
    parse_value strict_hooks n (t @ r) = Inr (w, r') \<longrightarrow> w = wire_form v \<and> r' = r)"

lemma items_back:
  assumes "list_all2 (\<lambda>x t. encode_json_value x = Inr t) xs ts" "xs \<noteq> []" "\<forall>x \<in> set xs. reads_back x"
    "parse_items strict_hooks n (join_with 44 ts @ 93 # r) = Inr (ws, r')"
  shows "ws = map wire_form xs \<and> r' = r"
  using assms
proof (induction xs arbitrary: ts n ws)
  case (Cons x xs)
  obtain t ts' where ts: "ts = t # ts'" "encode_json_value x = Inr t" "list_all2 (\<lambda>x t. encode_json_value x = Inr t) xs ts'"
    using Cons.prems(1) by (auto simp: list_all2_Cons1)
  obtain m where n: "n = Suc m" using Cons.prems(4) by (cases n) auto
  show ?case
  proof (cases ts')
    case Nil
    then have xs: "xs = []" using ts(3) by simp
    have s: "stops (93 # r)" by (simp add: stops_def)
    obtain v q where v: "parse_value strict_hooks m (t @ 93 # r) = Inr (v, q)"
      using Cons.prems(4) unfolding n ts(1) Nil by (auto elim!: bindE_InrE)
    have "v = wire_form x \<and> q = 93 # r" using Cons.prems(3) ts(2) s v unfolding reads_back_def by auto
    then show ?thesis using Cons.prems(4) v xs unfolding n ts(1) Nil by (simp add: after_close json_space_def)
  next
    case (Cons t' ts'')
    then have j: "join_with 44 ts @ 93 # r = t @ 44 # join_with 44 ts' @ 93 # r" using ts(1) by simp
    have s: "stops (44 # join_with 44 ts' @ 93 # r)" by (simp add: stops_def)
    obtain v q where v: "parse_value strict_hooks m (t @ 44 # join_with 44 ts' @ 93 # r) = Inr (v, q)"
      using Cons.prems(4) unfolding n j by (auto elim!: bindE_InrE)
    have vq: "v = wire_form x" "q = 44 # join_with 44 ts' @ 93 # r"
      using Cons.prems(3) ts(2) s v unfolding reads_back_def by auto
    obtain x' xs' where xs: "xs = x' # xs'" "encode_json_value x' = Inr t'" using ts(3) Cons by (auto simp: list_all2_Cons2)
    have sk: "skip_space (join_with 44 ts' @ 93 # r) = join_with 44 ts' @ 93 # r"
      using encode_value_head [OF xs(2)] join_head [of ts' "93 # r"] Cons by (intro skip_space_id) auto
    obtain ws' where "parse_items strict_hooks m (join_with 44 ts' @ 93 # r) = Inr (ws', r')" "ws = v # ws'"
      using Cons.prems(4) v unfolding n j by (auto simp: vq(2) after_comma sk elim!: bindE_InrE)
    then show ?thesis using Cons.IH [OF ts(3), of m ws'] Cons.prems(3) xs(1) vq(1) by simp
  qed
qed simp

lemma read_key_quote: "s \<noteq> [] \<Longrightarrow> \<not> json_space (hd s) \<Longrightarrow> read_key (quote k @ 58 # s) = Inr (k, s)"
  using read_string_quote [of k "58 # s"] skip_space_id [of s] skip_space_id [of "58 # s"]
  by (simp add: read_key_def quote_def json_space_def)

definition member_text :: "ustr \<times> json \<Rightarrow> ustr \<Rightarrow> bool" where
  "member_text p m \<longleftrightarrow> (\<exists>t. encode_json_value (snd p) = Inr t \<and> m = quote (fst p) @ 58 # t)"

lemma members_back:
  assumes "list_all2 member_text kvs ts" "kvs \<noteq> []" "\<forall>p \<in> set kvs. reads_back (snd p)"
    "parse_members strict_hooks n (join_with 44 ts @ 125 # r) = Inr (ws, r')"
  shows "ws = map (\<lambda>p. (fst p, wire_form (snd p))) kvs \<and> r' = r"
  using assms
proof (induction kvs arbitrary: ts n ws)
  case (Cons p kvs)
  obtain t ts' where ts: "ts = (quote (fst p) @ 58 # t) # ts'" "encode_json_value (snd p) = Inr t" "list_all2 member_text kvs ts'"
  proof -
    obtain m ts' where "ts = m # ts'" "member_text p m" "list_all2 member_text kvs ts'"
      using Cons.prems(1) by (auto simp: list_all2_Cons1)
    then show thesis using that unfolding member_text_def by blast
  qed
  have key: "read_key (quote (fst p) @ 58 # t @ x) = Inr (fst p, t @ x)" for x
    using encode_value_head [OF ts(2)] by (intro read_key_quote) simp_all
  obtain m where n: "n = Suc m" using Cons.prems(4) by (cases n) auto
  show ?case
  proof (cases ts')
    case Nil
    then have xs: "kvs = []" using ts(3) by simp
    have s: "stops (125 # r)" by (simp add: stops_def)
    obtain v q where v: "parse_value strict_hooks m (t @ 125 # r) = Inr (v, q)"
      using Cons.prems(4) unfolding n ts(1) Nil by (auto simp: key elim!: bindE_InrE)
    have "v = wire_form (snd p) \<and> q = 125 # r" using Cons.prems(3) ts(2) s v unfolding reads_back_def by auto
    then show ?thesis using Cons.prems(4) v xs unfolding n ts(1) Nil by (simp add: key after_close json_space_def)
  next
    case (Cons t' ts'')
    let ?rest = "44 # join_with 44 ts' @ 125 # r"
    have j: "join_with 44 ts @ 125 # r = quote (fst p) @ 58 # t @ ?rest" using ts(1) Cons by simp
    have s: "stops ?rest" by (simp add: stops_def)
    obtain v q where v: "parse_value strict_hooks m (t @ ?rest) = Inr (v, q)"
      using Cons.prems(4) unfolding n j by (auto simp: key elim!: bindE_InrE)
    have vq: "v = wire_form (snd p)" "q = ?rest" using Cons.prems(3) ts(2) s v unfolding reads_back_def by auto
    obtain p' kvs' where xs: "kvs = p' # kvs'" "member_text p' t'" using ts(3) Cons by (auto simp: list_all2_Cons2)
    have sk: "skip_space (join_with 44 ts' @ 125 # r) = join_with 44 ts' @ 125 # r"
      using xs(2) join_head [of ts' "125 # r"] Cons by (intro skip_space_id) (auto simp: member_text_def quote_def json_space_def)
    obtain ws' where "parse_members strict_hooks m (join_with 44 ts' @ 125 # r) = Inr (ws', r')" "ws = (fst p, v) # ws'"
      using Cons.prems(4) v unfolding n j by (auto simp: key vq(2) after_comma sk elim!: bindE_InrE)
    then show ?thesis using Cons.IH [OF ts(3), of m ws'] Cons.prems(3) xs(1) vq(1) by simp
  qed
qed simp

lemma array_back:
  assumes "\<forall>x \<in> set xs. reads_back x"
  shows "reads_back (JArr xs)"
  unfolding reads_back_def
proof (intro allI impI)
  fix t r n w r'
  assume e: "encode_json_value (JArr xs) = Inr t" and s: "stops r" and p: "parse_value strict_hooks n (t @ r) = Inr (w, r')"
  obtain ts where ts: "mapE encode_json_value xs = Inr ts" "t = 91 # join_with 44 ts @ [93]" using e by (auto elim!: bindE_InrE)
  then have l: "list_all2 (\<lambda>x t. encode_json_value x = Inr t) xs ts" by (simp add: mapE_Inr_iff)
  obtain m where n: "n = Suc m" using p by (cases n) auto
  show "w = wire_form (JArr xs) \<and> r' = r"
  proof (cases xs)
    case Nil
    then show ?thesis using l p n ts(2) by (auto simp: skip_space_def json_space_def)
  next
    case (Cons x xs')
    then obtain t1 ts' where t1: "ts = t1 # ts'" "encode_json_value x = Inr t1" using l by (auto simp: list_all2_Cons1)
    let ?body = "join_with 44 ts @ 93 # r"
    have h: "hd ?body = hd t1" "?body \<noteq> []" "\<not> json_space (hd t1)" "hd t1 \<noteq> 93"
      using encode_value_head [OF t1(2)] join_head [of ts "93 # r"] t1(1) by auto
    then have "skip_space ?body = ?body" by (intro skip_space_id) auto
    then obtain ws where "parse_items strict_hooks m ?body = Inr (ws, r')" "w = JArr ws"
      using p h unfolding n ts(2) by (auto elim!: bindE_InrE)
    then show ?thesis using items_back [OF l _ assms] Cons by simp
  qed
qed

lemma object_back:
  assumes "\<forall>p \<in> set kvs. reads_back (snd p)"
  shows "reads_back (JObj kvs)"
  unfolding reads_back_def
proof (intro allI impI)
  fix t r n w r'
  assume e: "encode_json_value (JObj kvs) = Inr t" and s: "stops r" and p: "parse_value strict_hooks n (t @ r) = Inr (w, r')"
  obtain ts where ts: "list_all2 member_text kvs ts" "t = 123 # join_with 44 ts @ [125]"
  proof -
    obtain ts where "mapE (\<lambda>p. bindE (encode_json_value (snd p)) (\<lambda>t. Inr (quote (fst p) @ [58] @ t))) kvs = Inr ts"
      "t = 123 # join_with 44 ts @ [125]" using e by (auto elim!: bindE_InrE)
    moreover from this(1) have "list_all2 member_text kvs ts"
      unfolding mapE_Inr_iff by (rule list_all2_mono) (auto simp: bindE_Inr_iff member_text_def)
    ultimately show thesis using that by blast
  qed
  obtain m where n: "n = Suc m" using p by (cases n) auto
  show "w = wire_form (JObj kvs) \<and> r' = r"
  proof (cases kvs)
    case Nil
    then show ?thesis using ts p n by (auto simp: skip_space_def json_space_def unique_object_def split: if_splits)
  next
    case (Cons q kvs')
    then obtain t1 ts' where t1: "ts = t1 # ts'" "member_text q t1" using ts(1) by (auto simp: list_all2_Cons1)
    let ?body = "join_with 44 ts @ 125 # r"
    have h: "hd ?body = 34" "?body \<noteq> []"
      using t1 join_head [of ts "125 # r"] by (auto simp: member_text_def quote_def)
    then have "skip_space ?body = ?body" by (intro skip_space_id) (auto simp: json_space_def)
    then obtain ws where "parse_members strict_hooks m ?body = Inr (ws, r')" "unique_object ws = Inr w"
      using p h unfolding n ts(2) by (auto elim!: bindE_InrE)
    then show ?thesis using members_back [OF ts(1) _ assms] Cons by (auto simp: unique_object_def split: if_splits)
  qed
qed

lemma encode_reads_back: "reads_back v"
proof (induction v)
  case (JBool b)
  show ?case unfolding reads_back_def
  proof (intro allI impI)
    fix t r n w r'
    assume "encode_json_value (JBool b) = Inr t" "stops r" "parse_value strict_hooks n (t @ r) = Inr (w, r')"
    then show "w = wire_form (JBool b) \<and> r' = r" by (cases n) (auto simp: parse_scalar_def starts_def lit_def split: if_splits)
  qed
next
  case JNull
  show ?case unfolding reads_back_def
  proof (intro allI impI)
    fix t r n w r'
    assume "encode_json_value JNull = Inr t" "stops r" "parse_value strict_hooks n (t @ r) = Inr (w, r')"
    then show "w = wire_form JNull \<and> r' = r" by (cases n) (auto simp: parse_scalar_def starts_def lit_def)
  qed
next
  case (JStr s)
  show ?case unfolding reads_back_def
  proof (intro allI impI)
    fix t r n w r'
    assume "encode_json_value (JStr s) = Inr t" "stops r" "parse_value strict_hooks n (t @ r) = Inr (w, r')"
    then show "w = wire_form (JStr s) \<and> r' = r" using read_string_quote [of s r] by (cases n) (auto simp: quote_def)
  qed
next
  case (JInt i)
  show ?case unfolding reads_back_def
  proof (intro allI impI)
    fix t r n w r'
    assume "encode_json_value (JInt i) = Inr t" "stops r" "parse_value strict_hooks n (t @ r) = Inr (w, r')"
    then show "w = wire_form (JInt i) \<and> r' = r" using parse_int_value [of r] by (cases n) (auto simp del: parse_value.simps(2))
  qed
next
  case (JDec d)
  show ?case unfolding reads_back_def using parse_decimal_value by (cases d) (auto split: if_splits)
next
  case (JArr xs)
  then show ?case by (intro array_back) simp
next
  case (JObj kvs)
  then show ?case by (intro object_back) (auto simp: snds.simps)
qed (simp add: reads_back_def)

section \<open>The fuel is enough\<close>

lemma read_string_shorter: "read_string s = Some (t, r) \<Longrightarrow> length r < length s"
proof (induction s arbitrary: t r rule: read_string.induct)
  case (2 c cs)
  show ?case
  proof (cases "c = 34 \<or> c \<noteq> 92")
    case True
    then show ?thesis using 2 by (fastforce simp: prepend_def split: if_splits)
  next
    case False
    then show ?thesis using 2
      by (fastforce simp: prepend_def split: list.splits if_splits option.splits)
  qed
qed simp

lemma take_integer_length: "length (take_integer s) \<le> length s"
  by (auto simp: take_integer_def length_takeWhile_le split: list.splits)

lemma read_number_shorter: "read_number s = Some (sg, ip, fp, ep, r) \<Longrightarrow> length r < length s"
proof -
  assume a: "read_number s = Some (sg, ip, fp, ep, r)"
  define s1 where "s1 = drop (length sg) s"
  have ip: "ip = take_integer s1" "ip \<noteq> []" and r: "length r \<le> length (drop (length ip) s1)"
    using a by (auto simp: read_number_def Let_def s1_def split: if_splits)
  have "0 < length s1" "0 < length ip" using ip by (auto simp: take_integer_def)
  then have "length r < length s1" using r unfolding length_drop by linarith
  then show ?thesis by (simp add: s1_def)
qed

lemma skip_space_length: "length (skip_space s) \<le> length s"
  by (simp add: skip_space_def length_dropWhile_le)

lemma after_element_shorter:
  "after_element c s = Inr (Inl r) \<Longrightarrow> length r < length s" "after_element c s = Inr (Inr r) \<Longrightarrow> length r < length s"
  using skip_space_length [of s] skip_space_length
  by (auto simp: after_element_def split: list.splits if_splits) (metis le_trans length_Cons less_Suc_eq_le not_less)+

lemma read_key_shorter: "read_key s = Inr (k, r) \<Longrightarrow> length r < length s"
proof -
  assume "read_key s = Inr (k, r)"
  then obtain cs q q' where "s = 34 # cs" "read_string cs = Some (k, q)" "skip_space q = 58 # q'" "r = skip_space q'"
    by (auto simp: read_key_def split: list.splits if_splits option.splits)
  then show ?thesis using read_string_shorter [of cs k q] skip_space_length [of q] skip_space_length [of q'] by simp
qed

lemma parse_scalar_shorter: "parse_scalar h s = Inr (v, r) \<Longrightarrow> length r < length s"
  using read_number_shorter
  by (cases s) (fastforce simp: parse_scalar_def parse_number_def starts_def elim!: bindE_InrE split: if_splits option.splits)+

lemma parse_shorter:
  "parse_value h n s = Inr (v, r) \<Longrightarrow> length r < length s"
  "parse_items h n s = Inr (vs, r) \<Longrightarrow> length r < length s"
  "parse_members h n s = Inr (kvs, r) \<Longrightarrow> length r < length s"
proof (induction h n s and h n s and h n s arbitrary: v r and vs r and kvs r rule: parse_value_parse_items_parse_members.induct)
  case (2 h n s)
  show ?case
  proof (cases s)
    case (Cons c cs)
    have t: "skip_space cs \<noteq> [] \<Longrightarrow> length (tl (skip_space cs)) < length s"
      using skip_space_length [of cs] Cons by (cases "skip_space cs") auto
    have q: "length q < length (skip_space cs) \<Longrightarrow> length q < length s" for q :: ustr
      using skip_space_length [of cs] Cons by simp
    consider "c = 34" | "c = 123" | "c = 91" | "c \<noteq> 34" "c \<noteq> 123" "c \<noteq> 91" by blast
    then show ?thesis
    proof cases
      case 1
      then show ?thesis using "2.prems" Cons read_string_shorter [of cs] by (fastforce split: option.splits)
    next
      case 2
      then show ?thesis using "2.prems" "2.IH"(1) [OF Cons] Cons t q
        by (auto simp: Let_def elim!: bindE_InrE split: if_splits)
    next
      case 3
      then show ?thesis using "2.prems" "2.IH"(2) [OF Cons] Cons t q
        by (auto simp: Let_def elim!: bindE_InrE split: if_splits)
    next
      case 4
      then show ?thesis using "2.prems" Cons parse_scalar_shorter [of h s v r] by simp
    qed
  qed (use "2.prems" in simp)
next
  case (4 h n s)
  obtain v q x where v: "parse_value h n s = Inr (v, q)" "after_element 93 q = Inr x"
    and x: "(case x of Inl r' \<Rightarrow> Inr ([v], r') | Inr r' \<Rightarrow> bindE (parse_items h n r') (\<lambda>(vs, r''). Inr (v # vs, r''))) = Inr (vs, r)"
    using "4.prems" by (auto elim!: bindE_InrE)
  have q: "length q < length s" using "4.IH"(1) v(1) by blast
  show ?case
  proof (cases x)
    case (Inl a)
    then show ?thesis using x q after_element_shorter(1) [of 93 q a] v(2) by simp
  next
    case (Inr a)
    then obtain us where "parse_items h n a = Inr (us, r)" using x by (auto elim!: bindE_InrE)
    then have "length r < length a" using "4.IH"(2) [OF _ _ _ Inr] v by fastforce
    then show ?thesis using q after_element_shorter(2) [of 93 q a] v(2) Inr by simp
  qed
next
  case (6 h n s)
  obtain k r0 v q x where v: "read_key s = Inr (k, r0)" "parse_value h n r0 = Inr (v, q)" "after_element 125 q = Inr x"
    and x: "(case x of Inl r' \<Rightarrow> Inr ([(k, v)], r')
      | Inr r' \<Rightarrow> bindE (parse_members h n r') (\<lambda>(kvs, r''). Inr ((k, v) # kvs, r''))) = Inr (kvs, r)"
    using "6.prems" by (auto elim!: bindE_InrE)
  have q: "length q < length s" using "6.IH"(1) [OF _ refl] v(1,2) read_key_shorter by fastforce
  show ?case
  proof (cases x)
    case (Inl a)
    then show ?thesis using x q after_element_shorter(1) [of 125 q a] v(3) by simp
  next
    case (Inr a)
    then obtain us where "parse_members h n a = Inr (us, r)" using x by (auto elim!: bindE_InrE)
    then have "length r < length a" using "6.IH"(2) [OF _ refl _ refl _ Inr] v by fastforce
    then show ?thesis using q after_element_shorter(2) [of 125 q a] v(3) Inr by simp
  qed
qed simp_all

lemma strict_codes:
  "unique_object kvs \<noteq> Inl ''out_of_fuel''" "parse_decimal sg ip fp ep \<noteq> Inl ''out_of_fuel''"
  "parse_scalar strict_hooks s \<noteq> Inl ''out_of_fuel''" "after_element c s \<noteq> Inl ''out_of_fuel''" "read_key s \<noteq> Inl ''out_of_fuel''"
  by (auto simp: unique_object_def parse_decimal_def parse_scalar_def parse_number_def after_element_def read_key_def Let_def
      bindE_Inl_iff split: list.splits option.splits if_splits)

lemma parse_enough:
  "2 * length s < n \<Longrightarrow> parse_value strict_hooks n s \<noteq> Inl ''out_of_fuel''"
  "2 * length s + 1 < n \<Longrightarrow> parse_items strict_hooks n s \<noteq> Inl ''out_of_fuel''"
  "2 * length s + 1 < n \<Longrightarrow> parse_members strict_hooks n s \<noteq> Inl ''out_of_fuel''"
proof (induction n arbitrary: s)
  case (Suc n)
  {
    case 1
    show ?case
    proof (cases s)
      case (Cons c cs)
      have "2 * length (skip_space cs) + 1 < n" using 1 Cons skip_space_length [of cs] by simp
      then show ?thesis using Suc.IH(2,3) [of "skip_space cs"] Cons strict_codes
        by (auto simp: Let_def bindE_Inl_iff split: option.splits)
    qed simp
  next
    case 2
    have "parse_value strict_hooks n s \<noteq> Inl ''out_of_fuel''" using 2 Suc.IH(1) [of s] by simp
    moreover have "parse_items strict_hooks n a \<noteq> Inl ''out_of_fuel''"
      if "parse_value strict_hooks n s = Inr (v, q)" "after_element 93 q = Inr (Inr a)" for v q a
      using 2 Suc.IH(2) [of a] parse_shorter(1) [OF that(1)] after_element_shorter(2) [OF that(2)] by simp
    ultimately show ?case using strict_codes by (auto simp: bindE_Inl_iff split: sum.splits)
  next
    case 3
    have v: "parse_value strict_hooks n q \<noteq> Inl ''out_of_fuel''" if "read_key s = Inr (k, q)" for k q
      using 3 Suc.IH(1) [of q] read_key_shorter [OF that] by simp
    have "parse_members strict_hooks n a \<noteq> Inl ''out_of_fuel''"
      if "read_key s = Inr (k, p)" "parse_value strict_hooks n p = Inr (v, q)" "after_element 125 q = Inr (Inr a)" for k p v q a
      using 3 Suc.IH(3) [of a] read_key_shorter [OF that(1)] parse_shorter(1) [OF that(2)] after_element_shorter(2) [OF that(3)] by simp
    then show ?case using v strict_codes by (auto simp: bindE_Inl_iff split: sum.splits)
  }
qed simp_all

section \<open>Documents as bytes\<close>

definition ActionRequest_to_json_bytes :: "action_request \<Rightarrow> code + bytes" where
  "ActionRequest_to_json_bytes r = to_json_bytes (ActionRequest_to_dict r)"
definition AuthorizationDecision_to_json_bytes :: "authorization_decision \<Rightarrow> code + bytes" where
  "AuthorizationDecision_to_json_bytes r = to_json_bytes (AuthorizationDecision_to_dict r)"
definition ApprovalRecord_to_json_bytes :: "approval_record \<Rightarrow> code + bytes" where
  "ApprovalRecord_to_json_bytes r = to_json_bytes (ApprovalRecord_to_dict r)"
definition ProtocolError_to_json_bytes :: "protocol_error \<Rightarrow> code + bytes" where
  "ProtocolError_to_json_bytes r = to_json_bytes (ProtocolError_to_dict r)"
definition ReconciliationRecord_to_json_bytes :: "reconciliation_record \<Rightarrow> code + bytes" where
  "ReconciliationRecord_to_json_bytes r = to_json_bytes (ReconciliationRecord_to_dict r)"

definition parse_action_json :: "bytes \<Rightarrow> code + action_request" where
  "parse_action_json document = bindE (strict_loads_bytes document) parse_action"
definition parse_decision_json :: "bytes \<Rightarrow> code + authorization_decision" where
  "parse_decision_json document = bindE (strict_loads_bytes document) parse_decision"
definition parse_approval_json :: "bytes \<Rightarrow> code + approval_record" where
  "parse_approval_json document = bindE (strict_loads_bytes document) parse_approval"
definition parse_error_json :: "bytes \<Rightarrow> code + protocol_error" where
  "parse_error_json document = bindE (strict_loads_bytes document) parse_error"
definition parse_reconciliation_json :: "bytes \<Rightarrow> code + reconciliation_record" where
  "parse_reconciliation_json document = bindE (strict_loads_bytes document) parse_reconciliation"

lemma json_loads_encode: "encode_json_value v = Inr t \<Longrightarrow> json_loads strict_hooks t = Inr w \<Longrightarrow> w = wire_form v"
proof -
  assume e: "encode_json_value v = Inr t" and l: "json_loads strict_hooks t = Inr w"
  obtain r where "parse_value strict_hooks (2 * length t + 1) (t @ []) = Inr (w, r)"
    using l encode_skip [OF e, of "[]"]
    by (auto simp: json_loads_def simp del: parse_value.simps(2) elim!: bindE_InrE split: if_splits)
  then show ?thesis using encode_reads_back [of v] e unfolding reads_back_def stops_def by blast
qed

lemma to_json_bytes_back:
  assumes "to_json_bytes dict = Inr b"
  shows "\<exists>d. dict = Inr d \<and> strict_loads_bytes b = Inr (wire_form d)"
proof -
  obtain d t v where d: "dict = Inr d" "encode_json_value d = Inr t" "scalars t" "b = utf8 t" "strict_loads_bytes b = Inr v"
    using assms by (auto simp: to_json_bytes_def elim!: bindE_InrE split: if_splits)
  have "strict_loads_json t = Inr v" using d(3-5) utf8_decode_utf8 [of t] by (simp add: strict_loads_bytes_def split: if_splits)
  then have "json_loads strict_hooks t = Inr v"
    by (auto simp: strict_loads_json_def preflight_wire_def elim!: bindE_InrE split: if_splits)
  then show ?thesis using d json_loads_encode by blast
qed

lemma document_back:
  assumes "to_json_bytes dict = Inr b" "\<And>d. dict = Inr d \<Longrightarrow> parse d = Inr r"
  shows "\<exists>d. dict = Inr d \<and> strict_loads_bytes b = Inr (wire_form d) \<and> (wire_form d = d \<longrightarrow> bindE (strict_loads_bytes b) parse = Inr r)"
  using to_json_bytes_back [OF assms(1)] assms(2) by auto

section \<open>The reader accepts what the writer writes\<close>

text \<open>
  The conditions under which a value can be sent: nesting, collection and number limits of the reader,
  and distinct keys, which every dict has.
\<close>

fun fits :: "nat \<Rightarrow> json \<Rightarrow> bool" where
  "fits d (JObj kvs) \<longleftrightarrow>
    d < MAX_NESTING \<and> length kvs \<le> MAX_COLLECTION_ITEMS \<and> distinct (map fst kvs) \<and> (\<forall>p \<in> set kvs. fits (d + 1) (snd p))"
| "fits d (JArr xs) \<longleftrightarrow> d < MAX_NESTING \<and> (\<forall>x \<in> set xs. fits (d + 1) x)"
| "fits d (JInt i) \<longleftrightarrow> length (int_text i) \<le> MAX_NUMERIC_TOKEN_BYTES"
| "fits d (JDec v) \<longleftrightarrow>
    (case v of DSpecial \<Rightarrow> False
     | Dec neg c e \<Rightarrow> length (decimal_str neg c e) \<le> MAX_NUMERIC_TOKEN_BYTES \<and> \<bar>adjusted v\<bar> \<le> 10000)"
| "fits d JAbsent \<longleftrightarrow> False"
| "fits d v \<longleftrightarrow> True"

lemma number_text:
  obtains sg ip fp ep where "decimal_str neg c e = sg @ ip @ fp @ ep" "sg = [] \<or> sg = [45]" "good_int ip" "good_fraction fp" "good_exponent ep"
proof -
  obtain sg ip fp ep where d: "decimal_token neg c e sg ip fp ep" using decimal_parts by blast
  show thesis by (rule that [of sg ip fp ep]) (use d in \<open>auto simp: decimal_token_def\<close>)
qed

lemma number_pattern_decimal: "number_pattern (decimal_str neg c e)"
proof (rule number_text [of neg c e])
  fix sg ip fp ep
  assume s: "decimal_str neg c e = sg @ ip @ fp @ ep" "sg = [] \<or> sg = [45]" "good_int ip" "good_fraction fp" "good_exponent ep"
  have "read_number (sg @ ip @ fp @ ep @ []) = Some (sg, ip, fp, ep, [])" by (rule read_number_token [OF s(2-5)]) (simp add: stops_def)
  then show ?thesis by (simp add: number_pattern_def s(1))
qed

lemma hex_digit_plain: "x < 16 \<Longrightarrow> Canonical_Json.hex_digit x \<noteq> 34 \<and> Canonical_Json.hex_digit x \<noteq> 92"
  by (auto simp: Canonical_Json.hex_digit_def)

lemma encode_total: "fits d v \<Longrightarrow> \<exists>t. encode_json_value v = Inr t"
proof (induction d v rule: fits.induct)
  case (1 d kvs)
  have "\<forall>p \<in> set kvs. \<exists>m. bindE (encode_json_value (snd p)) (\<lambda>t. Inr (quote (fst p) @ [58] @ t)) = Inr m"
    using 1 by (fastforce simp: bindE_Inr_iff)
  then have "\<exists>ts. mapE (\<lambda>p. bindE (encode_json_value (snd p)) (\<lambda>t. Inr (quote (fst p) @ [58] @ t))) kvs = Inr ts"
    by (induction kvs) auto
  then show ?case by auto
next
  case (2 d xs)
  then have "\<forall>x \<in> set xs. \<exists>t. encode_json_value x = Inr t" by simp
  then have "\<exists>ts. mapE encode_json_value xs = Inr ts" by (induction xs) auto
  then show ?case by auto
qed (auto simp: number_pattern_decimal split: decimal.splits)

lemma scan_string: "scan (concat (map escape_char s) @ 34 # r) d True False = scan r d False False"
proof (induction s)
  case (Cons c s)
  show ?case
  proof (cases "c < 32 \<and> c \<noteq> 8 \<and> c \<noteq> 9 \<and> c \<noteq> 10 \<and> c \<noteq> 12 \<and> c \<noteq> 13")
    case True
    then have "escape_char c = [92, 117, 48, 48, Canonical_Json.hex_digit (c div 16), Canonical_Json.hex_digit (c mod 16)]"
      by (simp add: escape_char_def)
    moreover have "c div 16 < 16" "c mod 16 < 16" using True by auto
    ultimately show ?thesis using Cons hex_digit_plain [of "c div 16"] hex_digit_plain [of "c mod 16"] by simp
  next
    case False
    then have "(\<exists>e. escape_char c = [92, e]) \<or> escape_char c = [c] \<and> c \<noteq> 34 \<and> c \<noteq> 92"
      by (auto simp: escape_char_def)
    then show ?thesis using Cons by (elim disjE exE conjE) simp_all
  qed
qed simp

lemma scan_quote: "scan (quote s @ r) d False False = scan r d False False"
  using scan_string [of s r d] by (simp add: quote_def)

lemma number_chars:
  "good_int ip \<Longrightarrow> good_fraction fp \<Longrightarrow> good_exponent ep \<Longrightarrow> sg = [] \<or> sg = [45] \<Longrightarrow> \<forall>c \<in> set (sg @ ip @ fp @ ep). number_tail c"
  by (auto simp: good_int_def good_fraction_def good_exponent_def number_tail_def list_all_iff)

lemma scan_number:
  assumes "\<forall>c \<in> set t. number_tail c" "t \<noteq> []" "hd t = 45 \<or> is_digit (hd t)" "stops r" "length t \<le> MAX_NUMERIC_TOKEN_BYTES"
  shows "scan (t @ r) d False False = scan r d False False"
proof -
  obtain c cs where t: "t = c # cs" using assms(2) by (cases t) auto
  have r: "r = [] \<or> \<not> number_tail (hd r)" using assms(4) by (auto simp: stops_def number_tail_def is_digit_def)
  have "takeWhile number_tail (cs @ r) = cs" "dropWhile number_tail (cs @ r) = r"
    using assms(1) t r by (cases r; auto simp: takeWhile_append dropWhile_append)+
  moreover have "utf8_len t = length t"
    using assms(1) by (induction t) (auto simp: utf8_len_def number_tail_def is_digit_def utf8_char_def)
  moreover have "c \<noteq> 34" "\<not> is_open c" "\<not> is_close c" using assms(3) t by (auto simp: is_digit_def is_open_def is_close_def)
  ultimately show ?thesis using assms(3,5) t by (simp del: takeWhile_eq_all_conv)
qed

lemma scan_items:
  assumes "list_all2 (\<lambda>x t. \<forall>r. stops r \<longrightarrow> scan (t @ r) d False False = scan r d False False) xs ts" "stops (close # r)"
    "close \<noteq> 44"
  shows "scan (join_with 44 ts @ close # r) d False False = scan (close # r) d False False"
  using assms(1)
proof (induction xs ts rule: list_all2_induct)
  case (Cons x xs t ts)
  have comma: "scan (44 # q) d False False = scan q d False False" for q
    by (simp add: is_open_def is_close_def is_digit_def)
  show ?case
  proof (cases ts)
    case Nil
    then show ?thesis using Cons.hyps(1) assms(2) by simp
  next
    case (Cons t' ts')
    then have "scan (t @ 44 # join_with 44 ts @ close # r) d False False = scan (44 # join_with 44 ts @ close # r) d False False"
      using Cons.hyps(1) by (simp add: stops_def)
    then show ?thesis using Cons Cons.IH comma by simp
  qed
qed simp

lemma scan_brackets:
  assumes "is_open a" "is_close b" "d < MAX_NESTING" "scan (ts @ b # r) (d + 1) False False = scan (b # r) (d + 1) False False"
  shows "scan (a # ts @ b # r) d False False = scan r d False False"
proof -
  have "a \<noteq> 34" "b \<noteq> 34" "\<not> is_open b" using assms(1,2) by (auto simp: is_open_def is_close_def)
  then show ?thesis using assms by simp
qed

definition scans_over :: "nat \<Rightarrow> json \<Rightarrow> bool" where
  "scans_over d v \<longleftrightarrow> (\<forall>t r. encode_json_value v = Inr t \<longrightarrow> stops r \<longrightarrow> scan (t @ r) d False False = scan r d False False)"

lemma scan_encode: "fits d v \<Longrightarrow> scans_over d v"
proof (induction d v rule: fits.induct)
  case (1 d kvs)
  show ?case unfolding scans_over_def
  proof (intro allI impI)
    fix t r assume e: "encode_json_value (JObj kvs) = Inr t" and r: "stops r"
    obtain ts where m: "mapE (\<lambda>p. bindE (encode_json_value (snd p)) (\<lambda>t. Inr (quote (fst p) @ [58] @ t))) kvs = Inr ts"
      "t = 123 # join_with 44 ts @ [125]" using e by (auto elim!: bindE_InrE)
    have "list_all2 (\<lambda>x t. \<forall>r. stops r \<longrightarrow> scan (t @ r) (d + 1) False False = scan r (d + 1) False False) kvs ts"
    proof (rule list.rel_mono_strong [OF m(1) [unfolded mapE_Inr_iff]])
      fix p mt
      assume p: "p \<in> set kvs" and t: "bindE (encode_json_value (snd p)) (\<lambda>t. Inr (quote (fst p) @ [58] @ t)) = Inr mt"
      have s: "scans_over (d + 1) (snd p)" using 1 p by simp
      obtain u where "encode_json_value (snd p) = Inr u" "mt = quote (fst p) @ 58 # u" using t by (auto elim!: bindE_InrE)
      then show "\<forall>r. stops r \<longrightarrow> scan (mt @ r) (d + 1) False False = scan r (d + 1) False False"
        using s by (simp add: scans_over_def scan_quote is_open_def is_close_def is_digit_def)
    qed
    then have "scan (join_with 44 ts @ 125 # r) (d + 1) False False = scan (125 # r) (d + 1) False False"
      by (rule scan_items) (simp_all add: stops_def)
    then show "scan (t @ r) d False False = scan r d False False"
      using scan_brackets [of 123 125 d "join_with 44 ts" r] 1(2) m(2) by (simp add: is_open_def is_close_def)
  qed
next
  case (2 d xs)
  show ?case unfolding scans_over_def
  proof (intro allI impI)
    fix t r assume e: "encode_json_value (JArr xs) = Inr t" and r: "stops r"
    obtain ts where m: "mapE encode_json_value xs = Inr ts" "t = 91 # join_with 44 ts @ [93]" using e by (auto elim!: bindE_InrE)
    have "list_all2 (\<lambda>x t. \<forall>r. stops r \<longrightarrow> scan (t @ r) (d + 1) False False = scan r (d + 1) False False) xs ts"
      by (rule list.rel_mono_strong [OF m(1) [unfolded mapE_Inr_iff]]) (use 2 in \<open>auto simp: scans_over_def\<close>)
    then have "scan (join_with 44 ts @ 93 # r) (d + 1) False False = scan (93 # r) (d + 1) False False"
      by (rule scan_items) (simp_all add: stops_def)
    then show "scan (t @ r) d False False = scan r d False False"
      using scan_brackets [of 91 93 d "join_with 44 ts" r] 2(2) m(2) by (simp add: is_open_def is_close_def)
  qed
next
  case (3 d i)
  obtain sg where s: "int_text i = sg @ digits10 (nat \<bar>i\<bar>)" "sg = [] \<or> sg = [45]" using int_token by blast
  have g: "good_int (digits10 (nat \<bar>i\<bar>))" by (rule digits10_good)
  have "\<forall>c \<in> set (int_text i). number_tail c"
    using number_chars [OF g, of "[]" "[]" sg] s by (simp add: good_fraction_def good_exponent_def)
  moreover have "int_text i \<noteq> []" "hd (int_text i) = 45 \<or> is_digit (hd (int_text i))"
    using s g by (cases "digits10 (nat \<bar>i\<bar>)"; auto simp: good_int_def)+
  ultimately show ?case using 3 scan_number by (auto simp: scans_over_def)
next
  case (4 d v)
  show ?case
  proof (cases v)
    case (Dec neg c e)
    show ?thesis
    proof (rule number_text [of neg c e])
      fix sg ip fp ep
      assume s: "decimal_str neg c e = sg @ ip @ fp @ ep" "sg = [] \<or> sg = [45]" "good_int ip" "good_fraction fp" "good_exponent ep"
      have "decimal_str neg c e \<noteq> []" "hd (decimal_str neg c e) = 45 \<or> is_digit (hd (decimal_str neg c e))"
        using s by (cases ip; auto simp: good_int_def)+
      moreover have "\<forall>c \<in> set (decimal_str neg c e). number_tail c" unfolding s(1) by (rule number_chars [OF s(3-5,2)])
      ultimately show ?thesis using 4 Dec scan_number by (auto simp: scans_over_def split: if_splits)
    qed
  qed (use 4 in simp)
next
  case "6_1"
  show ?case by (simp add: scans_over_def lit_def is_open_def is_close_def is_digit_def)
next
  case "6_2"
  show ?case by (simp add: scans_over_def lit_def is_open_def is_close_def is_digit_def split: if_split)
next
  case "6_3"
  show ?case by (simp add: scans_over_def scan_quote)
qed simp

definition parses :: "json \<Rightarrow> bool" where
  "parses v \<longleftrightarrow> (\<forall>t r n. encode_json_value v = Inr t \<longrightarrow> stops r \<longrightarrow> 2 * length t < n \<longrightarrow>
    parse_value strict_hooks n (t @ r) = Inr (wire_form v, r))"

lemma parsesI:
  assumes "\<And>t r n. encode_json_value v = Inr t \<Longrightarrow> stops r \<Longrightarrow> 2 * length t < Suc n \<Longrightarrow> isOk (parse_value strict_hooks (Suc n) (t @ r))"
  shows "parses v"
  unfolding parses_def
proof (intro allI impI)
  fix t r n
  assume t: "encode_json_value v = Inr t" "stops r" "2 * length t < n"
  then obtain m where "n = Suc m" by (cases n) auto
  then obtain w r' where "parse_value strict_hooks n (t @ r) = Inr (w, r')" using assms [of t r m] t by (auto simp: isOk_iff)
  then show "parse_value strict_hooks n (t @ r) = Inr (wire_form v, r)" using encode_reads_back [of v] t unfolding reads_back_def by blast
qed

lemma items_parse:
  assumes "list_all2 (\<lambda>x t. encode_json_value x = Inr t) xs ts" "xs \<noteq> []" "\<forall>x \<in> set xs. parses x"
    "2 * length (join_with 44 ts) + 1 < n"
  shows "isOk (parse_items strict_hooks n (join_with 44 ts @ 93 # r))"
  using assms
proof (induction xs arbitrary: ts n)
  case (Cons x xs)
  obtain t ts' where ts: "ts = t # ts'" "encode_json_value x = Inr t" "list_all2 (\<lambda>x t. encode_json_value x = Inr t) xs ts'"
    using Cons.prems(1) by (auto simp: list_all2_Cons1)
  obtain m where n: "n = Suc m" using Cons.prems(4) by (cases n) auto
  have v: "parse_value strict_hooks m (t @ q) = Inr (wire_form x, q)" if "stops q" "2 * length t < m" for q
    using Cons.prems(3) ts(2) that by (simp add: parses_def)
  show ?case
  proof (cases ts')
    case Nil
    then show ?thesis using v [of "93 # r"] Cons.prems(4) ts(1) n by (simp add: stops_def after_close json_space_def)
  next
    case (Cons t' ts'')
    let ?rest = "join_with 44 ts' @ 93 # r"
    have j: "join_with 44 ts @ 93 # r = t @ 44 # ?rest" "length (join_with 44 ts) = length t + 1 + length (join_with 44 ts')"
      using ts(1) Cons by simp_all
    obtain x' xs' where xs: "xs = x' # xs'" "encode_json_value x' = Inr t'" using ts(3) Cons by (auto simp: list_all2_Cons2)
    have sk: "skip_space ?rest = ?rest"
      using encode_value_head [OF xs(2)] join_head [of ts' "93 # r"] Cons by (intro skip_space_id) auto
    have "isOk (parse_items strict_hooks m ?rest)" using Cons.IH [OF ts(3), of m] Cons.prems(3,4) xs(1) j(2) n by simp
    then show ?thesis using v [of "44 # ?rest"] Cons.prems(4) j n sk by (auto simp: stops_def after_comma isOk_iff)
  qed
qed simp

lemma members_parse:
  assumes "list_all2 member_text kvs ts" "kvs \<noteq> []" "\<forall>p \<in> set kvs. parses (snd p)" "2 * length (join_with 44 ts) + 1 < n"
  shows "isOk (parse_members strict_hooks n (join_with 44 ts @ 125 # r))"
  using assms
proof (induction kvs arbitrary: ts n)
  case (Cons p kvs)
  obtain t ts' where ts: "ts = (quote (fst p) @ 58 # t) # ts'" "encode_json_value (snd p) = Inr t" "list_all2 member_text kvs ts'"
    using Cons.prems(1) unfolding member_text_def list_all2_Cons1 by blast
  have key: "read_key (quote (fst p) @ 58 # t @ x) = Inr (fst p, t @ x)" for x
    using encode_value_head [OF ts(2)] by (intro read_key_quote) simp_all
  obtain m where n: "n = Suc m" using Cons.prems(4) by (cases n) auto
  have v: "parse_value strict_hooks m (t @ q) = Inr (wire_form (snd p), q)" if "stops q" "2 * length t < m" for q
    using Cons.prems(3) ts(2) that by (simp add: parses_def)
  show ?case
  proof (cases ts')
    case Nil
    then show ?thesis using v [of "125 # r"] Cons.prems(4) ts(1) n by (simp add: key stops_def after_close json_space_def)
  next
    case (Cons t' ts'')
    let ?rest = "join_with 44 ts' @ 125 # r"
    have j: "join_with 44 ts @ 125 # r = quote (fst p) @ 58 # t @ 44 # ?rest"
      "length (join_with 44 ts) = length (quote (fst p)) + length t + 2 + length (join_with 44 ts')"
      using ts(1) Cons by simp_all
    obtain p' kvs' where xs: "kvs = p' # kvs'" "member_text p' t'" using ts(3) Cons by (auto simp: list_all2_Cons2)
    have sk: "skip_space ?rest = ?rest"
      using xs(2) join_head [of ts' "125 # r"] Cons by (intro skip_space_id) (auto simp: member_text_def quote_def json_space_def)
    have "isOk (parse_members strict_hooks m ?rest)" using Cons.IH [OF ts(3), of m] Cons.prems(3,4) xs(1) j(2) n by simp
    then show ?thesis using v [of "44 # ?rest"] Cons.prems(4) j n sk by (auto simp: key stops_def after_comma isOk_iff)
  qed
qed simp

lemma array_parses:
  assumes "\<forall>x \<in> set xs. parses x"
  shows "parses (JArr xs)"
proof (rule parsesI)
  fix t r n
  assume e: "encode_json_value (JArr xs) = Inr t" and "stops r" and n: "2 * length t < Suc n"
  obtain ts where ts: "mapE encode_json_value xs = Inr ts" "t = 91 # join_with 44 ts @ [93]" using e by (auto elim!: bindE_InrE)
  then have l: "list_all2 (\<lambda>x t. encode_json_value x = Inr t) xs ts" by (simp add: mapE_Inr_iff)
  show "isOk (parse_value strict_hooks (Suc n) (t @ r))"
  proof (cases xs)
    case Nil
    then show ?thesis using l ts(2) by (simp add: skip_space_def json_space_def)
  next
    case (Cons x xs')
    then obtain t1 ts' where t1: "ts = t1 # ts'" "encode_json_value x = Inr t1" using l by (auto simp: list_all2_Cons1)
    let ?body = "join_with 44 ts @ 93 # r"
    have h: "hd ?body = hd t1" "?body \<noteq> []" "\<not> json_space (hd t1)" "hd t1 \<noteq> 93"
      using encode_value_head [OF t1(2)] join_head [of ts "93 # r"] t1(1) by auto
    have sk: "skip_space ?body = ?body" using h by (intro skip_space_id) auto
    have "isOk (parse_items strict_hooks n ?body)" by (rule items_parse [OF l _ assms]) (use Cons n ts(2) in simp_all)
    then show ?thesis using h sk ts(2) by (auto simp: isOk_iff)
  qed
qed

lemma object_parses:
  assumes "\<forall>p \<in> set kvs. parses (snd p)" "length kvs \<le> MAX_COLLECTION_ITEMS" "distinct (map fst kvs)"
  shows "parses (JObj kvs)"
proof (rule parsesI)
  fix t r n
  assume e: "encode_json_value (JObj kvs) = Inr t" and "stops r" and n: "2 * length t < Suc n"
  obtain ts where m: "mapE (\<lambda>p. bindE (encode_json_value (snd p)) (\<lambda>t. Inr (quote (fst p) @ [58] @ t))) kvs = Inr ts"
    and ts: "t = 123 # join_with 44 ts @ [125]" using e by (auto elim!: bindE_InrE)
  have l: "list_all2 member_text kvs ts"
    using m unfolding mapE_Inr_iff by (rule list_all2_mono) (auto simp: bindE_Inr_iff member_text_def)
  show "isOk (parse_value strict_hooks (Suc n) (t @ r))"
  proof (cases kvs)
    case Nil
    then show ?thesis using l ts by (simp add: skip_space_def json_space_def unique_object_def)
  next
    case (Cons q kvs')
    then obtain t1 ts' where t1: "ts = t1 # ts'" "member_text q t1" using l by (auto simp: list_all2_Cons1)
    let ?body = "join_with 44 ts @ 125 # r"
    have h: "hd ?body = 34" "?body \<noteq> []" using t1 join_head [of ts "125 # r"] by (auto simp: member_text_def quote_def)
    have sk: "skip_space ?body = ?body" using h by (intro skip_space_id) (auto simp: json_space_def)
    have "isOk (parse_members strict_hooks n ?body)" by (rule members_parse [OF l _ assms(1)]) (use Cons n ts in simp_all)
    then obtain ws r' where w: "parse_members strict_hooks n ?body = Inr (ws, r')" by (auto simp: isOk_iff)
    have "\<forall>p \<in> set kvs. reads_back (snd p)" using encode_reads_back by blast
    then have "ws = map (\<lambda>p. (fst p, wire_form (snd p))) kvs" using members_back [OF l _ _ w] Cons by blast
    then have "isOk (unique_object ws)" using assms(2,3) by (simp add: unique_object_def comp_def)
    then show ?thesis using h sk ts w by (auto simp: isOk_iff)
  qed
qed

lemma fits_parses: "fits d v \<Longrightarrow> parses v"
proof (induction d v rule: fits.induct)
  case (1 d kvs)
  then show ?case by (intro object_parses) simp_all
next
  case (2 d xs)
  then show ?case by (intro array_parses) simp
next
  case (3 d i)
  show ?case by (rule parsesI) (use parse_int_value in \<open>auto simp: isOk_iff simp del: parse_value.simps\<close>)
next
  case (4 d v)
  show ?case
  proof (cases v)
    case (Dec neg c e)
    show ?thesis
    proof (rule parsesI)
      fix t r n
      assume t: "encode_json_value (JDec v) = Inr t" "stops r"
      obtain sg ip fp ep where d: "decimal_token neg c e sg ip fp ep" using decimal_parts by blast
      then have s: "decimal_str neg c e = sg @ ip @ fp @ ep" "sg = [] \<or> sg = [45]" "good_int ip" "good_fraction fp" "good_exponent ep"
        by (auto simp: decimal_token_def)
      have tt: "t = sg @ ip @ fp @ ep" using t(1) Dec s(1) by (simp split: if_splits)
      have "parse_value strict_hooks (Suc n) (t @ r) = parse_number strict_hooks (sg @ ip @ fp @ ep @ r)"
        unfolding tt append_assoc by (rule parse_value_number [OF s(2,3)])
      moreover have "isOk (parse_number strict_hooks (sg @ ip @ fp @ ep @ r))"
        unfolding parse_number_def read_number_token [OF s(2-5) t(2)] strict_fields option.case prod.case
        using d 4 Dec by (cases "e = 0") (auto simp: decimal_token_def parse_decimal_def)
      ultimately show "isOk (parse_value strict_hooks (Suc n) (t @ r))" by simp
    qed
  qed (use 4 in simp)
next
  case "6_1"
  show ?case by (rule parsesI) (auto simp add: lit_def parse_scalar_def starts_def)
next
  case "6_2"
  show ?case by (rule parsesI) (auto simp add: lit_def parse_scalar_def starts_def split: if_splits)
next
  case "6_3"
  show ?case by (rule parsesI) (auto simp: quote_def read_string_quote)
qed simp

lemma wire_form_limits: "node_count (wire_form v) = node_count v" "inside d (wire_form v) \<longleftrightarrow> inside d v"
proof -
  show "node_count (wire_form v) = node_count v"
    by (induction v rule: wire_form.induct) (auto simp: comp_def intro!: arg_cong [of _ _ sum_list])
  show "inside d (wire_form v) \<longleftrightarrow> inside d v"
    by (induction v arbitrary: d rule: wire_form.induct) (auto)
qed

text \<open>Every value within the limits can be sent: the writer's own check of its bytes passes.\<close>

lemma to_json_bytes_total:
  assumes "dict = Inr d" "fits 0 d" "isOk (validate_memory_limits d)" "encode_json_value d = Inr t" "scalars t"
    "length (utf8 t) \<le> MAX_WIRE_BYTES"
  shows "to_json_bytes dict = Inr (utf8 t)"
proof -
  have "scan (t @ []) 0 False False = Inr ()" using scan_encode [OF assms(2)] assms(4) by (simp add: scans_over_def stops_def)
  then have "preflight_wire t = Inr t" using assms(5,6) by (simp add: preflight_wire_def)
  moreover have "parse_value strict_hooks (2 * length t + 1) (t @ []) = Inr (wire_form d, [])"
    using fits_parses [OF assms(2)] assms(4) by (simp add: parses_def stops_def del: parse_value.simps)
  then have "json_loads strict_hooks t = Inr (wire_form d)"
    using encode_skip [OF assms(4), of "[]"] by (simp add: json_loads_def skip_space_def del: parse_value.simps)
  moreover have "isOk (validate_memory_limits (wire_form d))" using assms(3) by (simp add: memory_limits_iff wire_form_limits)
  ultimately have "strict_loads_bytes (utf8 t) = Inr (wire_form d)"
    using assms(5,6) utf8_decode_utf8 [of t] by (auto simp: strict_loads_bytes_def strict_loads_json_def isOk_iff)
  then show ?thesis using assms by (simp add: to_json_bytes_def)
qed

section \<open>Documents of printable text\<close>

definition printable :: "ustr \<Rightarrow> bool" where
  "printable s \<longleftrightarrow> list_all (\<lambda>c. 32 \<le> c \<and> c \<le> 126) s"

lemma printable_simps [simp]:
  "printable []" "printable (a @ b) \<longleftrightarrow> printable a \<and> printable b" "printable (c # s) \<longleftrightarrow> 32 \<le> c \<and> c \<le> 126 \<and> printable s"
  by (auto simp: printable_def)

lemma printable_scalars: "printable s \<Longrightarrow> scalars s \<and> length (utf8 s) = length s"
  by (induction s) (auto simp: printable_def scalars_def is_surrogate_def utf8_char_def utf8_len_def)

lemma quote_plain: "printable s \<Longrightarrow> printable (quote s) \<and> length (quote s) \<le> 2 * length s + 2"
proof -
  have "printable s \<Longrightarrow> printable (concat (map escape_char s)) \<and> length (concat (map escape_char s)) \<le> 2 * length s"
    by (induction s) (auto simp: escape_char_def)
  then show "printable s \<Longrightarrow> ?thesis" by (auto simp: quote_def)
qed

fun plain_value :: "json \<Rightarrow> bool" where
  "plain_value (JStr s) \<longleftrightarrow> printable s"
| "plain_value (JObj kvs) \<longleftrightarrow> (\<forall>p \<in> set kvs. printable (fst p) \<and> plain_value (snd p))"
| "plain_value (JArr xs) \<longleftrightarrow> (\<forall>x \<in> set xs. plain_value x)"
| "plain_value (JBool b) \<longleftrightarrow> True"
| "plain_value v \<longleftrightarrow> False"

fun text_bound :: "json \<Rightarrow> nat" where
  "text_bound (JStr s) = 2 * length s + 2"
| "text_bound (JObj kvs) = 2 + sum_list (map (\<lambda>p. 2 * length (fst p) + text_bound (snd p) + 3 + 1) kvs)"
| "text_bound (JArr xs) = 2 + sum_list (map (\<lambda>x. text_bound x + 1) xs)"
| "text_bound v = 5"

lemma join_plain:
  assumes "list_all2 (\<lambda>x t. printable t \<and> length t \<le> f x) xs ts"
  shows "printable (join_with 44 ts) \<and> length (join_with 44 ts) \<le> sum_list (map (\<lambda>x. f x + 1) xs)"
  using assms
proof (induction xs ts rule: list_all2_induct)
  case (Cons x xs t ts)
  then show ?case by (cases ts) auto
qed simp

lemma plain_text: "encode_json_value v = Inr t \<Longrightarrow> plain_value v \<Longrightarrow> printable t \<and> length t \<le> text_bound v"
proof (induction v arbitrary: t rule: plain_value.induct)
  case (2 kvs)
  obtain ts where m: "mapE (\<lambda>p. bindE (encode_json_value (snd p)) (\<lambda>t. Inr (quote (fst p) @ [58] @ t))) kvs = Inr ts"
    and t: "t = 123 # join_with 44 ts @ [125]" using "2.prems"(1) by (auto elim!: bindE_InrE)
  have "list_all2 (\<lambda>p t. printable t \<and> length t \<le> 2 * length (fst p) + text_bound (snd p) + 3) kvs ts"
  proof (rule list.rel_mono_strong [OF m [unfolded mapE_Inr_iff]])
    fix p mt
    assume p: "p \<in> set kvs" and e: "bindE (encode_json_value (snd p)) (\<lambda>t. Inr (quote (fst p) @ [58] @ t)) = Inr mt"
    obtain u where "encode_json_value (snd p) = Inr u" "mt = quote (fst p) @ 58 # u" using e by (auto elim!: bindE_InrE)
    then show "printable mt \<and> length mt \<le> 2 * length (fst p) + text_bound (snd p) + 3"
      using "2.IH" [OF p] "2.prems"(2) p quote_plain [of "fst p"] by (fastforce)
  qed
  then show ?case using t join_plain [of "\<lambda>p. 2 * length (fst p) + text_bound (snd p) + 3" kvs ts] by simp
next
  case (3 xs)
  obtain ts where m: "mapE encode_json_value xs = Inr ts" and t: "t = 91 # join_with 44 ts @ [93]"
    using "3.prems"(1) by (auto elim!: bindE_InrE)
  have "list_all2 (\<lambda>x t. printable t \<and> length t \<le> text_bound x) xs ts"
    by (rule list.rel_mono_strong [OF m [unfolded mapE_Inr_iff]]) (use 3 in auto)
  then show ?case using t join_plain [of text_bound xs ts] by simp
qed (use quote_plain in \<open>fastforce simp: lit_def\<close>)+

lemma plain_wire_form: "plain_value v \<Longrightarrow> wire_form v = v"
  by (induction v rule: plain_value.induct) (auto simp: map_idI prod_eq_iff)

lemma to_json_bytes_plain:
  assumes "dict = Inr d" "fits 0 d" "isOk (validate_memory_limits d)" "plain_value d" "text_bound d \<le> MAX_WIRE_BYTES"
  obtains b where "to_json_bytes dict = Inr b" "strict_loads_bytes b = Inr d" "length b \<le> text_bound d"
proof -
  obtain t where t: "encode_json_value d = Inr t" using encode_total [OF assms(2)] by blast
  have p: "printable t" "length t \<le> text_bound d" using plain_text [OF t assms(4)] by auto
  have b: "to_json_bytes dict = Inr (utf8 t)"
    by (rule to_json_bytes_total [OF assms(1-3) t]) (use p assms(5) printable_scalars in fastforce)+
  moreover have "strict_loads_bytes (utf8 t) = Inr d"
    using to_json_bytes_back [OF b] assms(1) plain_wire_form [OF assms(4)] by simp
  ultimately show thesis using that p printable_scalars by metis
qed

section \<open>Properties\<close>

text \<open>
  C37: Documents survive the wire.  The bytes a document is written as are read by the strict reader
  as the written value, integral decimals as integers, and if the value holds no integral decimal
  the parser of its kind returns the same record.
\<close>

theorem wire_roundtrip:
  "(ActionRequest_to_json_bytes a = Inr b \<longrightarrow>
      (\<exists>d. ActionRequest_to_dict a = Inr d \<and> strict_loads_bytes b = Inr (wire_form d) \<and> (wire_form d = d \<longrightarrow> parse_action_json b = Inr a))) \<and>
    (AuthorizationDecision_to_json_bytes v = Inr b \<longrightarrow>
      (\<exists>d. AuthorizationDecision_to_dict v = Inr d \<and> strict_loads_bytes b = Inr (wire_form d) \<and> (wire_form d = d \<longrightarrow> parse_decision_json b = Inr v))) \<and>
    (ApprovalRecord_to_json_bytes p = Inr b \<longrightarrow>
      (\<exists>d. ApprovalRecord_to_dict p = Inr d \<and> strict_loads_bytes b = Inr (wire_form d) \<and> (wire_form d = d \<longrightarrow> parse_approval_json b = Inr p))) \<and>
    (ProtocolError_to_json_bytes e = Inr b \<longrightarrow>
      (\<exists>d. ProtocolError_to_dict e = Inr d \<and> strict_loads_bytes b = Inr (wire_form d) \<and> (wire_form d = d \<longrightarrow> parse_error_json b = Inr e))) \<and>
    (ReconciliationRecord_to_json_bytes r = Inr b \<longrightarrow>
      (\<exists>d. ReconciliationRecord_to_dict r = Inr d \<and> strict_loads_bytes b = Inr (wire_form d) \<and> (wire_form d = d \<longrightarrow> parse_reconciliation_json b = Inr r)))"
  using document_back [of "ActionRequest_to_dict a" b parse_action a] document_back [of "AuthorizationDecision_to_dict v" b parse_decision v]
    document_back [of "ApprovalRecord_to_dict p" b parse_approval p] document_back [of "ProtocolError_to_dict e" b parse_error e]
    document_back [of "ReconciliationRecord_to_dict r" b parse_reconciliation r]
  unfolding ActionRequest_to_json_bytes_def AuthorizationDecision_to_json_bytes_def ApprovalRecord_to_json_bytes_def
    ProtocolError_to_json_bytes_def ReconciliationRecord_to_json_bytes_def parse_action_json_def parse_decision_json_def
    parse_approval_json_def parse_error_json_def parse_reconciliation_json_def
  by (simp_all add: parse_action_members parse_decision_members parse_approval_members parse_error_members
      parse_reconciliation_members)

definition error_text :: ustr where
  "error_text =
    [123] @ quote (lit ''schemaVersion'') @ [58] @ quote (lit ''1'') @ [44] @ quote (lit ''code'') @ [58] @
    quote (lit ''authorization_unavailable'') @ [44] @ quote (lit ''safeMessage'') @ [58] @
    quote (lit ''Authorization is temporarily unavailable.'') @ [44] @ quote (lit ''retryable'') @ [58] @ lit ''true'' @ [44] @
    quote (lit ''actionId'') @ [58] @ quote (lit ''act_01ARZ3NDEKTSV4RRFFQ69G5FAV'') @ [125]"

lemma error_text_written: "encode_json_value (JObj (protocol_error_members sample_error)) = Inr error_text"
  by (simp add: protocol_error_members_def sample_error_def req_def opt_def sample_id_def sample_ulid_def error_text_def)

lemma error_text_sent: "ProtocolError_to_json_bytes sample_error = Inr (utf8 error_text)"
  unfolding ProtocolError_to_json_bytes_def
proof (rule to_json_bytes_total [OF samples_ok(4) _ _ error_text_written])
  show "fits 0 (JObj (protocol_error_members sample_error))"
    by (simp add: protocol_error_members_def sample_error_def req_def opt_def MAX_NESTING_def MAX_COLLECTION_ITEMS_def lit_def)
  show "isOk (validate_memory_limits (JObj (protocol_error_members sample_error)))"
    using sample_limited(3) by (simp add: limited_def)
  show "scalars error_text" "length (utf8 error_text) \<le> MAX_WIRE_BYTES"
    by (simp_all add: error_text_def quote_def escape_char_def lit_def MAX_WIRE_BYTES_def scalars_def is_surrogate_def utf8_char_def)
qed

theorem wire_roundtrip_witness:
  "\<exists>b. ProtocolError_to_json_bytes sample_error = Inr b \<and> parse_error_json b = Inr sample_error"
proof -
  have "wire_form (JObj (protocol_error_members sample_error)) = JObj (protocol_error_members sample_error)"
    by (simp add: protocol_error_members_def sample_error_def req_def opt_def)
  then show ?thesis
    using wire_roundtrip [of sample_action "utf8 error_text" sample_decision sample_approval sample_error sample_reconciliation]
      error_text_sent samples_ok(4) by auto
qed

end
