(* ===== verification/Sdk_Errors.thy ===== *)
theory Sdk_Errors
  imports Json_Text
begin

text \<open>
  The exceptions of \<open>python/src/palonexus/errors.py\<close>: their codes, messages and identifiers, the
  mapping from protocol errors, and the rendered text.  An identifier that its wire class rejects is
  dropped when the exception is made.
\<close>

datatype error_type = PaloNexusError | InvalidRequest | ModelValidationError | MissingIdentity | UnsupportedProtocol
  | AuthenticationFailed | AuthorizationUnavailable | InvalidDecision | IdempotencyConflict | ApprovalExpired
  | ApprovalScopeMismatch | CredentialRevoked | PolicyDenied | ApprovalRequired

primrec error_code :: "error_type \<Rightarrow> ustr" where
  "error_code PaloNexusError = lit ''invalid_request''"
| "error_code InvalidRequest = lit ''invalid_request''"
| "error_code ModelValidationError = lit ''invalid_request''"
| "error_code MissingIdentity = lit ''missing_identity''"
| "error_code UnsupportedProtocol = lit ''unsupported_protocol''"
| "error_code AuthenticationFailed = lit ''authentication_failed''"
| "error_code AuthorizationUnavailable = lit ''authorization_unavailable''"
| "error_code InvalidDecision = lit ''invalid_decision''"
| "error_code IdempotencyConflict = lit ''idempotency_conflict''"
| "error_code ApprovalExpired = lit ''approval_expired''"
| "error_code ApprovalScopeMismatch = lit ''approval_scope_mismatch''"
| "error_code CredentialRevoked = lit ''credential_revoked''"
| "error_code PolicyDenied = lit ''policy_denied''"
| "error_code ApprovalRequired = lit ''approval_required''"

primrec canonical_message :: "error_type \<Rightarrow> ustr" where
  "canonical_message PaloNexusError = lit ''The request is invalid.''"
| "canonical_message InvalidRequest = lit ''The request is invalid.''"
| "canonical_message ModelValidationError = lit ''The request is invalid.''"
| "canonical_message MissingIdentity = lit ''Identity is required.''"
| "canonical_message UnsupportedProtocol = lit ''The protocol version is unsupported.''"
| "canonical_message AuthenticationFailed = lit ''Authentication failed.''"
| "canonical_message AuthorizationUnavailable = lit ''Authorization is temporarily unavailable.''"
| "canonical_message InvalidDecision = lit ''The authorization decision is invalid.''"
| "canonical_message IdempotencyConflict = lit ''The idempotency key conflicts with an earlier request.''"
| "canonical_message ApprovalExpired = lit ''The approval has expired.''"
| "canonical_message ApprovalScopeMismatch = lit ''The action no longer matches the approved scope.''"
| "canonical_message CredentialRevoked = lit ''The credential has been revoked.''"
| "canonical_message PolicyDenied = lit ''Current policy denies this action.''"
| "canonical_message ApprovalRequired = lit ''Approval is required before this action can proceed.''"

definition default_retryable :: "error_type \<Rightarrow> bool" where
  "default_retryable t \<longleftrightarrow> t = AuthorizationUnavailable"

record sdk_error =
  se_type :: error_type
  se_request_id :: "ustr option"
  se_decision_id :: "ustr option"
  se_correlation_id :: "ustr option"

text \<open>\<open>_safe_identifier\<close>; None also stands for a value that is not a string.\<close>

definition safe_identifier :: "(json \<Rightarrow> code + ustr) \<Rightarrow> ustr option \<Rightarrow> ustr option" where
  "safe_identifier validator value =
    (case value of
       None \<Rightarrow> None
     | Some v \<Rightarrow> (case validator (JStr v) of Inl _ \<Rightarrow> None | Inr s \<Rightarrow> Some s))"

definition sdk_error :: "error_type \<Rightarrow> ustr option \<Rightarrow> ustr option \<Rightarrow> ustr option \<Rightarrow> sdk_error" where
  "sdk_error t rid did cid =
    \<lparr>se_type = t, se_request_id = safe_identifier RequestID rid, se_decision_id = safe_identifier DecisionID did,
     se_correlation_id = safe_identifier CorrelationID cid\<rparr>"

abbreviation bare_error :: "error_type \<Rightarrow> sdk_error" where
  "bare_error t \<equiv> sdk_error t None None None"

primrec ERROR_TYPES :: "protocol_error_code \<Rightarrow> error_type" where
  "ERROR_TYPES PE_INVALID_REQUEST = InvalidRequest"
| "ERROR_TYPES PE_MISSING_IDENTITY = MissingIdentity"
| "ERROR_TYPES PE_UNSUPPORTED_PROTOCOL = UnsupportedProtocol"
| "ERROR_TYPES PE_AUTHENTICATION_FAILED = AuthenticationFailed"
| "ERROR_TYPES PE_AUTHORIZATION_UNAVAILABLE = AuthorizationUnavailable"
| "ERROR_TYPES PE_INVALID_DECISION = InvalidDecision"
| "ERROR_TYPES PE_IDEMPOTENCY_CONFLICT = IdempotencyConflict"
| "ERROR_TYPES PE_APPROVAL_EXPIRED = ApprovalExpired"
| "ERROR_TYPES PE_APPROVAL_SCOPE_MISMATCH = ApprovalScopeMismatch"
| "ERROR_TYPES PE_CREDENTIAL_REVOKED = CredentialRevoked"
| "ERROR_TYPES PE_POLICY_DENIED = PolicyDenied"

text \<open>The exception a protocol error becomes, or the \<open>ModelValidationError\<close> that is raised instead.\<close>

definition error_from_protocol :: "protocol_error \<Rightarrow> sdk_error + sdk_error" where
  "error_from_protocol value =
    (if isOk (ProtocolError_to_dict value)
     then Inr (sdk_error (ERROR_TYPES (pe_code value)) (pe_request_id value) (pe_decision_id value) (pe_correlation_id value))
     else Inl (bare_error ModelValidationError))"

definition shown :: "string \<Rightarrow> ustr option \<Rightarrow> ustr list" where
  "shown name v = (case v of None \<Rightarrow> [] | Some s \<Rightarrow> [lit name @ [61] @ s])"

fun join_comma :: "ustr list \<Rightarrow> ustr" where
  "join_comma [] = []"
| "join_comma [x] = x"
| "join_comma (x # y # ys) = x @ lit '', '' @ join_comma (y # ys)"

definition error_str :: "sdk_error \<Rightarrow> ustr" where
  "error_str e =
    (let present = join_comma (shown ''request_id'' (se_request_id e) @ shown ''decision_id'' (se_decision_id e) @
           shown ''correlation_id'' (se_correlation_id e)) in
     error_code (se_type e) @ lit '': '' @ canonical_message (se_type e) @
     (if present = [] then [] else lit '' ('' @ present @ lit '')''))"

section \<open>Facts\<close>

lemma prefixed_printable: "prefixed_ulid p s \<Longrightarrow> printable (lit p) \<Longrightarrow> printable s"
proof -
  assume s: "prefixed_ulid p s" and p: "printable (lit p)"
  have "is_crockford c \<Longrightarrow> 32 \<le> c \<and> c \<le> 126" for c by (auto simp: is_crockford_def is_digit_def is_upper_def)
  then have "list_all is_crockford b \<Longrightarrow> printable b" for b by (auto simp: printable_def list_all_iff)
  moreover have "s = lit p @ drop (length p) s" "list_all is_crockford (drop (length p) s)"
    using s append_take_drop_id [of "length p" s] by (simp_all add: prefixed_ulid_def ulid_body_def)
  ultimately show ?thesis using p by (metis printable_simps(2))
qed

lemma safe_identifier_printable:
  "printable_option (safe_identifier RequestID v)" "printable_option (safe_identifier DecisionID v)"
  "printable_option (safe_identifier CorrelationID v)" if "printable_option = (\<lambda>x. \<forall>s. x = Some s \<longrightarrow> printable s)"
  using that prefixed_printable
  by (auto simp: safe_identifier_def RequestID_def DecisionID_def CorrelationID_def RequestID_ok_def DecisionID_ok_def
      CorrelationID_ok_def lit_def dest!: wire_string_result split: option.splits sum.splits)

lemma join_comma_printable: "\<forall>x \<in> set xs. printable x \<Longrightarrow> printable (join_comma xs)"
  by (induction xs rule: join_comma.induct) (auto simp: lit_def)

lemma safe_identifier_kept:
  "isOk (v (JStr s)) \<Longrightarrow> (\<And>x. v (JStr s) = Inr x \<Longrightarrow> x = s) \<Longrightarrow> safe_identifier v (Some s) = Some s"
  by (auto simp: safe_identifier_def isOk_iff split: sum.splits)

lemma printable_string_within: "printable s \<Longrightarrow> length s \<le> 8192 \<Longrightarrow> isOk (string_within s)"
proof -
  assume p: "printable s" and l: "length s \<le> 8192"
  have "scalars s" "utf8_len s = length s"
    using p by (induction s) (auto simp: printable_def scalars_def is_surrogate_def utf8_char_def)
  then show ?thesis using l by (simp add: string_within_def utf8_length_def MAX_WIRE_STRING_BYTES_def)
qed

lemma ulid_class_total:
  assumes "prefixed_ulid p s" "printable (lit p)" "length p \<le> 20" "\<And>x. ok x \<longleftrightarrow> prefixed_ulid p x"
  shows "wire_string ok (JStr s) = Inr s"
proof -
  have "length s \<le> 8192" using assms(1,3) unfolding prefixed_ulid_def ulid_body_def length_drop by linarith
  then have "isOk (validate_memory_limits (JStr s))"
    using printable_string_within prefixed_printable [OF assms(1,2)] by (simp add: memory_limits_iff MAX_NODES_def MAX_NESTING_def)
  then show ?thesis using assms by (intro wire_string_JStr) simp_all
qed

lemma safe_identifiers_kept:
  "all_opt RequestID_ok v \<Longrightarrow> safe_identifier RequestID v = v"
  "all_opt DecisionID_ok v \<Longrightarrow> safe_identifier DecisionID v = v"
  "all_opt CorrelationID_ok v \<Longrightarrow> safe_identifier CorrelationID v = v"
  by (cases v; simp add: safe_identifier_def RequestID_def DecisionID_def CorrelationID_def RequestID_ok_def DecisionID_ok_def
      CorrelationID_ok_def ulid_class_total [of "''req_''"] ulid_class_total [of "''dec_''"] ulid_class_total [of "''corr_''"] lit_def)+

section \<open>Properties\<close>

text \<open>
  C39: A protocol error becomes the exception it names.  For every structurally valid error document
  the mapping succeeds, and the exception has the document's code, its message, its retryable flag
  and its identifiers; so the transport's comparison of message and flag never rejects a valid document.
\<close>

theorem protocol_errors_mapped:
  assumes "isOk (ProtocolError_to_dict value)"
  shows "\<exists>e. error_from_protocol value = Inr e \<and> error_code (se_type e) = protocol_error_code_value (pe_code value) \<and>
    canonical_message (se_type e) = pe_safe_message value \<and> default_retryable (se_type e) = pe_retryable value \<and>
    se_request_id e = pe_request_id value \<and> se_decision_id e = pe_decision_id value \<and> se_correlation_id e = pe_correlation_id value"
proof -
  have s: "protocol_error_schema True value" using assms by (auto simp: ProtocolError_to_dict_def isOk_iff elim!: bindE_InrE split: if_splits)
  have "error_code (ERROR_TYPES c) = protocol_error_code_value c" "canonical_message (ERROR_TYPES c) = error_safe_message c"
    "default_retryable (ERROR_TYPES c) \<longleftrightarrow> c = PE_AUTHORIZATION_UNAVAILABLE" for c
    by (cases c; simp add: default_retryable_def)+
  then show ?thesis using assms s by (auto simp: error_from_protocol_def sdk_error_def protocol_error_schema_def safe_identifiers_kept)
qed

theorem protocol_errors_mapped_witness:
  "\<exists>e. error_from_protocol sample_error = Inr e \<and> canonical_message (se_type e) = lit ''Authorization is temporarily unavailable.''"
  using protocol_errors_mapped [of sample_error] samples_ok(4) by (auto simp: isOk_iff sample_error_def)

text \<open>
  C40: Exceptions render safely.  Whatever identifiers an exception is made with, its text consists of
  printable ASCII characters only.
\<close>

theorem error_text_printable: "printable (error_str (sdk_error t rid did cid))"
proof -
  have t: "printable (error_code t)" "printable (canonical_message t)" by (cases t; simp add: lit_def)+
  have "\<forall>x \<in> set (shown ''request_id'' (safe_identifier RequestID rid) @ shown ''decision_id'' (safe_identifier DecisionID did) @
      shown ''correlation_id'' (safe_identifier CorrelationID cid)). printable x"
    using safe_identifier_printable [OF refl] by (auto simp: shown_def lit_def split: option.splits)
  then have "printable (join_comma (shown ''request_id'' (safe_identifier RequestID rid) @ shown ''decision_id'' (safe_identifier DecisionID did) @
      shown ''correlation_id'' (safe_identifier CorrelationID cid)))" by (rule join_comma_printable)
  then show ?thesis using t by (simp add: error_str_def sdk_error_def Let_def lit_def)
qed

end
