(* ===== verification/Http_Transport.thy ===== *)
theory Http_Transport
  imports Sdk_Errors Retry_Policy Resume Canonical_Url
begin

text \<open>
  The synchronous decision transport of \<open>python/src/palonexus/transports/http.py\<close>: preparing an
  attempt, reading and classifying a response, and the retry loop of \<open>decide\<close>.

  The network, the clock, the cancellation callback, the credential provider and the random source
  are the environment \<open>transport_env\<close>, whose answers may differ at every question.  The loop is shown
  to terminate by the attempt limit of its retry policy.  The background event loop behind \<open>_send\<close> is
  part of the environment, and the async transport is not modelled.
\<close>

section \<open>Timeouts and deadlines\<close>

definition normalize_timeout :: "py_arg \<Rightarrow> pyfloat option" where
  "normalize_timeout value =
    (case normalize_float value of
       None \<Rightarrow> None
     | Some t \<Rightarrow> if \<not> isfinite t \<or> fle t (Fin 0) \<or> fless (Fin 60) t then None else Some t)"

record transport_timeouts =
  to_connect :: pyfloat
  to_read :: pyfloat
  to_write :: pyfloat
  to_pool :: pyfloat

definition TransportTimeouts :: "py_arg \<Rightarrow> py_arg \<Rightarrow> py_arg \<Rightarrow> py_arg \<Rightarrow> sdk_error + transport_timeouts" where
  "TransportTimeouts connect read_arg write pool =
    (case (normalize_timeout connect, normalize_timeout read_arg, normalize_timeout write, normalize_timeout pool) of
       (Some c, Some r, Some w, Some p) \<Rightarrow> Inr \<lparr>to_connect = c, to_read = r, to_write = w, to_pool = p\<rparr>
     | _ \<Rightarrow> Inl (bare_error InvalidRequest))"

definition normalize_deadline :: "py_arg option \<Rightarrow> sdk_error + pyfloat option" where
  "normalize_deadline deadline =
    (case deadline of
       None \<Rightarrow> Inr None
     | Some d \<Rightarrow>
         (case normalize_float d of
            None \<Rightarrow> Inl (bare_error InvalidRequest)
          | Some t \<Rightarrow> if isfinite t then Inr (Some t) else Inl (bare_error InvalidRequest)))"

definition request_timeout :: "transport_timeouts \<Rightarrow> pyfloat option \<Rightarrow> sdk_error + transport_timeouts" where
  "request_timeout timeouts deadline_remaining =
    (case deadline_remaining of
       None \<Rightarrow> Inr timeouts
     | Some r \<Rightarrow>
         if \<not> isfinite r \<or> fle r (Fin 0) then Inl (bare_error InvalidRequest)
         else Inr \<lparr>to_connect = fmin (to_connect timeouts) r, to_read = fmin (to_read timeouts) r,
           to_write = fmin (to_write timeouts) r, to_pool = fmin (to_pool timeouts) r\<rparr>)"

section \<open>Attempts\<close>

record transport_config =
  tc_endpoint :: ustr
  tc_max_response_bytes :: nat
  tc_timeouts :: transport_timeouts

record attempt =
  at_request :: action_request
  at_body :: bytes
  at_client_scope_hash :: ustr
  at_request_id :: ustr
  at_correlation_id :: ustr
  at_action_id :: ustr
  at_idempotency_key :: ustr
  at_side_effect :: ustr

text \<open>\<open>_prepare_attempt\<close>; None stands for a scope hash that is not a string.  Every failure is an \<open>InvalidRequest\<close>.\<close>

definition prepare_attempt ::
  "unicode \<Rightarrow> (bytes \<Rightarrow> ustr) \<Rightarrow> action_request \<Rightarrow> ustr option \<Rightarrow> sdk_error + attempt" where
  "prepare_attempt U H request scope_hash =
    mapErr (\<lambda>_. bare_error InvalidRequest)
     (bindE (ActionRequest_to_dict request) (\<lambda>d.
      bindE (ActionRequest_to_json_bytes request) (\<lambda>body.
      bindE (client_scope_hash U H d) (\<lambda>canonical_scope_hash.
      case scope_hash of
        None \<Rightarrow> Inl ''TypeError''
      | Some s \<Rightarrow>
          bindE (SHA256Digest (JStr s)) (\<lambda>supplied.
          if canonical_scope_hash \<noteq> supplied then Inl ''ValueError''
          else Inr \<lparr>at_request = request, at_body = body, at_client_scope_hash = canonical_scope_hash,
            at_request_id = rq_request_id request, at_correlation_id = rq_correlation_id request,
            at_action_id = rq_action_id request, at_idempotency_key = rq_idempotency_key request,
            at_side_effect = side_effect_value (rq_side_effect request)\<rparr>)))))"

definition invalid_decision :: "action_request \<Rightarrow> sdk_error" where
  "invalid_decision r = sdk_error InvalidDecision (Some (rq_request_id r)) None (Some (rq_correlation_id r))"

definition unavailable :: "action_request \<Rightarrow> sdk_error" where
  "unavailable r = sdk_error AuthorizationUnavailable (Some (rq_request_id r)) None (Some (rq_correlation_id r))"

section \<open>Timestamps\<close>

text \<open>\<open>time.strptime\<close> reads the seconds 60 and 61, unlike \<open>datetime.fromisoformat\<close>.\<close>

definition http_parse_rfc3339 :: "ustr \<Rightarrow> code + timestamp" where
  "http_parse_rfc3339 v =
    (if \<not> list_all2 matches base_template (take 19 v) then Inl ''ValueError''
     else case split_fraction (drop 19 v) of
       None \<Rightarrow> Inl ''ValueError''
     | Some (f, z) \<Rightarrow>
         if \<not> zone_shape z then Inl ''ValueError''
         else (let y = num_at v 0 4; m = num_at v 5 2; d = num_at v 8 2;
                   hh = num_at v 11 2; mi = num_at v 14 2; ss = num_at v 17 2 in
           if \<not> (valid_date y m d \<and> 0 \<le> hh \<and> hh \<le> 23 \<and> 0 \<le> mi \<and> mi \<le> 59 \<and> 0 \<le> ss \<and> ss \<le> 61) then Inl ''ValueError''
           else mapErr (\<lambda>_. ''ValueError'') (bindE (offset_of z) (\<lambda>off.
             Inr ((toordinal y m d - UNIX_EPOCH_ORDINAL) * 86400 + hh * 3600 + mi * 60 + ss - off, f)))))"

section \<open>Responses\<close>

record raw_response =
  rs_status :: int
  rs_headers :: "string \<Rightarrow> ustr list"
  rs_chunks :: "bytes list"
  rs_broken :: bool

record http_response =
  hr_status_code :: int
  hr_body :: bytes
  hr_retry_after :: "ustr option"

definition TRANSIENT_STATUS :: "int \<Rightarrow> bool" where
  "TRANSIENT_STATUS s \<longleftrightarrow> s = 408 \<or> s = 425 \<or> s = 429 \<or> (500 \<le> s \<and> s < 600)"

definition REDIRECT_STATUS :: "int \<Rightarrow> bool" where
  "REDIRECT_STATUS s \<longleftrightarrow> 300 \<le> s \<and> s \<le> 308"

definition header_value :: "ustr list \<Rightarrow> nat \<Rightarrow> ustr option" where
  "header_value values maximum =
    (case values of
       [v] \<Rightarrow>
         if v = [] \<or> length v > maximum \<or> v \<noteq> py_strip v \<or> list_ex (\<lambda>c. c < 32 \<or> c = 127) v then None else Some v
     | _ \<Rightarrow> None)"

definition content_type_ok :: "url_env \<Rightarrow> ustr list \<Rightarrow> bool" where
  "content_type_ok E values \<longleftrightarrow>
    (case values of
       [v] \<Rightarrow>
         (case map (\<lambda>p. py_lower E (py_strip p)) (split_on 59 v) of
            [t] \<Rightarrow> t = lit ''application/json''
          | [t, c] \<Rightarrow> t = lit ''application/json'' \<and>
              (c = lit ''charset=utf-8'' \<or> c = lit ''charset='' @ [34] @ lit ''utf-8'' @ [34])
          | _ \<Rightarrow> False)
     | _ \<Rightarrow> False)"

definition content_length_ok :: "nat \<Rightarrow> ustr list \<Rightarrow> bool" where
  "content_length_ok maximum values \<longleftrightarrow>
    (case values of
       [] \<Rightarrow> True
     | [v] \<Rightarrow> v \<noteq> [] \<and> list_all is_digit v \<and> length v \<le> 12 \<and> val10 v \<le> maximum
     | _ \<Rightarrow> False)"

definition content_encoding_ok :: "url_env \<Rightarrow> ustr list \<Rightarrow> bool" where
  "content_encoding_ok E values \<longleftrightarrow>
    (case values of [] \<Rightarrow> True | [v] \<Rightarrow> py_lower E (py_strip v) = lit ''identity'' | _ \<Rightarrow> False)"

definition validate_response_headers :: "url_env \<Rightarrow> (string \<Rightarrow> ustr list) \<Rightarrow> nat \<Rightarrow> code + ustr option" where
  "validate_response_headers E headers maximum =
    (if \<not> content_type_ok E (headers ''content-type'') \<or> \<not> content_encoding_ok E (headers ''content-encoding'') \<or>
        \<not> content_length_ok maximum (headers ''content-length'')
     then Inl ''ValueError''
     else Inr (header_value (headers ''retry-after'') 128))"

fun read_chunks :: "nat \<Rightarrow> bytes \<Rightarrow> bytes list \<Rightarrow> code + bytes" where
  "read_chunks maximum body [] = Inr body"
| "read_chunks maximum body (chunk # chunks) =
    (if length body + length chunk > maximum then Inl ''ValueError'' else read_chunks maximum (body @ chunk) chunks)"

datatype request_error = ConnectError | ConnectTimeout | PoolTimeout | OtherTimeout | OtherNetworkError | OtherRequestError

datatype send_failure = TransientResponse int | InvalidResponse | DeadlineExpired | RuntimeClosed | DecodingFailure
  | RequestFailure request_error | SendCancelled

definition read_response :: "url_env \<Rightarrow> nat \<Rightarrow> raw_response \<Rightarrow> send_failure + http_response" where
  "read_response E maximum r =
    mapErr (\<lambda>_. if TRANSIENT_STATUS (rs_status r) then TransientResponse (rs_status r) else InvalidResponse)
     (bindE (validate_response_headers E (rs_headers r) maximum) (\<lambda>retry_after.
      bindE (read_chunks maximum [] (rs_chunks r)) (\<lambda>body.
      if rs_broken r then Inl ''ReadError''
      else Inr \<lparr>hr_status_code = rs_status r, hr_body = body, hr_retry_after = retry_after\<rparr>)))"

section \<open>Classification\<close>

definition http_parse_decision :: "bytes \<Rightarrow> attempt \<Rightarrow> sdk_error + authorization_decision" where
  "http_parse_decision body a =
    mapErr (\<lambda>_. invalid_decision (at_request a))
     (bindE (parse_decision_json body) (\<lambda>d.
      bindE (http_parse_rfc3339 (dc_server_time d)) (\<lambda>server_time.
      bindE (http_parse_rfc3339 (dc_expires_at d)) (\<lambda>expires_at.
      if timestamp_order expires_at server_time \<le> 0 then Inl ''ValueError''
      else if dc_request_id d \<noteq> at_request_id a \<or> dc_correlation_id d \<noteq> at_correlation_id a \<or>
              dc_client_scope_hash d \<noteq> at_client_scope_hash a
      then Inl ''ValueError''
      else bindE (SHA256Digest (JStr (dc_authoritative_scope_hash d))) (\<lambda>_. Inr d)))))"

definition absent_or :: "ustr option \<Rightarrow> ustr \<Rightarrow> bool" where
  "absent_or v expected \<longleftrightarrow> (case v of None \<Rightarrow> True | Some s \<Rightarrow> s = expected)"

definition http_parse_protocol_error :: "bytes \<Rightarrow> attempt \<Rightarrow> sdk_error option" where
  "http_parse_protocol_error body a =
    (case parse_error_json body of
       Inl _ \<Rightarrow> None
     | Inr v \<Rightarrow>
         if \<not> absent_or (pe_action_id v) (at_action_id a) \<or> \<not> absent_or (pe_request_id v) (at_request_id a) \<or>
            \<not> absent_or (pe_correlation_id v) (at_correlation_id a)
         then None
         else
           (case error_from_protocol v of
              Inl _ \<Rightarrow> None
            | Inr e \<Rightarrow>
                if pe_safe_message v \<noteq> canonical_message (se_type e) \<or> pe_retryable v \<noteq> default_retryable (se_type e)
                then None else Some e))"

record retryable_failure =
  rf_failure :: retry_failure
  rf_completion :: completion_state
  rf_retry_after :: "ustr option"

definition status_failure :: "int \<Rightarrow> retryable_failure" where
  "status_failure s =
    \<lparr>rf_failure = (if s = 408 then TIMEOUT else if s = 429 then RATE_LIMITED else UNAVAILABLE),
     rf_completion = AUTHORIZATION_AMBIGUOUS, rf_retry_after = None\<rparr>"

definition exception_failure :: "request_error \<Rightarrow> retryable_failure" where
  "exception_failure e =
    \<lparr>rf_failure =
       (if e \<in> {ConnectTimeout, PoolTimeout, OtherTimeout} then TIMEOUT
        else if e \<in> {ConnectError, OtherNetworkError} then CONNECTION else UNAVAILABLE),
     rf_completion = (if e \<in> {ConnectError, ConnectTimeout, PoolTimeout} then NOT_EXECUTED else AUTHORIZATION_AMBIGUOUS),
     rf_retry_after = None\<rparr>"

datatype response_outcome = Decided authorization_decision | Refused sdk_error | Retryable retryable_failure

definition response_result :: "http_response \<Rightarrow> attempt \<Rightarrow> response_outcome" where
  "response_result r a =
    (if hr_status_code r = 200 then
       (case http_parse_decision (hr_body r) a of Inl e \<Rightarrow> Refused e | Inr d \<Rightarrow> Decided d)
     else if REDIRECT_STATUS (hr_status_code r) then Refused (invalid_decision (at_request a))
     else
       (case http_parse_protocol_error (hr_body r) a of
          Some e \<Rightarrow>
            if se_type e = AuthorizationUnavailable
            then Retryable \<lparr>rf_failure = UNAVAILABLE, rf_completion = AUTHORIZATION_AMBIGUOUS, rf_retry_after = hr_retry_after r\<rparr>
            else Refused e
        | None \<Rightarrow>
            if TRANSIENT_STATUS (hr_status_code r)
            then Retryable ((status_failure (hr_status_code r))\<lparr>rf_retry_after := hr_retry_after r\<rparr>)
            else Refused (invalid_decision (at_request a))))"

section \<open>The environment of a call\<close>

text \<open>
  What the credential provider answers, and what one use of the network ends with: a response or a
  failure.  The environment gives an answer for every iteration (from 1; 0 is the part before the
  loop) and every question of it.
\<close>

datatype credential_outcome = Acquired "ustr option" | CredentialUnavailable | InvalidCredentialDeadline | AcquisitionCancelled
  | NoCredential

datatype reply = Reply raw_response | Fails send_failure

record transport_env =
  te_closed :: "nat \<Rightarrow> bool"
  te_cancelled :: "nat \<Rightarrow> nat \<Rightarrow> bool"
  te_clock :: "nat \<Rightarrow> nat \<Rightarrow> pyfloat"
  te_reply :: "nat \<Rightarrow> reply"
  te_random :: "nat \<Rightarrow> py_arg option"
  te_sleep_cancelled :: "nat \<Rightarrow> bool"
  te_credential :: credential_outcome
  te_pow :: "pyfloat \<Rightarrow> int \<Rightarrow> pyfloat option"
  te_http_date :: "ustr \<Rightarrow> pyfloat option"
  te_text :: url_env

datatype call_result = Returned authorization_decision | Raised sdk_error | Cancelled | RaisedOther code

record outbound =
  ob_endpoint :: ustr
  ob_headers :: "(ustr \<times> ustr) list"
  ob_body :: bytes

definition outbound_request :: "transport_config \<Rightarrow> attempt \<Rightarrow> ustr \<Rightarrow> outbound" where
  "outbound_request cfg a header =
    \<lparr>ob_endpoint = tc_endpoint cfg,
     ob_headers = [(lit ''Accept'', lit ''application/json''), (lit ''Accept-Encoding'', lit ''identity''),
       (lit ''Authorization'', header), (lit ''Content-Type'', lit ''application/json''),
       (lit ''Idempotency-Key'', at_idempotency_key a), (lit ''X-PaloNexus-Protocol-Version'', lit ''1'')],
     ob_body = at_body a\<rparr>"

definition authorization_header :: "credential_outcome \<Rightarrow> attempt \<Rightarrow> call_result + ustr" where
  "authorization_header c a =
    (let failed = (\<lambda>t. Inl (Raised (sdk_error t (Some (at_request_id a)) None (Some (at_correlation_id a))))) in
     case c of
       CredentialUnavailable \<Rightarrow> failed AuthenticationFailed
     | InvalidCredentialDeadline \<Rightarrow> failed InvalidRequest
     | AcquisitionCancelled \<Rightarrow> Inl Cancelled
     | NoCredential \<Rightarrow> failed AuthenticationFailed
     | Acquired header \<Rightarrow>
         (case header of
            None \<Rightarrow> failed AuthenticationFailed
          | Some h \<Rightarrow> if h = [] then failed AuthenticationFailed else Inr h))"

definition past :: "pyfloat option \<Rightarrow> pyfloat \<Rightarrow> bool" where
  "past deadline now \<longleftrightarrow> (case deadline of None \<Rightarrow> False | Some d \<Rightarrow> fle d now)"

text \<open>One use of the network: the end of the call, or a failure that may be retried.\<close>

definition exchange :: "transport_env \<Rightarrow> transport_config \<Rightarrow> attempt \<Rightarrow> pyfloat option \<Rightarrow> nat \<Rightarrow> call_result + retryable_failure" where
  "exchange T cfg a deadline i =
    (case (case te_reply T i of Reply r \<Rightarrow> read_response (te_text T) (tc_max_response_bytes cfg) r | Fails f \<Rightarrow> Inl f) of
       Inr response \<Rightarrow>
         if te_cancelled T i 1 \<or> past deadline (te_clock T i 1) then Inl Cancelled
         else (case response_result response a of
                 Decided d \<Rightarrow> Inl (Returned d) | Refused e \<Rightarrow> Inl (Raised e) | Retryable f \<Rightarrow> Inr f)
     | Inl failure \<Rightarrow>
         (case failure of
            TransientResponse s \<Rightarrow> Inr (status_failure s)
          | DeadlineExpired \<Rightarrow> Inl Cancelled
          | SendCancelled \<Rightarrow> Inl Cancelled
          | RuntimeClosed \<Rightarrow> Inl (Raised (unavailable (at_request a)))
          | DecodingFailure \<Rightarrow> Inl (Raised (invalid_decision (at_request a)))
          | InvalidResponse \<Rightarrow> Inl (Raised (invalid_decision (at_request a)))
          | RequestFailure e \<Rightarrow> Inr (exception_failure e)))"

definition retry_request :: "transport_env \<Rightarrow> attempt \<Rightarrow> pyfloat option \<Rightarrow> pyfloat \<Rightarrow> int \<Rightarrow> retryable_failure \<Rightarrow> retry_call" where
  "retry_request T a deadline start k f =
    (let now = te_clock T (nat k) 2 in
     \<lparr>rc_attempt = ArgInt k, rc_elapsed = ArgFloat (fmax (Fin 0) (fsub now start)), rc_side_effect = Some (at_side_effect a),
      rc_failure = Some (rf_failure f), rc_completion = Completion (rf_completion f), rc_key = Some (at_idempotency_key a),
      rc_retry_after = rf_retry_after f, rc_cancelled = Some (te_cancelled T (nat k) 2),
      rc_deadline = map_option (\<lambda>d. ArgFloat (fsub d now)) deadline\<rparr>)"

definition schedule_retry_call :: "transport_env \<Rightarrow> retry_policy \<Rightarrow> attempt \<Rightarrow> pyfloat option \<Rightarrow> pyfloat \<Rightarrow> int \<Rightarrow> retryable_failure \<Rightarrow> code + bool" where
  "schedule_retry_call T p a deadline start k f =
    bindE (authorization_retry (te_pow T) (te_random T (nat k)) (te_http_date T) p (retry_request T a deadline start k f))
      (\<lambda>d. Inr (should_retry d \<and> rd_delay d \<noteq> None))"

section \<open>The loop\<close>

lemma schedule_below_limit: "schedule_retry_call T p a deadline start k f = Inr True \<Longrightarrow> k < max_attempts p"
  using retry_below_limit by (fastforce simp: schedule_retry_call_def retry_request_def Let_def elim!: bindE_InrE)

text \<open>
  The result of the call and the requests handed to \<open>_send\<close>, in order; one that meets a closed
  runtime is counted although it never reaches the network.
\<close>

function decide_loop ::
  "transport_env \<Rightarrow> transport_config \<Rightarrow> retry_policy \<Rightarrow> attempt \<Rightarrow> ustr \<Rightarrow> pyfloat option \<Rightarrow> pyfloat \<Rightarrow> int \<Rightarrow>
    call_result \<times> outbound list" where
  "decide_loop T cfg p a header deadline start k =
    (if te_closed T (nat k) then (Raised (unavailable (at_request a)), [])
     else if te_cancelled T (nat k) 0 then (Cancelled, [])
     else if past deadline (te_clock T (nat k) 0) then (Cancelled, [])
     else
       (case request_timeout (tc_timeouts cfg) (map_option (\<lambda>d. fsub d (te_clock T (nat k) 0)) deadline) of
          Inl e \<Rightarrow> (Raised e, [])
        | Inr _ \<Rightarrow>
            (case exchange T cfg a deadline (nat k) of
               Inl r \<Rightarrow> (r, [outbound_request cfg a header])
             | Inr f \<Rightarrow>
                 (case schedule_retry_call T p a deadline start k f of
                    Inl e \<Rightarrow> (RaisedOther e, [outbound_request cfg a header])
                  | Inr again \<Rightarrow>
                      if \<not> again then (Raised (unavailable (at_request a)), [outbound_request cfg a header])
                      else if te_sleep_cancelled T (nat k) then (Cancelled, [outbound_request cfg a header])
                      else (case decide_loop T cfg p a header deadline start (k + 1) of
                              (r, sent) \<Rightarrow> (r, outbound_request cfg a header # sent))))))"
  by pat_completeness auto

termination
  by (relation "measure (\<lambda>(T, cfg, p, a, header, deadline, start, k). nat (max_attempts p - k))")
    (use schedule_below_limit in auto)

declare decide_loop.simps [simp del]

definition decide ::
  "unicode \<Rightarrow> (bytes \<Rightarrow> ustr) \<Rightarrow> transport_env \<Rightarrow> transport_config \<Rightarrow> retry_policy \<Rightarrow> action_request \<Rightarrow> ustr option \<Rightarrow>
    py_arg option \<Rightarrow> call_result \<times> outbound list" where
  "decide U H T cfg p request scope_hash deadline =
    (case prepare_attempt U H request scope_hash of
       Inl e \<Rightarrow> (Raised e, [])
     | Inr a \<Rightarrow>
         (case normalize_deadline deadline of
            Inl e \<Rightarrow> (Raised e, [])
          | Inr dl \<Rightarrow>
              if te_closed T 0 then (Raised (unavailable request), [])
              else if te_cancelled T 0 0 then (Cancelled, [])
              else if past dl (te_clock T 0 0) then (Cancelled, [])
              else
                (case authorization_header (te_credential T) a of
                   Inl r \<Rightarrow> (r, [])
                 | Inr header \<Rightarrow> decide_loop T cfg p a header dl (te_clock T 0 0) 1)))"

section \<open>What the loop guarantees\<close>

lemma exchange_returned: "exchange T cfg a deadline i = Inl (Returned d) \<Longrightarrow> \<exists>body. http_parse_decision body a = Inr d"
  by (auto simp: exchange_def response_result_def split: sum.splits send_failure.splits response_outcome.splits if_splits option.splits)

lemma decide_loop_spec:
  assumes "decide_loop T cfg p a header deadline start k = (r, sent)"
  shows "(\<forall>x \<in> set sent. x = outbound_request cfg a header) \<and> length sent \<le> nat (max_attempts p - k) + 1 \<and>
    (\<forall>d. r = Returned d \<longrightarrow> sent \<noteq> [] \<and> (\<exists>body. http_parse_decision body a = Inr d))"
  using assms
proof (induction T cfg p a header deadline start k arbitrary: r sent rule: decide_loop.induct)
  case (1 T cfg p a header deadline start k)
  let ?ob = "outbound_request cfg a header"
  note run = "1.prems" [unfolded decide_loop.simps [of T cfg p a header deadline start k]]
  show ?case
  proof (cases "te_closed T (nat k) \<or> te_cancelled T (nat k) 0 \<or> past deadline (te_clock T (nat k) 0) \<or>
      (\<exists>e. request_timeout (tc_timeouts cfg) (map_option (\<lambda>d. fsub d (te_clock T (nat k) 0)) deadline) = Inl e)")
    case True
    then show ?thesis using run by (auto split: if_splits)
  next
    case False
    then obtain q where g: "\<not> te_closed T (nat k)" "\<not> te_cancelled T (nat k) 0" "\<not> past deadline (te_clock T (nat k) 0)"
      "request_timeout (tc_timeouts cfg) (map_option (\<lambda>d. fsub d (te_clock T (nat k) 0)) deadline) = Inr q"
      by (cases "request_timeout (tc_timeouts cfg) (map_option (\<lambda>d. fsub d (te_clock T (nat k) 0)) deadline)") auto
    show ?thesis
    proof (cases "exchange T cfg a deadline (nat k)")
      case (Inl x)
      then show ?thesis using run g exchange_returned [of T cfg a deadline "nat k"] by auto
    next
      case (Inr f)
      show ?thesis
      proof (cases "schedule_retry_call T p a deadline start k f = Inr True \<and> \<not> te_sleep_cancelled T (nat k)")
        case True
        obtain r' sent' where n: "decide_loop T cfg p a header deadline start (k + 1) = (r', sent')" by fastforce
        have rs: "r = r'" "sent = ?ob # sent'" using run g Inr True n by auto
        have "k < max_attempts p" using True schedule_below_limit by blast
        then have "length sent \<le> nat (max_attempts p - k) + 1"
          using "1.IH" [OF g Inr, of True] True n rs by auto
        then show ?thesis using "1.IH" [OF g Inr, of True] True n rs by auto
      next
        case False
        then show ?thesis using run g Inr by (auto split: sum.splits if_splits)
      qed
    qed
  qed
qed

lemma http_parse_wf: "http_parse_rfc3339 v = Inr t \<Longrightarrow> wf_timestamp t"
proof -
  have "list_all is_digit (takeWhile is_digit x)" for x by (auto simp: list_all_iff dest: set_takeWhileD)
  then show "http_parse_rfc3339 v = Inr t \<Longrightarrow> wf_timestamp t"
    unfolding http_parse_rfc3339_def split_fraction_def
    by (auto simp: wf_timestamp_def bindE_Inr_iff Let_def split: if_splits option.splits list.splits)
qed

text \<open>The parser of the transport is that of the client except on the seconds 60 and 61.\<close>

lemma http_parse_agrees: "parse_timestamp v = Inr t \<longleftrightarrow> http_parse_rfc3339 v = Inr t \<and> num_at v 17 2 \<le> 59"
  unfolding http_parse_rfc3339_def parse_timestamp_def parse_rfc3339_def
  by (auto simp: Let_def valid_time_def split: option.splits if_splits)

lemma http_leap_second:
  "isOk (http_parse_rfc3339 (lit ''2016-12-31T23:59:60Z'')) \<and> \<not> isOk (parse_timestamp (lit ''2016-12-31T23:59:60Z''))"
  by code_simp

lemma http_decision_bound:
  assumes "http_parse_decision body a = Inr d"
  shows "dc_request_id d = at_request_id a \<and> dc_correlation_id d = at_correlation_id a \<and> dc_client_scope_hash d = at_client_scope_hash a \<and>
    authorization_decision_schema True d \<and>
    (\<exists>s x. http_parse_rfc3339 (dc_server_time d) = Inr s \<and> http_parse_rfc3339 (dc_expires_at d) = Inr x \<and> instant s < instant x)"
proof -
  obtain s x where p: "parse_decision_json body = Inr d" "http_parse_rfc3339 (dc_server_time d) = Inr s"
    "http_parse_rfc3339 (dc_expires_at d) = Inr x" "\<not> timestamp_order x s \<le> 0"
    and e: "dc_request_id d = at_request_id a" "dc_correlation_id d = at_correlation_id a" "dc_client_scope_hash d = at_client_scope_hash a"
    using assms by (auto simp: http_parse_decision_def elim!: bindE_InrE split: if_splits)
  have "authorization_decision_schema True d"
    using p(1) by (auto simp: parse_decision_json_def parse_decision_def elim!: bindE_InrE split: json.splits sum.splits if_splits)
  moreover have "instant s < instant x"
    using p(4) timestamp_order_instant [of x s] http_parse_wf p(2,3) by (auto split: if_splits)
  ultimately show ?thesis using p e by blast
qed

lemma prepare_attempt_spec:
  assumes "prepare_attempt U H request scope_hash = Inr a"
  shows "ActionRequest_to_json_bytes request = Inr (at_body a) \<and> at_request a = request \<and> at_request_id a = rq_request_id request \<and>
    at_correlation_id a = rq_correlation_id request \<and> at_idempotency_key a = rq_idempotency_key request \<and>
    scope_hash = Some (at_client_scope_hash a) \<and> client_scope_hash U H (action_json request) = Inr (at_client_scope_hash a)"
proof -
  obtain d body h s where p: "ActionRequest_to_dict request = Inr d" "ActionRequest_to_json_bytes request = Inr body"
    "client_scope_hash U H d = Inr h" "scope_hash = Some s" "SHA256Digest (JStr s) = Inr h"
    and a: "at_request a = request" "at_body a = body" "at_client_scope_hash a = h" "at_request_id a = rq_request_id request"
      "at_correlation_id a = rq_correlation_id request" "at_idempotency_key a = rq_idempotency_key request"
    using assms by (auto simp: prepare_attempt_def elim!: bindE_InrE split: option.splits if_splits)
  have "d = action_json request" using p(1) by (auto simp: ActionRequest_to_dict_def action_json_def elim!: bindE_InrE split: if_splits)
  moreover have "s = h" using p(5) wire_string_result by (fastforce simp: SHA256Digest_def)
  ultimately show ?thesis using p a by simp
qed

lemma decide_cases:
  assumes "decide U H T cfg p request scope_hash deadline = (r, sent)"
  shows "(sent = [] \<and> (\<forall>d. r \<noteq> Returned d)) \<or>
    (\<exists>a header dl start. prepare_attempt U H request scope_hash = Inr a \<and> decide_loop T cfg p a header dl start 1 = (r, sent))"
  using assms
  by (auto simp: decide_def authorization_header_def Let_def split: sum.splits if_splits credential_outcome.splits option.splits)

section \<open>A concrete call\<close>

lemma wire_samples:
  obtains b c where "ActionRequest_to_json_bytes sample_action = Inr b" "parse_decision_json c = Inr sample_decision" "length c \<le> 60000"
proof -
  let ?a = "JObj (action_request_members sample_action)" and ?d = "JObj (authorization_decision_members sample_decision)"
  have f: "fits 0 ?a" "fits 0 ?d"
    by (simp_all add: member_eval sample_decision_def sample_action_def MAX_NESTING_def MAX_COLLECTION_ITEMS_def lit_def)
  have p: "plain_value ?a" "plain_value ?d"
    by (simp_all add: member_eval sample_decision_def sample_action_def sample_digest_def sample_time_def sample_later_def sample_id_def
        sample_ulid_def sixty_four lit_def)
  have n: "text_bound ?a \<le> 60000" "text_bound ?d \<le> 60000"
    by (simp_all add: member_eval sample_decision_def sample_action_def sample_digest_def sample_time_def sample_later_def sample_id_def
        sample_ulid_def sixty_four lit_def)
  have l: "isOk (validate_memory_limits ?a)" "isOk (validate_memory_limits ?d)"
    using sample_action_limited sample_limited(1) by (simp_all add: limited_def)
  have m: "text_bound ?a \<le> MAX_WIRE_BYTES" "text_bound ?d \<le> MAX_WIRE_BYTES" using n by (simp_all add: MAX_WIRE_BYTES_def)
  obtain b where b: "to_json_bytes (ActionRequest_to_dict sample_action) = Inr b"
    using to_json_bytes_plain [OF samples_ok(1) f(1) l(1) p(1) m(1)] by blast
  obtain c where "strict_loads_bytes c = Inr ?d" "length c \<le> text_bound ?d"
    using to_json_bytes_plain [OF samples_ok(2) f(2) l(2) p(2) m(2)] by blast
  then have "parse_decision_json c = Inr sample_decision" "length c \<le> 60000"
    using parse_decision_members [OF samples_ok(2)] n(2) by (simp_all add: parse_decision_json_def)
  then show thesis using that b by (simp add: ActionRequest_to_json_bytes_def)
qed

definition ten_seconds :: transport_timeouts where
  "ten_seconds = \<lparr>to_connect = Fin 10, to_read = Fin 10, to_write = Fin 10, to_pool = Fin 10\<rparr>"

definition local_config :: transport_config where
  "local_config = \<lparr>tc_endpoint = lit ''https://policy.example/v1/authorization/decisions'', tc_max_response_bytes = 65536,
    tc_timeouts = ten_seconds\<rparr>"

text \<open>The first request times out, the second one is answered with the given bytes.\<close>

definition flaky_env :: "bytes \<Rightarrow> transport_env" where
  "flaky_env body = \<lparr>te_closed = (\<lambda>_. False), te_cancelled = (\<lambda>_ _. False), te_clock = (\<lambda>_ _. Fin 0),
    te_reply = (\<lambda>i. if i = 1 then Fails (RequestFailure ConnectTimeout)
      else Reply \<lparr>rs_status = 200, rs_headers = (\<lambda>n. if n = ''content-type'' then [lit ''application/json''] else []),
        rs_chunks = [body], rs_broken = False\<rparr>),
    te_random = (\<lambda>_. Some (ArgFloat (Fin 1))), te_sleep_cancelled = (\<lambda>_. False), te_credential = Acquired (Some (lit ''Bearer x'')),
    te_pow = (\<lambda>_ _. Some (Fin 1)), te_http_date = (\<lambda>_. None), te_text = plain_env\<rparr>"

lemma flaky_prepared:
  assumes "ActionRequest_to_json_bytes sample_action = Inr b"
  shows "prepare_attempt plain_unicode fixed_digest sample_action (Some sample_digest) =
    Inr \<lparr>at_request = sample_action, at_body = b, at_client_scope_hash = sample_digest, at_request_id = sample_id ''req_'',
      at_correlation_id = sample_id ''corr_'', at_action_id = sample_id ''act_'', at_idempotency_key = sample_id ''authz_'',
      at_side_effect = lit ''read_only''\<rparr>"
proof -
  have "client_scope_hash plain_unicode fixed_digest (JObj (action_request_members sample_action)) = Inr sample_digest"
    using resume_hashes_ok [of sample_action] by (simp add: scope_hashes_iff action_json_def)
  moreover have "SHA256Digest (JStr sample_digest) = Inr sample_digest"
    by (simp add: SHA256Digest_def SHA256Digest_ok_def wire_string_JStr limit_eval)
  moreover have "rq_request_id sample_action = sample_id ''req_''" "rq_correlation_id sample_action = sample_id ''corr_''"
    "rq_action_id sample_action = sample_id ''act_''" "rq_idempotency_key sample_action = sample_id ''authz_''"
    "rq_side_effect sample_action = READ_ONLY" by (simp_all add: sample_action_def)
  ultimately show ?thesis using assms by (simp add: prepare_attempt_def samples_ok(1))
qed

definition flaky_attempt :: "bytes \<Rightarrow> attempt" where
  "flaky_attempt b = \<lparr>at_request = sample_action, at_body = b, at_client_scope_hash = sample_digest, at_request_id = sample_id ''req_'',
    at_correlation_id = sample_id ''corr_'', at_action_id = sample_id ''act_'', at_idempotency_key = sample_id ''authz_'',
    at_side_effect = lit ''read_only''\<rparr>"

lemma flaky_retry: "schedule_retry_call (flaky_env c) example_policy (flaky_attempt b) None (Fin 0) 1 (exception_failure ConnectTimeout) = Inr True"
proof -
  have "to_double 0 = Fin 0" "to_double 1 = Fin 1" "to_double 2 = Fin 2" "to_double 10 = Fin 10"
    using to_double_int [of 0] to_double_int [of 1] to_double_int [of 2] to_double_int [of 10] by simp_all
  then show ?thesis
    by (simp add: schedule_retry_call_def retry_request_def flaky_env_def flaky_attempt_def exception_failure_def authorization_retry_def
        example_policy_def valid_input_def SIDE_EFFECTS_def RETRYABLE_FAILURES_def schedule_def retry_after_delay_def backoff_def
        RetryDecision_def fsub_def fmax_def fmin_def Let_def)
qed

lemma flaky_decision:
  assumes "parse_decision_json c = Inr sample_decision"
  shows "http_parse_decision c (flaky_attempt b) = Inr sample_decision"
proof -
  have "isOk (bindE (http_parse_rfc3339 sample_time) (\<lambda>s. bindE (http_parse_rfc3339 sample_later) (\<lambda>x.
      guardE (\<not> timestamp_order x s \<le> 0) [])))"
    unfolding sample_time_def sample_later_def by code_simp
  then have t: "\<exists>s x. http_parse_rfc3339 sample_time = Inr s \<and> http_parse_rfc3339 sample_later = Inr x \<and> \<not> timestamp_order x s \<le> 0"
    by (auto simp: bindE_def guardE_def split: sum.splits if_splits)
  have "SHA256Digest (JStr sample_digest) = Inr sample_digest"
    by (simp add: SHA256Digest_def SHA256Digest_ok_def wire_string_JStr limit_eval)
  then show ?thesis using assms t by (auto simp: http_parse_decision_def flaky_attempt_def sample_decision_def)
qed

lemma flaky_exchange:
  assumes "parse_decision_json c = Inr sample_decision" "length c \<le> 60000"
  shows "exchange (flaky_env c) local_config (flaky_attempt b) None 1 = Inr (exception_failure ConnectTimeout)"
    and "exchange (flaky_env c) local_config (flaky_attempt b) None 2 = Inl (Returned sample_decision)"
proof -
  have "content_type_ok plain_env [lit ''application/json'']"
    by (simp add: content_type_ok_def lit_def py_lower_def plain_env_def py_strip_def py_space_def lower_ascii_def is_upper_def)
  then have "read_response plain_env 65536 \<lparr>rs_status = 200, rs_headers = (\<lambda>n. if n = ''content-type'' then [lit ''application/json''] else []),
      rs_chunks = [c], rs_broken = False\<rparr> = Inr \<lparr>hr_status_code = 200, hr_body = c, hr_retry_after = None\<rparr>"
    using assms(2) by (simp add: read_response_def validate_response_headers_def content_encoding_ok_def content_length_ok_def header_value_def)
  then show "exchange (flaky_env c) local_config (flaky_attempt b) None 2 = Inl (Returned sample_decision)"
    using flaky_decision [OF assms(1), of b]
    by (simp add: exchange_def flaky_env_def local_config_def response_result_def past_def)
  show "exchange (flaky_env c) local_config (flaky_attempt b) None 1 = Inr (exception_failure ConnectTimeout)"
    by (simp add: exchange_def flaky_env_def)
qed

lemma flaky_call:
  assumes "ActionRequest_to_json_bytes sample_action = Inr b" "parse_decision_json c = Inr sample_decision" "length c \<le> 60000"
  shows "decide plain_unicode fixed_digest (flaky_env c) local_config example_policy sample_action (Some sample_digest) None =
    (Returned sample_decision, replicate 2 (outbound_request local_config (flaky_attempt b) (lit ''Bearer x'')))"
proof -
  have g: "\<not> te_closed (flaky_env c) i" "\<not> te_cancelled (flaky_env c) i j" "\<not> te_sleep_cancelled (flaky_env c) i"
    "te_clock (flaky_env c) i j = Fin 0" "te_credential (flaky_env c) = Acquired (Some (lit ''Bearer x''))" for i j
    by (simp_all add: flaky_env_def)
  have "decide_loop (flaky_env c) local_config example_policy (flaky_attempt b) (lit ''Bearer x'') None (Fin 0) 2 =
      (Returned sample_decision, [outbound_request local_config (flaky_attempt b) (lit ''Bearer x'')])"
    unfolding decide_loop.simps [of _ _ _ _ _ _ _ 2] using flaky_exchange(2) [OF assms(2,3), of b] g by (simp add: past_def request_timeout_def)
  then have "decide_loop (flaky_env c) local_config example_policy (flaky_attempt b) (lit ''Bearer x'') None (Fin 0) 1 =
      (Returned sample_decision, replicate 2 (outbound_request local_config (flaky_attempt b) (lit ''Bearer x'')))"
    unfolding decide_loop.simps [of _ _ _ _ _ _ _ 1] using flaky_exchange(1) [OF assms(2,3), of b] flaky_retry [of c b] g
    by (simp add: past_def request_timeout_def numeral_2_eq_2)
  moreover have "authorization_header (Acquired (Some (lit ''Bearer x''))) (flaky_attempt b) = Inr (lit ''Bearer x'')"
    by (simp add: authorization_header_def lit_def)
  ultimately show ?thesis
    using flaky_prepared [OF assms(1), folded flaky_attempt_def] g by (simp add: decide_def normalize_deadline_def past_def)
qed

section \<open>Properties\<close>

text \<open>
  C35: A decision the transport returns is an answer to its request.  Whatever the network sends, a
  returned decision is structurally valid, carries the request and correlation identifiers of the
  request and the hash of the request's client scope, which is the hash the caller supplied, and
  expires after the time it was issued.
\<close>

theorem transport_decision_bound:
  assumes "decide U H T cfg p request scope_hash deadline = (Returned d, sent)"
  shows "dc_request_id d = rq_request_id request \<and> dc_correlation_id d = rq_correlation_id request \<and>
    scope_hash = Some (dc_client_scope_hash d) \<and> client_scope_hash U H (action_json request) = Inr (dc_client_scope_hash d) \<and>
    authorization_decision_schema True d \<and>
    (\<exists>s x. http_parse_rfc3339 (dc_server_time d) = Inr s \<and> http_parse_rfc3339 (dc_expires_at d) = Inr x \<and> instant s < instant x)"
proof -
  obtain a header dl start where a: "prepare_attempt U H request scope_hash = Inr a"
    "decide_loop T cfg p a header dl start 1 = (Returned d, sent)"
    using decide_cases [OF assms] by blast
  obtain body where "http_parse_decision body a = Inr d" using decide_loop_spec [OF a(2)] by blast
  then show ?thesis using http_decision_bound [of body a d] prepare_attempt_spec [OF a(1)] by simp
qed

theorem transport_decision_bound_witness:
  "\<exists>c sent. decide plain_unicode fixed_digest (flaky_env c) local_config example_policy sample_action (Some sample_digest) None =
      (Returned sample_decision, sent) \<and> length sent = 2 \<and>
    dc_request_id sample_decision = rq_request_id sample_action \<and> dc_client_scope_hash sample_decision = sample_digest \<and>
    client_scope_hash plain_unicode fixed_digest (action_json sample_action) = Inr sample_digest"
proof -
  obtain b c where w: "ActionRequest_to_json_bytes sample_action = Inr b" "parse_decision_json c = Inr sample_decision" "length c \<le> 60000"
    by (rule wire_samples)
  show ?thesis using transport_decision_bound [OF flaky_call [OF w]] flaky_call [OF w] by (metis length_replicate option.inject)
qed

text \<open>
  C36: A call ends, and repeats itself only verbatim.  However the network, the clock and the
  cancellation callback behave, a call with a policy from the constructor returns after at most the
  configured number of requests (never more than 100), and every request it sent has the same body,
  read back as the caller's request, and carries the request's own idempotency key.
\<close>

theorem transport_sends_bounded:
  assumes "RetryPolicy n e i dl m j af = Inr p" "decide U H T cfg p request scope_hash deadline = (r, sent)"
  shows "length sent \<le> nat (max_attempts p) \<and> max_attempts p \<le> 100 \<and>
    (\<forall>x \<in> set sent. ActionRequest_to_json_bytes request = Inr (ob_body x) \<and>
      strict_loads_bytes (ob_body x) = Inr (wire_form (action_json request)) \<and>
      (lit ''Idempotency-Key'', rq_idempotency_key request) \<in> set (ob_headers x))"
proof -
  have p: "1 \<le> max_attempts p" "max_attempts p \<le> 100" using RetryPolicy_ok [OF assms(1)] by (auto simp: policy_ok_def)
  show ?thesis
  proof (cases "sent = []")
    case True
    then show ?thesis using p by simp
  next
    case False
    then obtain a header d start where a: "prepare_attempt U H request scope_hash = Inr a"
      "decide_loop T cfg p a header d start 1 = (r, sent)" using decide_cases [OF assms(2)] by blast
    have s: "\<forall>x \<in> set sent. x = outbound_request cfg a header" "length sent \<le> nat (max_attempts p - 1) + 1"
      using decide_loop_spec [OF a(2)] by auto
    have b: "ActionRequest_to_json_bytes request = Inr (at_body a)" "at_idempotency_key a = rq_idempotency_key request"
      using prepare_attempt_spec [OF a(1)] by auto
    obtain v where v: "ActionRequest_to_dict request = Inr v" "strict_loads_bytes (at_body a) = Inr (wire_form v)"
      using to_json_bytes_back [OF b(1) [unfolded ActionRequest_to_json_bytes_def]] by blast
    then have "v = action_json request" by (auto simp: ActionRequest_to_dict_def action_json_def elim!: bindE_InrE split: if_splits)
    then show ?thesis using s b v(2) p by (auto simp: outbound_request_def)
  qed
qed

theorem transport_sends_bounded_witness:
  "\<exists>b c x. decide plain_unicode fixed_digest (flaky_env c) local_config example_policy sample_action (Some sample_digest) None =
      (Returned sample_decision, [x, x]) \<and>
    ActionRequest_to_json_bytes sample_action = Inr b \<and> ob_body x = b \<and>
    strict_loads_bytes b = Inr (wire_form (action_json sample_action)) \<and>
    (lit ''Idempotency-Key'', rq_idempotency_key sample_action) \<in> set (ob_headers x)"
proof -
  obtain b c where w: "ActionRequest_to_json_bytes sample_action = Inr b" "parse_decision_json c = Inr sample_decision" "length c \<le> 60000"
    by (rule wire_samples)
  define x where "x = outbound_request local_config (flaky_attempt b) (lit ''Bearer x'')"
  have c: "decide plain_unicode fixed_digest (flaky_env c) local_config example_policy sample_action (Some sample_digest) None =
      (Returned sample_decision, [x, x])" using flaky_call [OF w] by (simp add: x_def numeral_2_eq_2)
  have "ActionRequest_to_json_bytes sample_action = Inr (ob_body x) \<and>
      strict_loads_bytes (ob_body x) = Inr (wire_form (action_json sample_action)) \<and>
      (lit ''Idempotency-Key'', rq_idempotency_key sample_action) \<in> set (ob_headers x)"
    using transport_sends_bounded [OF example_policy_built c] by simp
  then show ?thesis using c by blast
qed

end
