(* ===== verification/Spec2Isabelle.thy ===== *)
theory Spec2Isabelle
  imports Timestamps Canonical_Form Snapshot_Limits Canonical_Path Wire_Limits Wire_Strings Protocol_Dto Documents Reconciliation
    Reconciliation_Safety Reconciliation_Evidence Digest_Binding Reconciliation_Properties Reconciliation_Runs Approval Approval_Properties Canonical_Scope Resume Url_Text Canonical_Url Canonical_Shell Identifiers Py_Float Retry_Policy Json_Text Sdk_Errors Http_Transport
begin

text \<open>
  \<^bold>\<open>Verification of the palonexus SDK.\<close>

  The repository defines a protocol by which an agent asks an authorization service whether a proposed
  action may run, waits for a human approval where one is required, and later reports what it did.  It
  has a reference implementation of the protocol rules (\<open>protocol/reference\<close>), JSON schemas
  (\<open>protocol/schemas\<close>), a Python SDK (\<open>python/src/palonexus\<close>) with a module generated from the
  schemas, and a Go daemon (\<open>guard\<close>).  This development models the reference implementation, the
  generated documents and the parts of the SDK that carry a request to the service.

  \<^bold>\<open>How the parts interact.\<close>  An action request is a document of \<open>_generated/protocol.py\<close>.  Its target
  is built from a canonical path, URL or shell command and bound by a resource hash; the hash of its
  client scope binds the whole request.  Hashes are taken of canonical JSON.  The transport writes the
  request as JSON bytes, sends it under the retry policy, and accepts an answer only for this request.
  A decision that needs approval leads to an approval record, resolved by compare-and-swap, and to a
  fresh attempt within the approved scope.  Reconciliation records deliver the evidence of what was
  done, across failures and restarts.

  \<^bold>\<open>Conventions.\<close>  A Python string is the list of its code points, a byte string the list of its bytes.
  Code that may raise returns a sum whose left side is the error code.  Python integers are \<open>int\<close>,
  decimals are sign, coefficient and exponent, floats are the rationals an IEEE double can hold (the
  two zeros identified).  The semantics is that of CPython 3.12 and 3.13.  Code outside the repository
  is an argument of the definitions that use it: the Unicode database (\<open>unicode\<close>), the digest (\<open>H\<close> for
  SHA-256; where a property needs it to tell two inputs apart, that is a hypothesis on these two
  inputs), the IDNA package and the case tables (\<open>url_env\<close>), the platform's power function and its
  parser of HTTP dates, and the network, clock, cancellation, credentials and randomness of a call
  (\<open>transport_env\<close>).

  \<^bold>\<open>Theories.\<close>

  \<^item> \<open>Prelude\<close>: strings, results, decimal digits, UTF-8, splitting and joining.

  \<^item> \<open>Timestamps\<close> (\<open>validate.py\<close>: \<open>_parse_rfc3339\<close>, \<open>_timestamp_order\<close>; \<open>reconciliation.py\<close>: \<open>_add_seconds\<close>):
    order of timestamps is order of instants; shifting is exact.

  \<^item> \<open>Canonical_Numbers\<close>, \<open>Canonical_Json\<close>, \<open>Canonical_Form\<close>, \<open>Snapshot_Limits\<close> (\<open>canonicalize.py\<close>: \<open>_decimal_text\<close>,
    \<open>_snapshot_value\<close>, \<open>_encode_canonical\<close>, \<open>canonical_json\<close>): the encoder refines an abstract value, two
    values have the same bytes exactly when they mean the same, and the memoised snapshot is a plain
    traversal when no container is shared.  The locale \<open>canonical_encoding\<close> is the contract the hashing
    components rely on; it is interpreted on \<open>canonical_json\<close>.

  \<^item> \<open>Canonical_Path\<close>, \<open>Url_Text\<close>, \<open>Canonical_Url\<close>, \<open>Canonical_Shell\<close> (\<open>canonicalize.py\<close>): the shape of
    canonical paths and URLs, removal of dot segments against a walk over segments, redaction as
    independence of the secret values, and the prepared resources.

  \<^item> \<open>Wire_Limits\<close>, \<open>Wire_Strings\<close>, \<open>Protocol_Dto\<close>, \<open>Json_Text\<close> (\<open>_generated/protocol.py\<close> and the schemas): the
    preflight of the text, the limits of values, the validated strings, one record per data class with
    its schema, and the reader and writer of JSON bytes with their round trip.

  \<^item> \<open>Documents\<close>, \<open>Digest_Binding\<close> (\<open>validate.py\<close>): the document validators, and what equal digests say of
    two documents.  The locale \<open>cas_machine\<close> is compare-and-swap on a revision digest; it is interpreted
    on the reconciliation records and on the approval records.

  \<^item> \<open>Canonical_Scope\<close>, \<open>Approval\<close>, \<open>Approval_Properties\<close>, \<open>Resume\<close> (\<open>canonicalize.py\<close>, \<open>validate.py\<close>, \<open>approvals.py\<close>):
    scope hashes bind scopes, an approval is resolved once, in time and by one winner, and a resumed
    attempt stays within what was approved.

  \<^item> \<open>Reconciliation\<close>, \<open>Reconciliation_Safety\<close>, \<open>Reconciliation_Evidence\<close>, \<open>Reconciliation_Properties\<close>,
    \<open>Reconciliation_Runs\<close> (\<open>reconciliation.py\<close>): the state machine as functions, the accepted steps as
    an inductive relation, and over all sequences of steps: no lost update, bounded deliveries,
    immutable evidence, recovery, authentic acknowledgement, ordered batches, retries not early.  The
    last theory runs the machine on a concrete record.

  \<^item> \<open>Identifiers\<close> (\<open>context.py\<close>): the ULID generator; identifiers increase and are well typed.

  \<^item> \<open>Py_Float\<close>, \<open>Retry_Policy\<close> (\<open>retry.py\<close>), \<open>Sdk_Errors\<close> (\<open>errors.py\<close>), \<open>Http_Transport\<close>
    (\<open>transports/http.py\<close>): when a call may be sent again, the exceptions, and the synchronous call with
    its retry loop; a returned decision answers the request, and a call ends within its attempt limit.

  \<^bold>\<open>Bounds and fuel.\<close>  The limits of the code (bytes, nesting, items, digits) keep their values.  Only the
  JSON decoder carries fuel, one unit per call of its three functions; it starts with twice the length
  of the text plus one, and \<open>parse_enough\<close> shows that it never runs out.  Every other loop is a total
  function; \<open>decide_loop\<close> terminates because a retry is scheduled only below the attempt limit.

  \<^bold>\<open>Not modelled.\<close>  The text of a schema error is the code \<open>schema_invalid\<close> without its path, and the
  generic schema interpreter is represented by one predicate per schema.  \<open>parse_json\<close> and
  \<open>prepare_mcp_resource\<close> of the canonicaliser and the command line of \<open>validate.py\<close> are left out.
  \<open>_canonicalize.py\<close> is a synchronized copy of the reference.  Of the transport, the background event
  loop, the checks of the configured origin and the async variant are left out: the first is
  thread scheduling, and it appears as the environment's choice of outcomes.  The clients, the builder of
  attempts (\<open>protocol.py\<close>), models, credentials, key store, redaction of diagnostics, identity,
  integrations, developer tools, command line, test doubles, scripts, examples and the Go daemon are
  not modelled: they mostly call external services, frameworks and operating system facilities.
\<close>

end
